(* ===== verification/Ick_Prelude.thy ===== *)
theory Ick_Prelude
  imports Main "HOL-Library.Word" "HOL-Library.Char_ord" "HOL-Library.List_Lexorder"
begin

text \<open>
  Prelude of the development: the outcome type every fallible C++ routine of the library
  is modelled with, the part of std::string the sources use (find, substr), the C library's
  atoi and sprintf "%d", and the generic lemmas the component theories share.

  A C++ string is a HOL string (a list of 8-bit chars).  A thrown exception, a read outside
  an object and a null dereference are values of \<open>err\<close>; a routine that can fail returns
  \<open>err + 'a\<close>, \<open>Inl\<close> the failure and \<open>Inr\<close> the result.
\<close>

section \<open>Outcomes\<close>

datatype err =
    Throw string      \<comment> \<open>an exception carrying this message\<close>
  | Out_Of_Range      \<comment> \<open>std::out_of_range, raised by substr, at and friends\<close>
  | Undefined         \<comment> \<open>undefined behaviour: a read outside the object, a missing return\<close>
  | Null_Deref        \<comment> \<open>a member access through a null pointer\<close>

type_synonym 'a res = "err + 'a"

named_theorems res_simps \<open>rewrites of the outcome monad\<close>
named_theorems str_simps \<open>facts on the string primitives\<close>

fun bindR :: "'a res \<Rightarrow> ('a \<Rightarrow> 'b res) \<Rightarrow> 'b res" where
  "bindR (Inl e) f = Inl e"
| "bindR (Inr x) f = f x"

lemma bindR_cong [fundef_cong]:
  "m = m' \<Longrightarrow> (\<And>x. m' = Inr x \<Longrightarrow> f x = f' x) \<Longrightarrow> bindR m f = bindR m' f'"
  by (cases m') auto

lemma bindR_Inr_iff [res_simps]: "bindR m f = Inr y \<longleftrightarrow> (\<exists>x. m = Inr x \<and> f x = Inr y)"
  by (cases m) auto

lemma bindR_Inl_iff [res_simps]:
  "bindR m f = Inl e \<longleftrightarrow> m = Inl e \<or> (\<exists>x. m = Inr x \<and> f x = Inl e)"
  by (cases m) auto

lemma bindR_assoc: "bindR (bindR m f) g = bindR m (\<lambda>x. bindR (f x) g)"
  by (cases m) auto

lemma bindR_Inr_right [simp]: "bindR m Inr = m"
  by (cases m) auto

definition mapR :: "('a \<Rightarrow> 'b) \<Rightarrow> 'a res \<Rightarrow> 'b res" where
  "mapR f m = bindR m (\<lambda>x. Inr (f x))"

lemma mapR_simps [simp]: "mapR f (Inl e) = Inl e" "mapR f (Inr x) = Inr (f x)"
  by (simp_all add: mapR_def)

lemma mapR_Inr_iff [res_simps]: "mapR f m = Inr y \<longleftrightarrow> (\<exists>x. m = Inr x \<and> f x = y)"
  by (cases m) auto

lemma mapR_Inl_iff [res_simps]: "mapR f m = Inl e \<longleftrightarrow> m = Inl e"
  by (cases m) auto

definition is_ok :: "'a res \<Rightarrow> bool" where
  "is_ok m = (case m of Inl _ \<Rightarrow> False | Inr _ \<Rightarrow> True)"

lemma is_ok_simps [simp]: "\<not> is_ok (Inl e)" "is_ok (Inr x)"
  by (simp_all add: is_ok_def)

lemma is_ok_iff: "is_ok m \<longleftrightarrow> (\<exists>x. m = Inr x)"
  by (cases m) auto

section \<open>std::string\<close>

fun starts_with :: "string \<Rightarrow> string \<Rightarrow> bool" where
  "starts_with [] s = True"
| "starts_with (p # ps) [] = False"
| "starts_with (p # ps) (c # cs) = (p = c \<and> starts_with ps cs)"

text \<open>\<open>s.find(p)\<close>: the first position at which \<open>p\<close> occurs, None for npos.\<close>
fun str_find :: "string \<Rightarrow> string \<Rightarrow> nat option" where
  "str_find [] p = (if p = [] then Some 0 else None)"
| "str_find (c # cs) p =
     (if starts_with p (c # cs) then Some 0 else map_option Suc (str_find cs p))"

text \<open>\<open>s.find(p, pos)\<close>\<close>
definition str_find_from :: "string \<Rightarrow> string \<Rightarrow> nat \<Rightarrow> nat option" where
  "str_find_from s p pos =
     (if length s < pos then None else map_option (\<lambda>k. pos + k) (str_find (drop pos s) p))"

text \<open>\<open>s.substr(pos, n)\<close>: throws std::out_of_range when \<open>pos\<close> is past the end.\<close>
definition str_substr :: "string \<Rightarrow> nat \<Rightarrow> nat \<Rightarrow> string res" where
  "str_substr s pos n = (if length s < pos then Inl Out_Of_Range else Inr (take n (drop pos s)))"

text \<open>\<open>s.at(i)\<close>\<close>
definition str_at :: "string \<Rightarrow> nat \<Rightarrow> char res" where
  "str_at s i = (if i < length s then Inr (s ! i) else Inl Out_Of_Range)"

lemma starts_with_append [str_simps]: "starts_with p (p @ s)"
  by (induction p) auto

lemma starts_with_iff: "starts_with p s \<longleftrightarrow> (\<exists>t. s = p @ t)"
  by (induction p s rule: starts_with.induct) auto

lemma starts_with_drop: "starts_with p s \<Longrightarrow> s = p @ drop (length p) s"
  by (auto simp: starts_with_iff)

lemma starts_with_length: "starts_with p s \<Longrightarrow> length p \<le> length s"
  by (auto simp: starts_with_iff)

lemma starts_with_Nil_right [simp]: "starts_with p [] \<longleftrightarrow> p = []"
  by (cases p) auto

lemma str_find_Nil_pat [simp]: "str_find s [] = Some 0"
  by (cases s) auto

lemma str_find_SomeD:
  "str_find s p = Some k \<Longrightarrow> starts_with p (drop k s) \<and> k + length p \<le> length s"
  by (induction s arbitrary: k) (auto split: if_splits dest: starts_with_length)

lemma str_find_single [str_simps]:
  "c \<notin> set a \<Longrightarrow> str_find (a @ c # b) [c] = Some (length a)"
  by (induction a) auto

lemma str_find_single_None [str_simps]: "str_find a [c] = None \<longleftrightarrow> c \<notin> set a"
  by (induction a) auto

lemma str_find_first:
  "str_find s [c] = Some k \<Longrightarrow> c \<notin> set (take k s)"
  by (induction s arbitrary: k) (auto split: if_splits)

section \<open>Joining fields\<close>

text \<open>The text the senders build: fields separated by one character.\<close>
fun join :: "char \<Rightarrow> string list \<Rightarrow> string" where
  "join c [] = []"
| "join c [f] = f"
| "join c (f # g # fs) = f @ c # join c (g # fs)"

lemma join_Cons: "fs \<noteq> [] \<Longrightarrow> join c (f # fs) = f @ c # join c fs"
  by (cases fs) auto

lemma join_append_Cons: "fs \<noteq> [] \<Longrightarrow> join c (fs @ [g]) = join c fs @ c # g"
  by (induction fs rule: induct_list012) auto

section \<open>sprintf "%d" and atoi\<close>

definition digit_char :: "nat \<Rightarrow> char" where
  "digit_char d = char_of (48 + d)"

definition is_digit :: "char \<Rightarrow> bool" where
  "is_digit c = (48 \<le> (of_char c :: nat) \<and> (of_char c :: nat) \<le> 57)"

definition digit_val :: "char \<Rightarrow> nat" where
  "digit_val c = of_char c - 48"

fun show_nat :: "nat \<Rightarrow> string" where
  "show_nat n = (if n < 10 then [digit_char n] else show_nat (n div 10) @ [digit_char (n mod 10)])"

declare show_nat.simps [simp del]

text \<open>\<open>sprintf("%d", v)\<close>\<close>
definition show_int :: "int \<Rightarrow> string" where
  "show_int v = (if v < 0 then CHR ''-'' # show_nat (nat (- v)) else show_nat (nat v))"

fun read_digits :: "nat \<Rightarrow> string \<Rightarrow> nat" where
  "read_digits acc [] = acc"
| "read_digits acc (c # cs) =
     (if is_digit c then read_digits (10 * acc + digit_val c) cs else acc)"

definition is_space :: "char \<Rightarrow> bool" where
  "is_space c = (of_char c = (32::nat) \<or> (9 \<le> (of_char c :: nat) \<and> (of_char c :: nat) \<le> 13))"

definition long_max :: int where "long_max = 2 ^ 63 - 1"
definition long_min :: int where "long_min = - (2 ^ 63)"

text \<open>Conversion of an integer to the 32-bit \<open>int\<close> (two's complement).\<close>
definition wrap32 :: "int \<Rightarrow> int" where
  "wrap32 v = (v + 2 ^ 31) mod 2 ^ 32 - 2 ^ 31"

text \<open>The C library's strtol in base 10 (it saturates), the value of the longest number the
  string starts with.\<close>
definition strtol :: "string \<Rightarrow> int" where
  "strtol s =
     (let t = dropWhile is_space s;
          v = (case t of
                 [] \<Rightarrow> 0
               | c # cs \<Rightarrow> if c = CHR ''-'' then - int (read_digits 0 cs)
                          else if c = CHR ''+'' then int (read_digits 0 cs)
                          else int (read_digits 0 t))
      in max long_min (min long_max v))"

text \<open>glibc's \<open>atoi(s)\<close> is \<open>(int)strtol(s)\<close>.\<close>
definition atoi :: "string \<Rightarrow> int" where
  "atoi s = wrap32 (strtol s)"

definition int32 :: "int \<Rightarrow> bool" where
  "int32 v = (- (2 ^ 31) \<le> v \<and> v < 2 ^ 31)"

lemma wrap32_int32 [simp]: "int32 (wrap32 v)"
  by (simp add: wrap32_def int32_def)

lemma wrap32_id: "int32 v \<Longrightarrow> wrap32 v = v"
  by (simp add: wrap32_def int32_def)

lemma atoi_int32 [simp]: "int32 (atoi s)"
  by (simp add: atoi_def)

lemma of_char_digit [simp]: "d < 10 \<Longrightarrow> (of_char (digit_char d) :: nat) = 48 + d"
  by (simp add: digit_char_def)

lemma is_digit_digit_char [simp]: "d < 10 \<Longrightarrow> is_digit (digit_char d)"
  by (simp add: is_digit_def)

lemma digit_val_digit_char [simp]: "d < 10 \<Longrightarrow> digit_val (digit_char d) = d"
  by (simp add: digit_val_def)

lemma show_nat_not_Nil [simp]: "show_nat n \<noteq> []"
  by (subst show_nat.simps) simp

lemma show_nat_digits: "c \<in> set (show_nat n) \<Longrightarrow> is_digit c"
proof (induction n rule: show_nat.induct)
  case (1 n)
  show ?case
  proof (cases "n < 10")
    case True
    with 1 show ?thesis by (simp add: show_nat.simps [of n])
  next
    case False
    with 1 show ?thesis by (auto simp: show_nat.simps [of n])
  qed
qed

lemma read_digits_append:
  "\<forall>c \<in> set a. is_digit c \<Longrightarrow> read_digits acc (a @ b) = read_digits (read_digits acc a) b"
  by (induction a arbitrary: acc) auto

lemma read_digits_show_nat [simp]: "read_digits 0 (show_nat n) = n"
proof (induction n rule: show_nat.induct)
  case (1 n)
  show ?case
  proof (cases "n < 10")
    case True
    then show ?thesis by (simp add: show_nat.simps [of n])
  next
    case False
    with 1 show ?thesis
      by (simp add: show_nat.simps [of n] read_digits_append show_nat_digits)
  qed
qed

lemma hd_show_nat_digit: "is_digit (hd (show_nat n))"
  using show_nat_digits [OF hd_in_set [OF show_nat_not_Nil]] .

lemma is_digit_facts:
  "is_digit c \<Longrightarrow> \<not> is_space c"
  "is_digit c \<Longrightarrow> c \<noteq> CHR ''-''"
  "is_digit c \<Longrightarrow> c \<noteq> CHR ''+''"
  "is_digit c \<Longrightarrow> c \<noteq> CHR '':''"
  "is_digit c \<Longrightarrow> c \<noteq> CHR '';''"
  "is_digit c \<Longrightarrow> c \<noteq> CHR '',''"
  "is_digit c \<Longrightarrow> c \<noteq> CHR '' ''"
  "is_digit c \<Longrightarrow> c \<noteq> CHR ''%''"
  by (auto simp: is_digit_def is_space_def)

lemma strtol_show_int: "long_min \<le> v \<Longrightarrow> v \<le> long_max \<Longrightarrow> strtol (show_int v) = v"
proof (cases "v < 0")
  case True
  then show "long_min \<le> v \<Longrightarrow> v \<le> long_max \<Longrightarrow> strtol (show_int v) = v"
    by (simp add: strtol_def show_int_def is_space_def Let_def)
next
  case False
  obtain c cs where s: "show_nat (nat v) = c # cs"
    by (meson list.exhaust show_nat_not_Nil)
  then have d: "is_digit c" using hd_show_nat_digit [of "nat v"] by simp
  have "strtol (show_int v) = max long_min (min long_max (int (read_digits 0 (show_nat (nat v)))))"
    using False s d by (simp add: strtol_def show_int_def Let_def is_digit_facts)
  then show "long_min \<le> v \<Longrightarrow> v \<le> long_max \<Longrightarrow> strtol (show_int v) = v"
    using False by simp
qed

lemma atoi_show_int: "int32 v \<Longrightarrow> atoi (show_int v) = v"
  by (simp add: atoi_def) (subst strtol_show_int; simp add: wrap32_id int32_def long_min_def long_max_def)

lemma show_int_chars:
  "c \<in> set (show_int v) \<Longrightarrow> c = CHR ''-'' \<or> is_digit c"
  by (auto simp: show_int_def show_nat_digits split: if_splits)

lemma show_int_not_Nil [simp]: "show_int v \<noteq> []"
  by (simp add: show_int_def)

lemma show_int_free [str_simps]:
  "CHR '':'' \<notin> set (show_int v)" "CHR '';'' \<notin> set (show_int v)"
  "CHR '','' \<notin> set (show_int v)" "CHR '' '' \<notin> set (show_int v)"
  "CHR ''%'' \<notin> set (show_int v)"
  using show_int_chars is_digit_facts by fastforce+

lemma length_show_nat: "length (show_nat n) \<le> Suc n"
proof (induction n rule: show_nat.induct)
  case (1 n)
  show ?case by (cases "n < 10") (use 1 in \<open>subst show_nat.simps, simp\<close>)+
qed

lemma length_show_int: "int32 v \<Longrightarrow> length (show_int v) < 2 ^ 61"
proof -
  assume "int32 v"
  then have "nat \<bar>v\<bar> \<le> 2147483648" by (auto simp: int32_def abs_if)
  moreover have "length (show_int v) \<le> Suc (Suc (nat \<bar>v\<bar>))"
    using length_show_nat [of "nat (- v)"] length_show_nat [of "nat v"] by (auto simp: show_int_def)
  ultimately show ?thesis by simp
qed

lemma show_int_no_zero: "CHR 0x00 \<notin> set (show_int v)"
  using show_int_chars [of "CHR 0x00" v] by (auto simp: is_digit_def)

end
