(* ===== verification/Converter.thy ===== *)
theory Converter
  imports Ick_Prelude
begin

unbundle bit_operations_syntax

text \<open>
  The text helpers of src/converter.cc: trimming, splitting, replacing, the decimal and
  hexadecimal printers, URL escaping, and the UTF-8 / UTF-16 conversions.  The loops of trim
  and split are recursive functions with their termination proofs; replace takes fuel, since
  the C++ loop does not end on an empty source text.  std::string is \<open>string\<close>; the
  conversions work on its bytes (\<open>8 word\<close>) and on 16-bit units (\<open>16 word\<close>).
\<close>

section \<open>trim\<close>

text \<open>First loop: \<open>str[0]\<close> of an empty string is the terminator, so the loop ends there.\<close>
fun trim_front :: "string \<Rightarrow> string" where
  "trim_front [] = []"
| "trim_front (c # cs) = (if c = CHR '' '' then trim_front cs else c # cs)"

text \<open>Second loop: on an empty string it reads \<open>str[npos]\<close>.\<close>
function trim_back :: "string \<Rightarrow> string res" where
  "trim_back s =
     (if s = [] then Inl Undefined
      else if last s = CHR '' '' then trim_back (butlast s) else Inr s)"
  by pat_completeness auto
termination by (relation "measure length") auto

declare trim_back.simps [simp del]

definition trim :: "string \<Rightarrow> string res" where
  "trim s = (if s = [] then Inr [] else trim_back (trim_front s))"

lemma trim_back_Inr_length: "trim_back s = Inr t \<Longrightarrow> length t \<le> length s"
proof (induction s rule: trim_back.induct)
  case (1 s)
  then show ?case by (subst (asm) (2) trim_back.simps) (auto split: if_splits)
qed

lemma length_trim_front: "length (trim_front s) \<le> length s"
  by (induction s) auto

lemma trim_length: "trim s = Inr t \<Longrightarrow> length t \<le> length s"
  using trim_back_Inr_length [of "trim_front s" t] length_trim_front [of s]
  by (auto simp: trim_def split: if_splits)

lemma in_set_not_Nil: "x \<in> set xs \<Longrightarrow> xs \<noteq> []"
  by auto

lemma in_set_dropWhile:
  "x \<in> set xs \<Longrightarrow> \<not> P x \<Longrightarrow> x \<in> set (dropWhile P xs)"
  by (induction xs) auto

lemma trim_front_eq: "trim_front s = dropWhile (\<lambda>c. c = CHR '' '') s"
  by (induction s) auto

lemma trim_back_eq:
  "trim_back s = (if \<forall>c \<in> set s. c = CHR '' '' then Inl Undefined
                  else Inr (rev (dropWhile (\<lambda>c. c = CHR '' '') (rev s))))"
proof (induction s rule: rev_induct)
  case (snoc c s)
  show ?case
    by (subst trim_back.simps) (use snoc.IH in auto)
qed (simp add: trim_back.simps)

text \<open>trim strips the spaces at both ends; a non-empty text of spaces only makes it read
  outside the string.\<close>
lemma trim_eq:
  "trim s = (if s = [] then Inr []
             else if \<forall>c \<in> set s. c = CHR '' '' then Inl Undefined
             else Inr (rev (dropWhile (\<lambda>c. c = CHR '' '')
                    (rev (dropWhile (\<lambda>c. c = CHR '' '') s)))))"
proof (cases "\<forall>c \<in> set s. c = CHR '' ''")
  case True
  then have "dropWhile (\<lambda>c. c = CHR '' '') s = []" by (simp add: dropWhile_eq_Nil_conv)
  then have "trim_back (trim_front s) = Inl Undefined"
    by (simp only: trim_front_eq) (simp add: trim_back.simps)
  then show ?thesis using True by (simp add: trim_def)
next
  case False
  then obtain c where c: "c \<in> set s" "c \<noteq> CHR '' ''" by blast
  then have "c \<in> set (dropWhile (\<lambda>c. c = CHR '' '') s)" by (rule in_set_dropWhile)
  with c(2) have "\<not> (\<forall>c \<in> set (trim_front s). c = CHR '' '')"
    by (metis trim_front_eq)
  then have "trim_back (trim_front s) = Inr (rev (dropWhile (\<lambda>c. c = CHR '' '') (rev (trim_front s))))"
    using trim_back_eq [of "trim_front s"] by (simp only: if_False)
  moreover have "s \<noteq> []" using c(1) by (rule in_set_not_Nil)
  ultimately show ?thesis using False by (simp only: trim_def trim_front_eq if_False)
qed

definition untrimmed :: "string \<Rightarrow> bool" where
  "untrimmed s = (s \<noteq> [] \<and> (hd s = CHR '' '' \<or> last s = CHR '' ''))"

lemma trim_id: "\<not> untrimmed s \<Longrightarrow> trim s = Inr s"
  by (cases s) (auto simp: untrimmed_def trim_def trim_back.simps)

lemma hd_rev_dropWhile_rev:
  "u \<noteq> [] \<Longrightarrow> hd u \<noteq> CHR '' '' \<Longrightarrow>
   \<not> untrimmed (rev (dropWhile (\<lambda>c. c = CHR '' '') (rev u)))"
proof -
  assume u: "u \<noteq> []" "hd u \<noteq> CHR '' ''"
  let ?sp = "\<lambda>c. c = CHR '' ''"
  let ?d = "dropWhile ?sp (rev u)"
  have "hd u \<in> set (rev u)" using u by simp
  then have "hd u \<in> set ?d" using u(2) by (rule in_set_dropWhile)
  then have nd: "?d \<noteq> []" by (rule in_set_not_Nil)
  have "hd ?d \<noteq> CHR '' ''" using hd_dropWhile [OF nd] .
  moreover have "u = rev ?d @ rev (takeWhile ?sp (rev u))"
    by (metis rev_append rev_rev_ident takeWhile_dropWhile_id)
  then have "hd (rev ?d) = hd u" using nd by (metis hd_append2 rev_is_Nil_conv)
  ultimately show ?thesis using u by (simp add: untrimmed_def last_rev)
qed

lemma trim_result: "trim s = Inr t \<Longrightarrow> \<not> untrimmed t"
proof -
  assume t: "trim s = Inr t"
  show ?thesis
  proof (cases "s = []")
    case True
    with t show ?thesis by (simp add: trim_def untrimmed_def)
  next
    case False
    let ?sp = "\<lambda>c. c = CHR '' ''"
    from False t have ns: "\<exists>c \<in> set s. \<not> ?sp c" and te: "t = rev (dropWhile ?sp (rev (dropWhile ?sp s)))"
      by (auto simp: trim_eq split: if_splits)
    from ns obtain c where "c \<in> set s" "\<not> ?sp c" by blast
    then have "c \<in> set (dropWhile ?sp s)" by (rule in_set_dropWhile)
    then have ne: "dropWhile ?sp s \<noteq> []" by (rule in_set_not_Nil)
    show ?thesis unfolding te by (rule hd_rev_dropWhile_rev [OF ne hd_dropWhile [OF ne]])
  qed
qed

text \<open>A text that ends in a visible character is never trimmed into undefined behaviour.\<close>
lemma trim_defined: "s = [] \<or> last s \<noteq> CHR '' '' \<Longrightarrow> trim s = Inr (trim_front s)"
proof -
  assume a: "s = [] \<or> last s \<noteq> CHR '' ''"
  show ?thesis
  proof (cases "s = []")
    case False
    with a have l: "last s \<noteq> CHR '' ''" by simp
    then have "trim_front s \<noteq> []" using False
      by (simp add: trim_front_eq) (metis last_in_set)
    moreover have "last (trim_front s) = last s"
      using calculation by (metis last_appendR takeWhile_dropWhile_id trim_front_eq)
    ultimately show ?thesis using l False by (simp add: trim_def trim_back.simps)
  qed (simp add: trim_def)
qed

section \<open>split\<close>

function split_loop :: "string \<Rightarrow> string \<Rightarrow> string list res" where
  "split_loop pattern s =
     (case str_find s pattern of
        None \<Rightarrow> Inr (if s \<noteq> [] then [s] else [])
      | Some pos \<Rightarrow>
          bindR (str_substr s 0 pos) (\<lambda>tmp.
          bindR (str_substr s (pos + 1) (length s - pos)) (\<lambda>rest.
          bindR (trim rest) (\<lambda>s'.
          if s' = pattern then Inr (tmp # [] # (if s' \<noteq> [] then [s'] else []))
          else mapR (\<lambda>r. tmp # r) (split_loop pattern s')))))"
  by pat_completeness auto
termination
proof (relation "measure (\<lambda>(p, s). length s)", goal_cases)
  case (2 pattern s pos tmp rest s')
  from 2(3) have "pos + 1 \<le> length s" "length rest \<le> length s - (pos + 1)"
    by (auto simp: str_substr_def split: if_splits)
  moreover have "length s' \<le> length rest" using 2(4) by (rule trim_length)
  ultimately show ?case by simp
qed simp

declare split_loop.simps [simp del]

definition split :: "string \<Rightarrow> string \<Rightarrow> string list res" where
  "split str pattern = bindR (trim str) (split_loop pattern)"

text \<open>The overload that appends to a caller's vector and returns how many fields it added;
  a null vector gives 0.\<close>
definition split_count ::
  "string \<Rightarrow> string \<Rightarrow> string list option \<Rightarrow> (nat \<times> string list option) res" where
  "split_count str pattern vec =
     (case vec of None \<Rightarrow> Inr (0, None)
      | Some v \<Rightarrow> mapR (\<lambda>fs. (length fs, Some (v @ fs))) (split str pattern))"

text \<open>The fields a text is built from so that split gives them back: no field holds the
  separator or starts with a space, and the last one is visible and does not end in a space.\<close>
definition split_fields :: "char \<Rightarrow> string list \<Rightarrow> bool" where
  "split_fields c fs =
     (fs \<noteq> [] \<and> c \<noteq> CHR '' '' \<and> last fs \<noteq> [] \<and> last (last fs) \<noteq> CHR '' '' \<and>
      (\<forall>f \<in> set fs. c \<notin> set f \<and> (f = [] \<or> hd f \<noteq> CHR '' '')))"

lemma split_fields_Cons:
  "fs \<noteq> [] \<Longrightarrow> split_fields c (f # fs) \<longleftrightarrow>
     split_fields c fs \<and> c \<notin> set f \<and> (f = [] \<or> hd f \<noteq> CHR '' '')"
  by (auto simp: split_fields_def)

lemma join_last: "fs \<noteq> [] \<Longrightarrow> last fs \<noteq> [] \<Longrightarrow> join c fs \<noteq> [] \<and> last (join c fs) = last (last fs)"
proof (induction fs rule: induct_list012)
  case (3 f g fs)
  then have "join c (g # fs) \<noteq> [] \<and> last (join c (g # fs)) = last (last (g # fs))" by simp
  then show ?case by simp
qed auto

lemma join_trimmed: "split_fields c fs \<Longrightarrow> \<not> untrimmed (join c fs)"
proof -
  assume a: "split_fields c fs"
  then obtain f gs where fs: "fs = f # gs" by (auto simp: split_fields_def neq_Nil_conv)
  have l: "join c fs \<noteq> []" "last (join c fs) \<noteq> CHR '' ''"
    using a join_last [of fs c] by (auto simp: split_fields_def)
  have "hd (join c fs) \<noteq> CHR '' ''"
  proof (cases gs)
    case Nil
    with a fs show ?thesis by (auto simp: split_fields_def)
  next
    case (Cons g gs')
    with a fs show ?thesis by (cases f) (auto simp: split_fields_def)
  qed
  with l show ?thesis by (simp add: untrimmed_def)
qed

lemma split_loop_join: "split_fields c fs \<Longrightarrow> split_loop [c] (join c fs) = Inr fs"
proof (induction fs rule: induct_list012)
  case (2 f)
  then have "str_find f [c] = None" "f \<noteq> []" by (auto simp: split_fields_def str_simps)
  then show ?case by (simp add: split_loop.simps [of "[c]" f])
next
  case (3 f g fs)
  let ?r = "join c (g # fs)"
  have g: "split_fields c (g # fs)" and f: "c \<notin> set f"
    using "3.prems" by (auto simp: split_fields_Cons)
  have tr: "trim ?r = Inr ?r" using join_trimmed [OF g] by (rule trim_id)
  have ne: "?r \<noteq> [c]"
  proof (cases fs)
    case Nil
    then show ?thesis using g by (auto simp: split_fields_def)
  next
    case (Cons h hs)
    then have "join c (h # hs) \<noteq> []" using g join_last [of "h # hs" c]
      by (auto simp: split_fields_def)
    then show ?thesis using Cons by (cases g) auto
  qed
  have "split_loop [c] (f @ c # ?r) = mapR ((#) f) (split_loop [c] ?r)"
    using f tr ne
    by (subst split_loop.simps) (simp add: str_find_single str_substr_def)
  then show ?case using "3.IH" g by simp
qed (simp add: split_fields_def)

lemma split_join: "split_fields c fs \<Longrightarrow> split (join c fs) [c] = Inr fs"
  by (simp add: split_def trim_id join_trimmed split_loop_join)

text \<open>split never leaves the string once trim has succeeded, and only an empty text split by
  an empty pattern throws.\<close>
lemma last_trimmed_drop:
  "\<not> untrimmed s \<Longrightarrow> drop k s = [] \<or> last (drop k s) \<noteq> CHR '' ''"
  by (cases "k < length s") (auto simp: untrimmed_def)

lemma split_loop_defined:
  "pattern \<noteq> [] \<Longrightarrow> \<not> untrimmed s \<Longrightarrow> is_ok (split_loop pattern s)"
proof (induction pattern s rule: split_loop.induct)
  case (1 pattern s)
  show ?case
  proof (cases "str_find s pattern")
    case None
    then show ?thesis by (subst split_loop.simps) simp
  next
    case (Some pos)
    let ?d = "drop (pos + 1) s"
    from str_find_SomeD [OF Some] "1.prems" have p: "pos + 1 \<le> length s" by (cases pattern) auto
    have sub: "str_substr s 0 pos = Inr (take pos s)"
      "str_substr s (pos + 1) (length s - pos) = Inr ?d"
      using p by (simp_all add: str_substr_def)
    have tr: "trim ?d = Inr (trim_front ?d)"
      by (rule trim_defined, rule last_trimmed_drop, rule "1.prems")
    show ?thesis
    proof (cases "trim_front ?d = pattern")
      case True
      then show ?thesis using Some sub tr by (subst split_loop.simps) simp
    next
      case False
      have "is_ok (split_loop pattern (trim_front ?d))"
        using "1.IH" [OF Some sub tr False] "1.prems" trim_result [OF tr] by simp
      then show ?thesis using Some sub tr False
        by (subst split_loop.simps) (auto simp: is_ok_iff)
    qed
  qed
qed

section \<open>replace\<close>

text \<open>The loop of replace: \<open>result.replace(pos, len_src, str_dst)\<close> at each occurrence, the search
  resumed after the inserted text.\<close>
fun replace_loop :: "nat \<Rightarrow> string \<Rightarrow> string \<Rightarrow> string \<Rightarrow> nat option \<Rightarrow> string option" where
  "replace_loop fuel src dst result None = Some result"
| "replace_loop 0 src dst result (Some pos) = None"
| "replace_loop (Suc fuel) src dst result (Some pos) =
     (let result' = take pos result @ dst @ drop (pos + length src) result
      in replace_loop fuel src dst result' (str_find_from result' src (pos + length dst)))"

definition replace :: "nat \<Rightarrow> string \<Rightarrow> string \<Rightarrow> string \<Rightarrow> string option" where
  "replace fuel str src dst = replace_loop fuel src dst str (str_find_from str src 0)"

text \<open>What replace promises: every non-overlapping occurrence, from the left.\<close>
function replace_all :: "string \<Rightarrow> string \<Rightarrow> string \<Rightarrow> string" where
  "replace_all src dst s =
     (case s of [] \<Rightarrow> []
      | c # cs \<Rightarrow> if src \<noteq> [] \<and> starts_with src s
                  then dst @ replace_all src dst (drop (length src) s)
                  else c # replace_all src dst cs)"
  by pat_completeness auto
termination by (relation "measure (\<lambda>(a, b, s). length s)") auto

declare replace_all.simps [simp del]

lemma replace_all_None: "src \<noteq> [] \<Longrightarrow> str_find s src = None \<Longrightarrow> replace_all src dst s = s"
  by (induction s) (auto simp: replace_all.simps split: if_splits)

lemma replace_all_Some:
  "src \<noteq> [] \<Longrightarrow> str_find s src = Some k \<Longrightarrow>
   replace_all src dst s = take k s @ dst @ replace_all src dst (drop (k + length src) s)"
proof (induction s arbitrary: k)
  case (Cons c cs)
  show ?case
  proof (cases "starts_with src (c # cs)")
    case True
    with Cons.prems show ?thesis by (simp add: replace_all.simps [of src dst "c # cs"])
  next
    case False
    with Cons.prems obtain j where "str_find cs src = Some j" "k = Suc j" by auto
    with Cons.IH [of j] Cons.prems False show ?thesis
      by (simp add: replace_all.simps [of src dst "c # cs"])
  qed
qed simp

lemma replace_loop_eq:
  "src \<noteq> [] \<Longrightarrow> length s < fuel \<Longrightarrow>
   replace_loop fuel src dst (a @ s) (str_find_from (a @ s) src (length a)) =
     Some (a @ replace_all src dst s)"
proof (induction fuel arbitrary: a s)
  case (Suc fuel)
  show ?case
  proof (cases "str_find s src")
    case None
    then show ?thesis using Suc.prems by (simp add: str_find_from_def replace_all_None)
  next
    case (Some k)
    note k = str_find_SomeD [OF Some]
    let ?a = "a @ take k s @ dst" and ?s = "drop (k + length src) s"
    have at: "str_find_from (a @ s) src (length a) = Some (length a + k)"
      using Some by (simp add: str_find_from_def)
    have r: "take (length a + k) (a @ s) @ dst @ drop (length a + k + length src) (a @ s) = ?a @ ?s"
      by simp
    have len: "length a + k + length dst = length ?a" using k by simp
    have "replace_loop (Suc fuel) src dst (a @ s) (str_find_from (a @ s) src (length a)) =
          replace_loop fuel src dst (?a @ ?s) (str_find_from (?a @ ?s) src (length ?a))"
      by (simp only: at replace_loop.simps Let_def r len)
    also have "\<dots> = Some (?a @ replace_all src dst ?s)"
      using Suc.prems k by (intro Suc.IH) (auto simp: neq_Nil_conv)
    finally show ?thesis using replace_all_Some [OF Suc.prems(1) Some] by simp
  qed
qed simp

lemma replace_loop_empty_src:
  "pos \<le> length s \<Longrightarrow> replace_loop fuel [] dst s (Some pos) = None"
proof (induction fuel arbitrary: s pos)
  case (Suc fuel)
  let ?r = "take pos s @ dst @ drop pos s"
  have "str_find_from ?r [] (pos + length dst) = Some (pos + length dst)"
    using Suc.prems by (simp add: str_find_from_def)
  then show ?case using Suc by (simp add: Let_def)
qed simp

section \<open>Decimal and hexadecimal text\<close>

definition convertToString :: "int \<Rightarrow> string" where
  "convertToString value = show_int value"

text \<open>The \<open>long\<close> and \<open>long long\<close> overloads print with "%ld" and "%lld".\<close>
definition convertToString_long :: "int \<Rightarrow> string" where
  "convertToString_long value = show_int value"

definition convertToString_long_long :: "int \<Rightarrow> string" where
  "convertToString_long_long value = show_int value"

text \<open>The double overload builds the format; \<open>sprintf\<close> on a double is a parameter.\<close>
definition convertToString_double :: "(string \<Rightarrow> 'd \<Rightarrow> string) \<Rightarrow> 'd \<Rightarrow> int \<Rightarrow> string" where
  "convertToString_double sprintf value accuracy =
     (if accuracy < 0 then sprintf ''%lf'' value
      else sprintf (''%.'' @ convertToString accuracy @ ''f'') value)"

text \<open>One hexadecimal digit, \<open>(d < 10) ? d + '0' : (d - 10) + 'A'\<close>.\<close>
definition hex_digit :: "nat \<Rightarrow> char" where
  "hex_digit d = (if d < 10 then char_of (d + 48) else char_of (d - 10 + 65))"

definition convertToString_uchar :: "8 word \<Rightarrow> bool \<Rightarrow> string" where
  "convertToString_uchar value hex = [hex_digit (unat (value div 16)), hex_digit (unat (value mod 16))]"

fun bytes_loop :: "8 word list \<Rightarrow> string" where
  "bytes_loop [] = []"
| "bytes_loop [b] = [hex_digit (unat (b div 16)), hex_digit (unat (b mod 16))]"
| "bytes_loop (b # c # bs) =
     [hex_digit (unat (b div 16)), hex_digit (unat (b mod 16))] @ '' '' @ bytes_loop (c # bs)"

text \<open>The buffer overload; \<open>length\<close> is the caller's and must not exceed the buffer.\<close>
definition convertToString_bytes :: "8 word list option \<Rightarrow> int \<Rightarrow> bool \<Rightarrow> string res" where
  "convertToString_bytes buff len hex =
     (case buff of None \<Rightarrow> Inr []
      | Some b \<Rightarrow> if len \<le> 0 then Inr []
                  else if length b < nat len then Inl Undefined
                  else Inr (bytes_loop (take (nat len) b)))"

text \<open>Reading the printed form back.\<close>
definition unhex_digit :: "char \<Rightarrow> nat" where
  "unhex_digit c = (let n = of_char c in if n < 65 then n - 48 else n - 55)"

fun unhex :: "string \<Rightarrow> 8 word list" where
  "unhex (a # b # cs) =
     word_of_nat (16 * unhex_digit a + unhex_digit b) # (case cs of [] \<Rightarrow> [] | _ # r \<Rightarrow> unhex r)"
| "unhex _ = []"

lemma unhex_hex_digit: "d < 16 \<Longrightarrow> unhex_digit (hex_digit d) = d"
  by (simp add: unhex_digit_def hex_digit_def Let_def)

lemma hex_byte: "(word_of_nat (16 * unhex_digit (hex_digit (unat ((b :: 8 word) div 16))) +
     unhex_digit (hex_digit (unat (b mod 16)))) :: 8 word) = b"
proof -
  have "unat (b div 16) < 16" "unat (b mod 16) < 16"
    using unsigned_less [of b, where 'a = nat] by (simp_all add: unat_div unat_mod less_mult_imp_div_less)
  moreover have "16 * unat (b div 16) + unat (b mod 16) = unat b"
    by (simp add: unat_div unat_mod)
  ultimately show ?thesis by (simp only: unhex_hex_digit) simp
qed

lemma unhex_bytes_loop: "unhex (bytes_loop bs) = bs"
proof (induction bs rule: bytes_loop.induct)
  case (3 b c bs)
  have "unhex (bytes_loop (b # c # bs)) =
    word_of_nat (16 * unhex_digit (hex_digit (unat (b div 16))) +
       unhex_digit (hex_digit (unat (b mod 16)))) # unhex (bytes_loop (c # bs))" by simp
  then show ?case using "3.IH" by (simp only: hex_byte)
next
  case (2 b)
  show ?case by (simp only: bytes_loop.simps unhex.simps list.case hex_byte)
qed simp

lemma length_bytes_loop: "bs \<noteq> [] \<Longrightarrow> length (bytes_loop bs) + 1 = 3 * length bs"
  by (induction bs rule: bytes_loop.induct) auto

section \<open>URL text\<close>

definition encode_url_char :: "char \<Rightarrow> string" where
  "encode_url_char c =
     (if c = CHR '' '' then ''+''
      else if (of_char c :: nat) < 128 then [c]
      else CHR ''%'' # [hex_digit (of_char c div 16), hex_digit (of_char c mod 16)])"

fun encodeUrl :: "string \<Rightarrow> string" where
  "encodeUrl [] = []"
| "encodeUrl (c # cs) = encode_url_char c @ encodeUrl cs"

text \<open>decodeUrl has no return statement: using its result is undefined.\<close>
definition decodeUrl :: "string \<Rightarrow> string res" where
  "decodeUrl str = Inl Undefined"

lemma hex_digit_ascii: "d < 16 \<Longrightarrow> (of_char (hex_digit d) :: nat) < 128 \<and> hex_digit d \<noteq> CHR '' ''"
proof -
  assume d: "d < 16"
  then have "(of_char (hex_digit d) :: nat) = (if d < 10 then d + 48 else d + 55)"
    by (simp add: hex_digit_def)
  moreover from this d have "(of_char (hex_digit d) :: nat) \<noteq> of_char (CHR '' '')"
    by simp
  ultimately show ?thesis using d by auto
qed

lemma encode_url_char_ascii:
  "x \<in> set (encode_url_char c) \<Longrightarrow> (of_char x :: nat) < 128 \<and> x \<noteq> CHR '' ''"
proof -
  assume x: "x \<in> set (encode_url_char c)"
  have "(of_char c :: nat) < 256" by (rule nat_of_char_less_256)
  then have "of_char c div 16 < (16::nat)" by (simp add: less_mult_imp_div_less)
  then show ?thesis using x hex_digit_ascii [of "of_char c div 16"] hex_digit_ascii [of "of_char c mod 16"]
    by (auto simp: encode_url_char_def split: if_splits)
qed

lemma encodeUrl_ascii: "x \<in> set (encodeUrl s) \<Longrightarrow> (of_char x :: nat) < 128 \<and> x \<noteq> CHR '' ''"
  using encode_url_char_ascii by (induction s) auto

section \<open>UTF-8 and UTF-16\<close>

text \<open>The bytes one 16-bit unit is written as; the branches past 0xFFFF are in the source too.\<close>
definition utf8_of_unit :: "16 word \<Rightarrow> 8 word list" where
  "utf8_of_unit unit =
     (let d = (ucast unit :: 32 word) in
      if d \<le> 0x7F then [ucast (d AND 0x7F)]
      else if d \<le> 0x7FF then
        [ucast (0xC0 OR (drop_bit 6 d AND 0x1F)), ucast (0x80 OR (d AND 0x3F))]
      else if d \<le> 0xFFFF then
        [ucast (0xE0 OR (drop_bit 12 d AND 0x0F)), ucast (0x80 OR (drop_bit 6 d AND 0x3F)),
         ucast (0x80 OR (d AND 0x3F))]
      else if d \<le> 0x1FFFFF then
        [ucast (0xF0 OR (drop_bit 18 d AND 0x07)), ucast (0x80 OR (drop_bit 12 d AND 0x3F)),
         ucast (0x80 OR (drop_bit 6 d AND 0x3F)), ucast (0x80 OR (d AND 0x3F))]
      else if d \<le> 0x3FFFFFF then
        [ucast (0xF8 OR (drop_bit 24 d AND 0x03)), ucast (0x80 OR (drop_bit 18 d AND 0x3F)),
         ucast (0x80 OR (drop_bit 12 d AND 0x3F)), ucast (0x80 OR (drop_bit 6 d AND 0x3F)),
         ucast (0x80 OR (d AND 0x3F))]
      else
        [ucast (0xFC OR (drop_bit 30 d AND 0x01)), ucast (0x80 OR (drop_bit 24 d AND 0x3F)),
         ucast (0x80 OR (drop_bit 18 d AND 0x3F)), ucast (0x80 OR (drop_bit 12 d AND 0x3F)),
         ucast (0x80 OR (drop_bit 6 d AND 0x3F)), ucast (0x80 OR (d AND 0x3F))])"

text \<open>The loop over \<open>data[i]\<close> up to the zero unit; an array without one is read past its end.\<close>
fun utf16_loop :: "16 word list \<Rightarrow> 8 word list res" where
  "utf16_loop [] = Inl Undefined"
| "utf16_loop (d # ds) = (if d = 0 then Inr [] else mapR (\<lambda>r. utf8_of_unit d @ r) (utf16_loop ds))"

definition convertUtf16ToUtf8 :: "16 word list option \<Rightarrow> 8 word list res" where
  "convertUtf16ToUtf8 data = (case data of None \<Rightarrow> Inr [] | Some d \<Rightarrow> utf16_loop d)"

text \<open>\<open>data[i]\<close> of \<open>str.c_str()\<close>: the terminator at the end, whatever memory holds beyond it.\<close>
definition byte_at :: "8 word list \<Rightarrow> (nat \<Rightarrow> 8 word) \<Rightarrow> nat \<Rightarrow> 8 word" where
  "byte_at s mem i = (if i < length s then s ! i else if i = length s then 0 else mem i)"

text \<open>The six forms of convertUtf8ToUtf16: the unit and the number of bytes consumed, None for
  the malformed case.  The sums are computed as \<open>int\<close> and truncated to 16 bits.\<close>
definition utf8_form ::
  "8 word \<Rightarrow> 8 word \<Rightarrow> 8 word \<Rightarrow> 8 word \<Rightarrow> 8 word \<Rightarrow> 8 word \<Rightarrow> (16 word \<times> nat) option" where
  "utf8_form ch0 ch1 ch2 ch3 ch4 ch5 =
     (let w = (\<lambda>c :: 8 word. ucast c :: 32 word);
          cont = (\<lambda>c :: 8 word. drop_bit 6 c = 2)
      in if drop_bit 7 ch0 = 0 then Some (ucast (w ch0 AND 0x7F), 1)
         else if drop_bit 5 ch0 = 6 \<and> cont ch1 then
           Some (ucast (push_bit 6 (w ch0 AND 0x1F) + (w ch1 AND 0x3F)), 2)
         else if drop_bit 4 ch0 = 14 \<and> cont ch1 \<and> cont ch2 then
           Some (ucast (push_bit 12 (w ch0 AND 0x0F) + push_bit 6 (w ch1 AND 0x3F) + (w ch2 AND 0x3F)), 3)
         else if drop_bit 3 ch0 = 0x1E \<and> cont ch1 \<and> cont ch2 \<and> cont ch3 then
           Some (ucast (push_bit 18 (w ch0 AND 0x07) + push_bit 12 (w ch1 AND 0x3F)
                        + push_bit 6 (w ch2 AND 0x3F) + (w ch3 AND 0x3F)), 4)
         else if drop_bit 2 ch0 = 0x3E \<and> cont ch1 \<and> cont ch2 \<and> cont ch3 \<and> cont ch4 then
           Some (ucast (push_bit 24 (w ch0 AND 0x03) + push_bit 18 (w ch1 AND 0x3F)
                        + push_bit 12 (w ch2 AND 0x3F) + push_bit 6 (w ch3 AND 0x3F)
                        + (w ch4 AND 0x3F)), 5)
         else if drop_bit 2 ch0 = 0x7E \<and> cont ch1 \<and> cont ch2 \<and> cont ch3 \<and> cont ch4 \<and> cont ch5 then
           Some (ucast (push_bit 30 (w ch0 AND 0x01) + push_bit 24 (w ch1 AND 0x3F)
                        + push_bit 18 (w ch2 AND 0x3F) + push_bit 12 (w ch3 AND 0x3F)
                        + push_bit 6 (w ch4 AND 0x3F) + (w ch5 AND 0x3F)), 6)
         else None)"

lemma utf8_form_pos: "utf8_form c0 c1 c2 c3 c4 c5 = Some (u, n) \<Longrightarrow> 0 < n"
  by (auto simp: utf8_form_def Let_def split: if_splits)

text \<open>The loop: the units pushed so far and whether it ended without the "utf8 format error" log.\<close>
function utf8_loop :: "8 word list \<Rightarrow> (nat \<Rightarrow> 8 word) \<Rightarrow> nat \<Rightarrow> 16 word list \<times> bool" where
  "utf8_loop s mem i =
     (if i < length s then
        (case utf8_form (byte_at s mem i) (byte_at s mem (i + 1)) (byte_at s mem (i + 2))
                (byte_at s mem (i + 3)) (byte_at s mem (i + 4)) (byte_at s mem (i + 5)) of
           None \<Rightarrow> ([], False)
         | Some (u, n) \<Rightarrow> (case utf8_loop s mem (i + n) of (us, ok) \<Rightarrow> (u # us, ok)))
      else ([], True))"
  by pat_completeness auto
termination
  by (relation "measure (\<lambda>(s, mem, i). length s - i)") (auto simp: diff_less_mono2 dest!: utf8_form_pos)

declare utf8_loop.simps [simp del]

text \<open>The result vector after the call (None when the caller passed a null vector).\<close>
definition convertUtf8ToUtf16 ::
  "(nat \<Rightarrow> 8 word) \<Rightarrow> 8 word list \<Rightarrow> 16 word list option \<Rightarrow> 16 word list option" where
  "convertUtf8ToUtf16 mem str r =
     (if str = [] then r else map_option (\<lambda>v. v @ fst (utf8_loop str mem 0)) r)"

definition SplitUtf8 ::
  "(nat \<Rightarrow> 8 word) \<Rightarrow> 8 word list \<Rightarrow> 8 word list list option \<Rightarrow> 8 word list list option" where
  "SplitUtf8 mem str r =
     (case r of None \<Rightarrow> None
      | Some v \<Rightarrow>
          (case convertUtf8ToUtf16 mem str (Some []) of
             None \<Rightarrow> None
           | Some us \<Rightarrow> Some (v @ map (\<lambda>u. case convertUtf16ToUtf8 (Some [u, 0]) of
                                           Inl _ \<Rightarrow> [] | Inr b \<Rightarrow> b) us)))"

text \<open>The bytes past the terminator never matter: a form that would reach them has failed on the
  terminator, which is not a continuation byte.\<close>
lemma utf8_form_stop:
  "utf8_form a 0 c d e f = utf8_form a 0 c' d' e' f'"
  "utf8_form a b 0 d e f = utf8_form a b 0 d' e' f'"
  "utf8_form a b c 0 e f = utf8_form a b c 0 e' f'"
  "utf8_form a b c d 0 f = utf8_form a b c d 0 f'"
  by (simp_all add: utf8_form_def)

lemma utf8_form_mem:
  "i < length s \<Longrightarrow>
   utf8_form (byte_at s m i) (byte_at s m (i + 1)) (byte_at s m (i + 2)) (byte_at s m (i + 3))
     (byte_at s m (i + 4)) (byte_at s m (i + 5)) =
   utf8_form (byte_at s m' i) (byte_at s m' (i + 1)) (byte_at s m' (i + 2)) (byte_at s m' (i + 3))
     (byte_at s m' (i + 4)) (byte_at s m' (i + 5))"
proof -
  assume i: "i < length s"
  consider "length s = i + 1" | "length s = i + 2" | "length s = i + 3" | "length s = i + 4"
    | "i + 5 \<le> length s" using i by linarith
  then show ?thesis
  proof cases
    case 1
    then show ?thesis using i by (simp add: byte_at_def) (rule utf8_form_stop)
  next
    case 2
    then show ?thesis using i by (simp add: byte_at_def) (rule utf8_form_stop)
  next
    case 3
    then show ?thesis using i by (simp add: byte_at_def) (rule utf8_form_stop)
  next
    case 4
    then show ?thesis using i by (simp add: byte_at_def) (rule utf8_form_stop)
  next
    case 5
    then show ?thesis using i by (simp add: byte_at_def)
  qed
qed

lemma utf8_loop_mem: "utf8_loop s m i = utf8_loop s m' i"
proof (induction "length s - i" arbitrary: i rule: less_induct)
  case less
  show ?case
  proof (cases "i < length s")
    case True
    show ?thesis
      unfolding utf8_loop.simps [of s m i] utf8_loop.simps [of s m' i] utf8_form_mem [OF True, of m m']
      using less True by (auto split: option.splits prod.splits dest!: utf8_form_pos)
  qed (simp add: utf8_loop.simps)
qed

lemma cont_byte: "drop_bit 6 (ucast (0x80 OR (x AND 0x3F)) :: 8 word) = 2" for x :: "32 word"
  by (rule bit_word_eqI) (auto simp: bit_simps less_Suc_eq numeral_eq_Suc)

lemma cont_bits: "(ucast (ucast (0x80 OR (x AND 0x3F)) :: 8 word) :: 32 word) AND 0x3F = x AND 0x3F" for x :: "32 word"
  by (rule bit_word_eqI) (auto simp: bit_simps less_Suc_eq numeral_eq_Suc)

lemma lead2: "drop_bit 5 (ucast (0xC0 OR (x AND 0x1F)) :: 8 word) = 6"
   "drop_bit 7 (ucast (0xC0 OR (x AND 0x1F)) :: 8 word) = 1"
  "(ucast (ucast (0xC0 OR (x AND 0x1F)) :: 8 word) :: 32 word) AND 0x1F = x AND 0x1F" for x :: "32 word"
  by (rule bit_word_eqI, auto simp: bit_simps less_Suc_eq numeral_eq_Suc)+

lemma lead3: "drop_bit 4 (ucast (0xE0 OR (x AND 0x0F)) :: 8 word) = 14"
  "drop_bit 7 (ucast (0xE0 OR (x AND 0x0F)) :: 8 word) = 1"
  "drop_bit 5 (ucast (0xE0 OR (x AND 0x0F)) :: 8 word) = 7"
  "(ucast (ucast (0xE0 OR (x AND 0x0F)) :: 8 word) :: 32 word) AND 0x0F = x AND 0x0F" for x :: "32 word"
  by (rule bit_word_eqI, auto simp: bit_simps less_Suc_eq numeral_eq_Suc)+

lemma lead1: "drop_bit 7 (ucast (x AND 0x7F) :: 8 word) = 0"
  "(ucast (ucast (x AND 0x7F) :: 8 word) :: 32 word) AND 0x7F = x AND 0x7F" for x :: "32 word"
  by (rule bit_word_eqI, auto simp: bit_simps less_Suc_eq numeral_eq_Suc)+

lemma and_mod: "x AND 0x3F = x mod 64" "x AND 0x1F = x mod 32" "x AND 0x0F = x mod 16" "x AND 0x7F = x mod 128" for x :: "32 word"
  using take_bit_eq_mask [of 6 x] take_bit_eq_mod [of 6 x] take_bit_eq_mask [of 5 x] take_bit_eq_mod [of 5 x]
    take_bit_eq_mask [of 4 x] take_bit_eq_mod [of 4 x] take_bit_eq_mask [of 7 x] take_bit_eq_mod [of 7 x]
  by (simp_all add: mask_eq_exp_minus_1)

lemma split3: "d < 65536 \<Longrightarrow> d div 4096 * 4096 + d div 64 mod 64 * 64 + d mod 64 = (d :: nat)"
proof -
  assume d: "d < 65536"
  have "d div 4096 = d div 64 div 64" by (simp add: div_mult2_eq [symmetric])
  moreover have "d div 64 div 64 * 64 + d div 64 mod 64 = d div 64" by (rule div_mult_mod_eq)
  moreover have "d div 64 * 64 + d mod 64 = d" by (rule div_mult_mod_eq)
  ultimately show ?thesis by linarith
qed

lemma join3:
  "d < 0x10000 \<Longrightarrow>
   push_bit 12 (drop_bit 12 d AND 0x0F) + push_bit 6 (drop_bit 6 d AND 0x3F) + (d AND 0x3F) = (d :: 32 word)"
proof -
  assume "d < 0x10000"
  then have "unat d < 65536" by (simp add: word_less_nat_alt)
  then show ?thesis
    unfolding and_mod push_bit_eq_mult drop_bit_eq_div
    by (simp add: word_unat_eq_iff unat_word_ariths unat_div unat_mod split3 less_mult_imp_div_less)
qed

lemma join2: "d < 0x800 \<Longrightarrow> push_bit 6 (drop_bit 6 d AND 0x1F) + (d AND 0x3F) = (d :: 32 word)"
proof -
  assume "d < 0x800"
  then have d: "unat d < 2048" by (simp add: word_less_nat_alt)
  then have "unat d div 64 mod 32 = unat d div 64" by (simp add: less_mult_imp_div_less)
  with d show ?thesis
    unfolding and_mod push_bit_eq_mult drop_bit_eq_div
    by (simp add: word_unat_eq_iff unat_word_ariths unat_div unat_mod)
qed

lemma unat_ucast_16_32: "unat (ucast (u :: 16 word) :: 32 word) = unat u"
  using unsigned_less [of u, where 'a = nat] by (simp add: unsigned_ucast_eq take_bit_nat_eq_self)

lemma utf8_form_2:
  "drop_bit 5 a = 6 \<Longrightarrow> drop_bit 7 a = 1 \<Longrightarrow> drop_bit 6 b = 2 \<Longrightarrow>
   utf8_form a b x2 x3 x4 x5 =
     Some (ucast (push_bit 6 (ucast a AND 0x1F :: 32 word) + (ucast b AND 0x3F)), 2)"
  by (simp add: utf8_form_def Let_def)

lemma utf8_form_3:
  "drop_bit 5 a = 7 \<Longrightarrow> drop_bit 4 a = 14 \<Longrightarrow> drop_bit 7 a = 1 \<Longrightarrow> drop_bit 6 b = 2 \<Longrightarrow> drop_bit 6 c = 2 \<Longrightarrow>
   utf8_form a b c x3 x4 x5 =
     Some (ucast (push_bit 12 (ucast a AND 0x0F :: 32 word) + push_bit 6 (ucast b AND 0x3F)
                  + (ucast c AND 0x3F)), 3)"
  by (simp add: utf8_form_def Let_def)

lemma utf8_form_unit:
  "u \<noteq> 0 \<Longrightarrow> \<exists>n. length (utf8_of_unit u) = n \<and> 0 < n \<and> n \<le> 3 \<and>
     (\<forall>x1 x2 x3 x4 x5. utf8_form (utf8_of_unit u ! 0)
        (if 1 < n then utf8_of_unit u ! 1 else x1) (if 2 < n then utf8_of_unit u ! 2 else x2)
        x3 x4 x5 = Some (u, n))"
proof -
  assume "u \<noteq> 0"
  let ?d = "ucast u :: 32 word"
  have bk: "(ucast ?d :: 16 word) = u" by (rule bit_word_eqI) (simp add: bit_simps)
  have lt: "?d < 0x10000"
  proof -
    have "unat u < 65536" using unsigned_less [of u, where 'a = nat] by simp
    then show ?thesis by (simp add: word_less_nat_alt unat_ucast_16_32)
  qed
  consider (one) "?d \<le> 0x7F" | (two) "\<not> ?d \<le> 0x7F" "?d \<le> 0x7FF" | (three) "\<not> ?d \<le> 0x7FF" by blast
  then show ?thesis
  proof cases
    case one
    then have s: "?d AND 0x7F = ?d" 
      by (simp add: and_mod word_unat_eq_iff unat_mod word_le_nat_alt)
    have e: "utf8_of_unit u = [ucast (?d AND 0x7F)]"
      using one by (simp add: utf8_of_unit_def Let_def)
    have "(ucast (?d AND 0x7F) :: 16 word) = u" using s bk by simp
    then show ?thesis by (simp only: e utf8_form_def Let_def lead1 nth_Cons_0 list.size) simp
  next
    case two
    have j: "push_bit 6 (drop_bit 6 ?d AND 0x1F) + (?d AND 0x3F) = ?d"
      by (rule join2) (use two in \<open>simp add: word_le_nat_alt word_less_nat_alt\<close>)
    have "utf8_of_unit u = [ucast (0xC0 OR (drop_bit 6 ?d AND 0x1F)), ucast (0x80 OR (?d AND 0x3F))]"
      using two by (simp add: utf8_of_unit_def Let_def)
    moreover note utf8_form_2 [OF lead2(1,2) cont_byte, unfolded lead2 cont_bits]
    ultimately show ?thesis by (simp add: j bk del: push_bit_and)
  next
    case three
    then have "\<not> ?d \<le> 0x7F" "?d \<le> 0xFFFF" using lt by (simp_all add: word_le_nat_alt word_less_nat_alt)
    with three have "utf8_of_unit u = [ucast (0xE0 OR (drop_bit 12 ?d AND 0x0F)),
        ucast (0x80 OR (drop_bit 6 ?d AND 0x3F)), ucast (0x80 OR (?d AND 0x3F))]"
      by (simp add: utf8_of_unit_def Let_def)
    moreover note utf8_form_3 [OF lead3(3,1,2) cont_byte cont_byte, unfolded lead3 cont_bits]
    ultimately show ?thesis by (simp add: join3 [OF lt] bk del: push_bit_and)
  qed
qed

lemma utf8_loop_unit:
  "u \<noteq> 0 \<Longrightarrow>
   utf8_loop (a @ utf8_of_unit u @ b) mem (length a) =
     (case utf8_loop (a @ utf8_of_unit u @ b) mem (length (a @ utf8_of_unit u)) of
        (us, ok) \<Rightarrow> (u # us, ok))"
proof -
  assume "u \<noteq> 0"
  from utf8_form_unit [OF this] obtain n where n: "length (utf8_of_unit u) = n" "0 < n" "n \<le> 3"
    and f: "\<And>x1 x2 x3 x4 x5. utf8_form (utf8_of_unit u ! 0)
        (if 1 < n then utf8_of_unit u ! 1 else x1) (if 2 < n then utf8_of_unit u ! 2 else x2)
        x3 x4 x5 = Some (u, n)" by blast
  let ?s = "a @ utf8_of_unit u @ b"
  have b0: "byte_at ?s mem (length a) = utf8_of_unit u ! 0"
    using n by (simp add: byte_at_def nth_append)
  have b1: "byte_at ?s mem (length a + 1) =
      (if 1 < n then utf8_of_unit u ! 1 else byte_at ?s mem (length a + 1))"
    using n by (simp add: byte_at_def nth_append)
  have b2: "byte_at ?s mem (length a + 2) =
      (if 2 < n then utf8_of_unit u ! 2 else byte_at ?s mem (length a + 2))"
    using n by (simp add: byte_at_def nth_append)
  have "utf8_form (byte_at ?s mem (length a)) (byte_at ?s mem (length a + 1))
     (byte_at ?s mem (length a + 2)) (byte_at ?s mem (length a + 3))
     (byte_at ?s mem (length a + 4)) (byte_at ?s mem (length a + 5)) = Some (u, n)"
    by (subst b0, subst b1, subst b2) (rule f)
  then show ?thesis using n by (subst utf8_loop.simps) simp
qed

lemma utf16_loop_ok:
  "\<forall>u \<in> set us. u \<noteq> 0 \<Longrightarrow> utf16_loop (us @ [0]) = Inr (concat (map utf8_of_unit us))"
  by (induction us) auto

lemma utf8_loop_units:
  "\<forall>u \<in> set us. u \<noteq> 0 \<Longrightarrow>
   utf8_loop (a @ concat (map utf8_of_unit us)) mem (length a) = (us, True)"
proof (induction us arbitrary: a)
  case Nil
  then show ?case by (subst utf8_loop.simps) simp
next
  case (Cons u us)
  have "utf8_loop ((a @ utf8_of_unit u) @ concat (map utf8_of_unit us)) mem
      (length (a @ utf8_of_unit u)) = (us, True)"
    using Cons.prems by (intro Cons.IH) simp
  moreover have "u \<noteq> 0" using Cons.prems by simp
  ultimately show ?case by (simp add: utf8_loop_unit)
qed

end
