(* ===== verification/Cmd_Target.thy ===== *)
theory Cmd_Target
  imports Converter
begin

text \<open>
  Message dispatch (src/cmd_target.h and src/cmd_target.cc): the message tables of a class and
  its bases, the lookup by name, the arity check, and the conversion of the text parameters to
  the argument types of the method.  A method pointer is a value of type \<open>'f\<close>; the outcome of
  dispatchMsg is the method called with its arguments, None when the switch falls into its
  default and no method is called, or the thrown message.  The conversion atof is a parameter,
  since doubles are an abstract type \<open>'d\<close>.
\<close>

datatype method_type =
    METHOD_END | METHOD_V | METHOD_B | METHOD_I | METHOD_D | METHOD_S | METHOD_II |
    METHOD_DD | METHOD_SS | METHOD_ID | METHOD_DI | METHOD_DS | METHOD_SD | METHOD_IS |
    METHOD_SI | METHOD_III | METHOD_DDD | METHOD_SSS | METHOD_IID | METHOD_IIS |
    METHOD_DDI | METHOD_DDS | METHOD_SSI | METHOD_SSD | METHOD_IDI | METHOD_IDD |
    METHOD_IDS | METHOD_ISI | METHOD_ISD | METHOD_ISS | METHOD_DII | METHOD_DID |
    METHOD_DIS | METHOD_DSI | METHOD_DSD | METHOD_DSS | METHOD_SII | METHOD_SID |
    METHOD_SIS | METHOD_SDI | METHOD_SDD | METHOD_SDS

text \<open>The enumerators in the order of the source, which numbers them from 0.\<close>
definition method_types :: "method_type list" where
  "method_types = [
    METHOD_END, METHOD_V, METHOD_B, METHOD_I, METHOD_D, METHOD_S, METHOD_II, METHOD_DD,
    METHOD_SS, METHOD_ID, METHOD_DI, METHOD_DS, METHOD_SD, METHOD_IS, METHOD_SI,
    METHOD_III, METHOD_DDD, METHOD_SSS, METHOD_IID, METHOD_IIS, METHOD_DDI, METHOD_DDS,
    METHOD_SSI, METHOD_SSD, METHOD_IDI, METHOD_IDD, METHOD_IDS, METHOD_ISI, METHOD_ISD,
    METHOD_ISS, METHOD_DII, METHOD_DID, METHOD_DIS, METHOD_DSI, METHOD_DSD, METHOD_DSS,
    METHOD_SII, METHOD_SID, METHOD_SIS, METHOD_SDI, METHOD_SDD, METHOD_SDS]"

fun index_of :: "'a \<Rightarrow> 'a list \<Rightarrow> nat" where
  "index_of x [] = 0"
| "index_of x (y # ys) = (if x = y then 0 else Suc (index_of x ys))"

definition method_code :: "method_type \<Rightarrow> int" where
  "method_code t = int (index_of t method_types)"

datatype kind = KB | KI | KD | KS

datatype 'd arg = ArgB bool | ArgI int | ArgD 'd | ArgS string

fun arg_kind :: "'d arg \<Rightarrow> kind" where
  "arg_kind (ArgB _) = KB"
| "arg_kind (ArgI _) = KI"
| "arg_kind (ArgD _) = KD"
| "arg_kind (ArgS _) = KS"

text \<open>The parameter types each enumerator stands for (the comments of the enumeration and the
  MSG_ENTITY constructors).\<close>
fun method_sig :: "method_type \<Rightarrow> kind list" where
  "method_sig METHOD_END = []"
| "method_sig METHOD_V = []"
| "method_sig METHOD_B = [KB]"
| "method_sig METHOD_I = [KI]"
| "method_sig METHOD_D = [KD]"
| "method_sig METHOD_S = [KS]"
| "method_sig METHOD_II = [KI, KI]"
| "method_sig METHOD_DD = [KD, KD]"
| "method_sig METHOD_SS = [KS, KS]"
| "method_sig METHOD_ID = [KI, KD]"
| "method_sig METHOD_DI = [KD, KI]"
| "method_sig METHOD_DS = [KD, KS]"
| "method_sig METHOD_SD = [KS, KD]"
| "method_sig METHOD_IS = [KI, KS]"
| "method_sig METHOD_SI = [KS, KI]"
| "method_sig METHOD_III = [KI, KI, KI]"
| "method_sig METHOD_DDD = [KD, KD, KD]"
| "method_sig METHOD_SSS = [KS, KS, KS]"
| "method_sig METHOD_IID = [KI, KI, KD]"
| "method_sig METHOD_IIS = [KI, KI, KS]"
| "method_sig METHOD_DDI = [KD, KD, KI]"
| "method_sig METHOD_DDS = [KD, KD, KS]"
| "method_sig METHOD_SSI = [KS, KS, KI]"
| "method_sig METHOD_SSD = [KS, KS, KD]"
| "method_sig METHOD_IDI = [KI, KD, KI]"
| "method_sig METHOD_IDD = [KI, KD, KD]"
| "method_sig METHOD_IDS = [KI, KD, KS]"
| "method_sig METHOD_ISI = [KI, KS, KI]"
| "method_sig METHOD_ISD = [KI, KS, KD]"
| "method_sig METHOD_ISS = [KI, KS, KS]"
| "method_sig METHOD_DII = [KD, KI, KI]"
| "method_sig METHOD_DID = [KD, KI, KD]"
| "method_sig METHOD_DIS = [KD, KI, KS]"
| "method_sig METHOD_DSI = [KD, KS, KI]"
| "method_sig METHOD_DSD = [KD, KS, KD]"
| "method_sig METHOD_DSS = [KD, KS, KS]"
| "method_sig METHOD_SII = [KS, KI, KI]"
| "method_sig METHOD_SID = [KS, KI, KD]"
| "method_sig METHOD_SIS = [KS, KI, KS]"
| "method_sig METHOD_SDI = [KS, KD, KI]"
| "method_sig METHOD_SDD = [KS, KD, KD]"
| "method_sig METHOD_SDS = [KS, KD, KS]"

record 'f msg_entity =
  m_msg :: string
  m_msgType :: method_type
  methodMap :: 'f

text \<open>The number of parameters dispatchMsg expects, None for its "not supported" branch.\<close>
definition paramNum :: "method_type \<Rightarrow> nat option" where
  "paramNum t =
     (if t \<in> {METHOD_B, METHOD_I, METHOD_D, METHOD_S} then Some 1
      else if t \<in> {
        METHOD_II, METHOD_DD, METHOD_SS, METHOD_ID, METHOD_IS, METHOD_DI, METHOD_DS,
        METHOD_SI, METHOD_SD} then Some 2
      else if t \<in> {
        METHOD_III, METHOD_DDD, METHOD_SSS, METHOD_IID, METHOD_IIS, METHOD_DDI,
        METHOD_DDS, METHOD_SSI, METHOD_SSD, METHOD_IDD, METHOD_ISS, METHOD_DII,
        METHOD_DSS, METHOD_SII, METHOD_SDD, METHOD_IDI, METHOD_IDS, METHOD_DID,
        METHOD_DIS, METHOD_SID, METHOD_SIS} then Some 3
      else None)"

text \<open>The switch: the types it handles and the conversion of each parameter.  The arity check
  before it makes every \<open>param[i]\<close> an element of the list.\<close>
definition call_args :: "(string \<Rightarrow> 'd) \<Rightarrow> method_type \<Rightarrow> string list \<Rightarrow> 'd arg list option" where
  "call_args atof t param =
     (let B = (\<lambda>i. ArgB (param ! i = ''true'' \<or> param ! i = ''1''));
          I = (\<lambda>i. ArgI (atoi (param ! i)));
          D = (\<lambda>i. ArgD (atof (param ! i)));
          S = (\<lambda>i. ArgS (param ! i))
      in case t of
           METHOD_B \<Rightarrow> Some [B 0]
         | METHOD_S \<Rightarrow> Some [S 0]
         | METHOD_I \<Rightarrow> Some [I 0]
         | METHOD_SI \<Rightarrow> Some [S 0, I 1]
         | METHOD_IS \<Rightarrow> Some [I 0, S 1]
         | METHOD_SS \<Rightarrow> Some [S 0, S 1]
         | METHOD_II \<Rightarrow> Some [I 0, I 1]
         | METHOD_SSS \<Rightarrow> Some [S 0, S 1, S 2]
         | METHOD_SSI \<Rightarrow> Some [S 0, S 1, I 2]
         | METHOD_SIS \<Rightarrow> Some [S 0, I 1, S 2]
         | METHOD_SDD \<Rightarrow> Some [S 0, D 1, D 2]
         | METHOD_SII \<Rightarrow> Some [S 0, I 1, I 2]
         | METHOD_DDD \<Rightarrow> Some [D 0, D 1, D 2]
         | METHOD_III \<Rightarrow> Some [I 0, I 1, I 2]
         | _ \<Rightarrow> None)"


text \<open>\<open>split\<close> of CmdTarget: unlike the Converter's it keeps an empty last field.\<close>
function cmd_split_loop :: "string \<Rightarrow> string \<Rightarrow> (string list \<times> string) res" where
  "cmd_split_loop pattern s =
     (case str_find s pattern of
        None \<Rightarrow> Inr ([], s)
      | Some pos \<Rightarrow>
          bindR (str_substr s 0 pos) (\<lambda>tmp.
          bindR (str_substr s (pos + 1) (length s - pos)) (\<lambda>rest.
          bindR (trim rest) (\<lambda>s'.
          mapR (\<lambda>(r, last). (tmp # r, last)) (cmd_split_loop pattern s')))))"
  by pat_completeness auto
termination
proof (relation "measure (\<lambda>(p, s). length s)", goal_cases)
  case (2 pattern s pos tmp rest s')
  from 2(3) have "pos + 1 \<le> length s" "length rest \<le> length s - (pos + 1)"
    by (auto simp: str_substr_def split: if_splits)
  moreover have "length s' \<le> length rest" using 2(4) by (rule trim_length)
  ultimately show ?case by simp
qed simp

declare cmd_split_loop.simps [simp del]

definition cmd_trim :: "string \<Rightarrow> string res" where
  "cmd_trim s = (if s = [] then Inr [] else trim_back (trim_front s))"

definition cmd_split :: "string \<Rightarrow> string \<Rightarrow> string list res" where
  "cmd_split str pattern =
     bindR (cmd_trim str) (\<lambda>s0.
     mapR (\<lambda>(r, s). if s \<noteq> [] \<or> (s = [] \<and> str \<noteq> []) then r @ [s] else r)
          (cmd_split_loop pattern s0))"

text \<open>The scan of one table, which ends at the entry with an empty name.\<close>
fun find_entity :: "'f msg_entity list \<Rightarrow> string \<Rightarrow> 'f msg_entity option res" where
  "find_entity [] msgName = Inl Undefined"
| "find_entity (e # es) msgName =
     (if m_msg e = [] then Inr None
      else if m_msg e = msgName then Inr (Some e)
      else find_entity es msgName)"

definition dispatch_entity ::
  "(string \<Rightarrow> 'd) \<Rightarrow> 'f msg_entity \<Rightarrow> string \<Rightarrow> string \<Rightarrow> ('f \<times> 'd arg list) option res" where
  "dispatch_entity atof e msgName params =
     (case paramNum (m_msgType e) of
        None \<Rightarrow> Inl (Throw (''Message dispach failed, msg type not supported! method name: '' @
                  msgName @ '', type: '' @ convertToString (method_code (m_msgType e))))
      | Some n \<Rightarrow>
          bindR (cmd_split params '','') (\<lambda>param.
          if length param \<noteq> n then
            Inl (Throw (''Message dispach failed, param num error! method name: '' @ msgName @
                 '', param: '' @ params))
          else Inr (map_option (\<lambda>args. (methodMap e, args)) (call_args atof (m_msgType e) param))))"

text \<open>\<open>getMsgMap()\<close> is the chain of tables from the class to its bases.\<close>
fun dispatchMsg ::
  "(string \<Rightarrow> 'd) \<Rightarrow> 'f msg_entity list list \<Rightarrow> string \<Rightarrow> string \<Rightarrow> string \<Rightarrow>
     ('f \<times> 'd arg list) option res" where
  "dispatchMsg atof [] fullName msgName params =
     Inl (Throw (fullName @ '': dispatchMsg failed, method name '' @ [CHR 34] @ msgName @ [CHR 34]
            @ '' not found!''))"
| "dispatchMsg atof (table # bases) fullName msgName params =
     bindR (find_entity table msgName) (\<lambda>found.
     case found of
       Some e \<Rightarrow> dispatch_entity atof e msgName params
     | None \<Rightarrow> dispatchMsg atof bases fullName msgName params)"

section \<open>Splitting parameter lists\<close>

definition cmd_fields :: "char \<Rightarrow> string list \<Rightarrow> bool" where
  "cmd_fields c fs =
     (join c fs \<noteq> [] \<and> c \<noteq> CHR '' '' \<and> (last fs = [] \<or> last (last fs) \<noteq> CHR '' '') \<and>
      (\<forall>f \<in> set fs. c \<notin> set f \<and> (f = [] \<or> hd f \<noteq> CHR '' '')))"

lemma trim_join_gen:
  assumes "fs \<noteq> []" "c \<noteq> CHR '' ''" "last fs = [] \<or> last (last fs) \<noteq> CHR '' ''"
    and "\<forall>f \<in> set fs. f = [] \<or> hd f \<noteq> CHR '' ''"
  shows "\<not> untrimmed (join c fs)"
  using assms
proof (induction fs rule: induct_list012)
  case (3 f g fs)
  then have "\<not> untrimmed (join c (g # fs))" by simp
  then have "join c (g # fs) = [] \<or> last (join c (g # fs)) \<noteq> CHR '' ''"
    by (auto simp: untrimmed_def)
  then have "last (f @ c # join c (g # fs)) \<noteq> CHR '' ''" using "3.prems"(2) by auto
  moreover have "hd (f @ c # join c (g # fs)) \<noteq> CHR '' ''"
    using "3.prems"(2,4) by (cases f) auto
  ultimately show ?case by (simp add: untrimmed_def)
qed (auto simp: untrimmed_def)

lemma cmd_split_loop_join:
  "fs \<noteq> [] \<Longrightarrow> c \<noteq> CHR '' '' \<Longrightarrow> last fs = [] \<or> last (last fs) \<noteq> CHR '' '' \<Longrightarrow>
   \<forall>f \<in> set fs. c \<notin> set f \<and> (f = [] \<or> hd f \<noteq> CHR '' '') \<Longrightarrow>
   cmd_split_loop [c] (join c fs) = Inr (butlast fs, last fs)"
proof (induction fs rule: induct_list012)
  case (2 f)
  then have "str_find f [c] = None" by (simp add: str_simps)
  then show ?case by (simp add: cmd_split_loop.simps [of "[c]" f])
next
  case (3 f g fs)
  let ?r = "join c (g # fs)"
  have tr: "trim ?r = Inr ?r"
    by (rule trim_id, rule trim_join_gen) (use "3.prems" in auto)
  have "cmd_split_loop [c] (f @ c # ?r) =
      mapR (\<lambda>(r, l). (f # r, l)) (cmd_split_loop [c] ?r)"
    using "3.prems" tr by (subst cmd_split_loop.simps) (simp add: str_find_single str_substr_def)
  then show ?case using "3.IH"(2) "3.prems" by simp
qed simp

lemma cmd_split_join: "cmd_fields c fs \<Longrightarrow> cmd_split (join c fs) [c] = Inr fs"
proof -
  assume a: "cmd_fields c fs"
  then have ne: "fs \<noteq> []" by (auto simp: cmd_fields_def)
  with a have "trim (join c fs) = Inr (join c fs)"
    by (intro trim_id trim_join_gen) (auto simp: cmd_fields_def)
  moreover have "cmd_split_loop [c] (join c fs) = Inr (butlast fs, last fs)"
    using a ne by (intro cmd_split_loop_join) (auto simp: cmd_fields_def)
  ultimately show ?thesis using a ne
    by (simp add: cmd_split_def cmd_trim_def trim_def cmd_fields_def split: if_splits)
qed

section \<open>Dispatch\<close>

lemma find_entity_Some: "find_entity es n = Inr (Some e) \<Longrightarrow> e \<in> set es \<and> m_msg e = n \<and> n \<noteq> []"
  by (induction es) (auto split: if_splits)

lemma call_args_kinds:
  "call_args atof t ps = Some args \<Longrightarrow> map arg_kind args = method_sig t"
  by (cases t) (auto simp: call_args_def Let_def)

lemma paramNum_sig: "paramNum t = Some n \<Longrightarrow> n = length (method_sig t)"
  by (cases t) (auto simp: paramNum_def)

lemma dispatchMsg_cases:
  "dispatchMsg atof tables fullName n ps = Inr r \<Longrightarrow>
   \<exists>table \<in> set tables. \<exists>e \<in> set table. m_msg e = n \<and> dispatch_entity atof e n ps = Inr r"
proof (induction tables)
  case (Cons table tables)
  then obtain found where f: "find_entity table n = Inr found"
    by (auto simp: res_simps)
  show ?case
  proof (cases found)
    case None
    with Cons f show ?thesis by auto
  next
    case (Some e)
    with Cons.prems f find_entity_Some show ?thesis by fastforce
  qed
qed simp

text \<open>A value that is one parameter.\<close>
definition plain_value :: "string \<Rightarrow> bool" where
  "plain_value s = (s \<noteq> [] \<and> CHR '','' \<notin> set s \<and> \<not> untrimmed s)"

lemma plain_split: "plain_value s \<Longrightarrow> cmd_split s '','' = Inr [s]"
  using cmd_split_join [of "CHR '',''" "[s]"] by (auto simp: plain_value_def cmd_fields_def untrimmed_def)

lemma plain_number: "plain_value (show_int v)"
proof -
  have "hd (show_int v) \<noteq> CHR '' ''" "last (show_int v) \<noteq> CHR '' ''"
    using show_int_free(4) [of v] hd_in_set [OF show_int_not_Nil [of v]] last_in_set [OF show_int_not_Nil [of v]]
    by metis+
  moreover have "CHR '','' \<notin> set (show_int v)" using show_int_chars [of "CHR '',''" v] by (auto simp: is_digit_def)
  ultimately show ?thesis by (simp add: plain_value_def untrimmed_def)
qed

end
