(* ===== verification/Escape.thy ===== *)
theory Escape
  imports Converter
begin

text \<open>
  The escaping of field data on the wire: encodeData and decodeData of
  src/ick_storm_subscriber_socket.cc (the colon) and of src/ick_storm_service_socket.cc (colon
  and comma), and decodeParam of src/control_object.cc, which reads what the service socket
  wrote.  The decoders are translated with their index and their guard
  \<open>i < data.length() - 2\<close>, a comparison of unsigned 64-bit values that wraps on a text of
  fewer than two characters.  The locale \<open>wire_codec\<close> is the contract both pairs meet.
\<close>

section \<open>Encoders\<close>

fun encode_colon :: "string \<Rightarrow> string" where
  "encode_colon [] = []"
| "encode_colon (c # cs) = (if c = CHR '':'' then ''%3A'' else [c]) @ encode_colon cs"

fun encode_param :: "string \<Rightarrow> string" where
  "encode_param [] = []"
| "encode_param (c # cs) =
     (if c = CHR '':'' then ''%3A'' else if c = CHR '','' then ''%2C'' else [c]) @ encode_param cs"

section \<open>Decoders\<close>

text \<open>The test \<open>i < data.length() - 2 && data.at(i) == '%' && data.at(i+1) == a && data.at(i+2) == b\<close>
  with its short circuits; \<open>at\<close> throws past the end.\<close>
definition escape_at :: "string \<Rightarrow> nat \<Rightarrow> char \<Rightarrow> char \<Rightarrow> bool res" where
  "escape_at data i a b =
     (if int i < (int (length data) - 2) mod 2 ^ 64 then
        bindR (str_at data i) (\<lambda>c0.
        if c0 \<noteq> CHR ''%'' then Inr False
        else bindR (str_at data (i + 1)) (\<lambda>c1.
             if c1 \<noteq> a then Inr False
             else bindR (str_at data (i + 2)) (\<lambda>c2. Inr (c2 = b))))
      else Inr False)"

function decode_colon_loop :: "string \<Rightarrow> nat \<Rightarrow> string res" where
  "decode_colon_loop data i =
     (if i < length data then
        bindR (escape_at data i (CHR ''3'') (CHR ''A'')) (\<lambda>colon.
        if colon then mapR ((#) (CHR '':'')) (decode_colon_loop data (i + 3))
        else bindR (str_at data i) (\<lambda>c. mapR ((#) c) (decode_colon_loop data (i + 1))))
      else Inr [])"
  by pat_completeness auto
termination by (relation "measure (\<lambda>(d, i). length d - i)") auto

definition decode_colon :: "string \<Rightarrow> string res" where
  "decode_colon data = decode_colon_loop data 0"

function decode_param_loop :: "string \<Rightarrow> nat \<Rightarrow> string res" where
  "decode_param_loop data i =
     (if i < length data then
        bindR (escape_at data i (CHR ''3'') (CHR ''A'')) (\<lambda>colon.
        if colon then mapR ((#) (CHR '':'')) (decode_param_loop data (i + 3))
        else bindR (escape_at data i (CHR ''2'') (CHR ''C'')) (\<lambda>comma.
             if comma then mapR ((#) (CHR '','')) (decode_param_loop data (i + 3))
             else bindR (str_at data i) (\<lambda>c. mapR ((#) c) (decode_param_loop data (i + 1)))))
      else Inr [])"
  by pat_completeness auto
termination by (relation "measure (\<lambda>(d, i). length d - i)") auto

definition decode_param :: "string \<Rightarrow> string res" where
  "decode_param data = decode_param_loop data 0"

text \<open>decodeParam of src/control_object.cc repeats the loop of the service socket.\<close>
definition decodeParam :: "string \<Rightarrow> string res" where
  "decodeParam data = decode_param_loop data 0"

declare decode_colon_loop.simps [simp del] decode_param_loop.simps [simp del]

section \<open>What the decoders compute\<close>

fun unescape_colon :: "string \<Rightarrow> string" where
  "unescape_colon [] = []"
| "unescape_colon (c # cs) =
     (if take 3 (c # cs) = ''%3A'' then CHR '':'' # unescape_colon (drop 2 cs)
      else c # unescape_colon cs)"

fun unescape_param :: "string \<Rightarrow> string" where
  "unescape_param [] = []"
| "unescape_param (c # cs) =
     (if take 3 (c # cs) = ''%3A'' then CHR '':'' # unescape_param (drop 2 cs)
      else if take 3 (c # cs) = ''%2C'' then CHR '','' # unescape_param (drop 2 cs)
      else c # unescape_param cs)"

definition short_text :: "string \<Rightarrow> bool" where
  "short_text s = (length s < 2 ^ 63)"

lemma take_3_nth:
  "i < length d \<Longrightarrow> take 3 (drop i d) = [x, y, z] \<longleftrightarrow>
     i + 2 < length d \<and> d ! i = x \<and> d ! (i + 1) = y \<and> d ! (i + 2) = z"
proof -
  assume i: "i < length d"
  show ?thesis
  proof (cases "i + 2 < length d")
    case True
    then have "drop i d = d ! i # d ! (i + 1) # d ! (i + 2) # drop (i + 3) d"
      by (simp add: Cons_nth_drop_Suc numeral_eq_Suc)
    then show ?thesis using True by simp
  next
    case False
    then have "length (take 3 (drop i d)) \<noteq> length [x, y, z]" by simp
    then have "take 3 (drop i d) \<noteq> [x, y, z]" by metis
    with False show ?thesis by blast
  qed
qed

lemma escape_at_eq:
  assumes "2 \<le> length data" "short_text data" "i < length data"
  shows "escape_at data i a b = Inr (take 3 (drop i data) = [CHR ''%'', a, b])"
proof -
  have m: "(int (length data) - 2) mod 2 ^ 64 = int (length data) - 2"
    using assms by (intro mod_pos_pos_trivial) (auto simp: short_text_def)
  then have g: "int i < (int (length data) - 2) mod 2 ^ 64 \<longleftrightarrow> i + 2 < length data"
    using assms by auto
  show ?thesis
    unfolding escape_at_def g take_3_nth [OF assms(3)] str_at_def by auto
qed

lemma unescape_colon_step:
  "i < length d \<Longrightarrow> unescape_colon (drop i d) =
     (if take 3 (drop i d) = ''%3A'' then CHR '':'' # unescape_colon (drop (i + 3) d)
      else d ! i # unescape_colon (drop (i + 1) d))"
  by (simp add: Cons_nth_drop_Suc [symmetric] drop_drop numeral_eq_Suc)

lemma unescape_param_step:
  "i < length d \<Longrightarrow> unescape_param (drop i d) =
     (if take 3 (drop i d) = ''%3A'' then CHR '':'' # unescape_param (drop (i + 3) d)
      else if take 3 (drop i d) = ''%2C'' then CHR '','' # unescape_param (drop (i + 3) d)
      else d ! i # unescape_param (drop (i + 1) d))"
  by (simp add: Cons_nth_drop_Suc [symmetric] drop_drop numeral_eq_Suc)

lemma decode_colon_loop_eq:
  "2 \<le> length data \<Longrightarrow> short_text data \<Longrightarrow>
   decode_colon_loop data i = Inr (unescape_colon (drop i data))"
proof (induction data i rule: decode_colon_loop.induct)
  case (1 data i)
  show ?case
  proof (cases "i < length data")
    case True
    note e = escape_at_eq [OF "1.prems" True]
    show ?thesis using "1.IH" [OF True e] "1.prems" True
      by (subst decode_colon_loop.simps) (simp add: e unescape_colon_step str_at_def)
  qed (simp add: decode_colon_loop.simps)
qed

lemma decode_param_loop_eq:
  "2 \<le> length data \<Longrightarrow> short_text data \<Longrightarrow>
   decode_param_loop data i = Inr (unescape_param (drop i data))"
proof (induction data i rule: decode_param_loop.induct)
  case (1 data i)
  show ?case
  proof (cases "i < length data")
    case True
    note e = escape_at_eq [OF "1.prems" True]
    show ?thesis using "1.IH" [OF True e] "1.prems" True
      by (subst decode_param_loop.simps) (simp add: e unescape_param_step str_at_def)
  qed (simp add: decode_param_loop.simps)
qed

lemma escape_at_single:
  "escape_at [c] 0 a b = (if c = CHR ''%'' then Inl Out_Of_Range else Inr False)"
  by (simp add: escape_at_def str_at_def)

lemma decode_colon_single:
  "decode_colon [c] = (if c = CHR ''%'' then Inl Out_Of_Range else Inr [c])"
  by (simp add: decode_colon_def decode_colon_loop.simps [of "[c]"] escape_at_single str_at_def)

lemma decode_param_single:
  "decode_param [c] = (if c = CHR ''%'' then Inl Out_Of_Range else Inr [c])"
  by (simp add: decode_param_def decode_param_loop.simps [of "[c]"] escape_at_single str_at_def)

lemma decode_colon_eq:
  "short_text s \<Longrightarrow> decode_colon s =
     (if s = ''%'' then Inl Out_Of_Range else Inr (unescape_colon s))"
proof -
  assume s: "short_text s"
  consider "s = []" | c where "s = [c]" | "2 \<le> length s"
    by (cases s rule: remdups_adj.cases) auto
  then show ?thesis
  proof cases
    case 1
    then show ?thesis by (simp add: decode_colon_def decode_colon_loop.simps)
  next
    case (2 c)
    then show ?thesis by (simp add: decode_colon_single)
  next
    case 3
    then have "s \<noteq> ''%''" by auto
    with 3 s show ?thesis by (simp add: decode_colon_def decode_colon_loop_eq)
  qed
qed

lemma decode_param_eq:
  "short_text s \<Longrightarrow> decode_param s =
     (if s = ''%'' then Inl Out_Of_Range else Inr (unescape_param s))"
proof -
  assume s: "short_text s"
  consider "s = []" | c where "s = [c]" | "2 \<le> length s"
    by (cases s rule: remdups_adj.cases) auto
  then show ?thesis
  proof cases
    case 1
    then show ?thesis by (simp add: decode_param_def decode_param_loop.simps)
  next
    case (2 c)
    then show ?thesis by (simp add: decode_param_single)
  next
    case 3
    then have "s \<noteq> ''%''" by auto
    with 3 s show ?thesis by (simp add: decode_param_def decode_param_loop_eq)
  qed
qed

section \<open>Round trips\<close>

text \<open>The texts the escaping is transparent on: those without an escape sequence of their own
  (the percent sign itself is not escaped) and not the lone percent sign.\<close>
fun no_seq :: "string list \<Rightarrow> string \<Rightarrow> bool" where
  "no_seq ps [] = True"
| "no_seq ps (c # cs) = (take 3 (c # cs) \<notin> set ps \<and> no_seq ps cs)"

definition colon_safe :: "string \<Rightarrow> bool" where
  "colon_safe s = (no_seq [''%3A''] s \<and> s \<noteq> ''%'' \<and> length s < 2 ^ 61)"

definition param_safe :: "string \<Rightarrow> bool" where
  "param_safe s = (no_seq [''%3A'', ''%2C''] s \<and> s \<noteq> ''%'' \<and> length s < 2 ^ 61)"

lemma take2_encode_colon:
  "take 2 (encode_colon cs) = [x, y] \<Longrightarrow> x \<noteq> CHR ''%'' \<Longrightarrow> y \<noteq> CHR ''%'' \<Longrightarrow> take 2 cs = [x, y]"
  by (cases cs; cases "tl cs") (auto split: if_splits)

lemma take2_encode_param:
  "take 2 (encode_param cs) = [x, y] \<Longrightarrow> x \<noteq> CHR ''%'' \<Longrightarrow> y \<noteq> CHR ''%'' \<Longrightarrow> take 2 cs = [x, y]"
  by (cases cs; cases "tl cs") (auto split: if_splits)

lemma unescape_encode_colon: "no_seq [''%3A''] s \<Longrightarrow> unescape_colon (encode_colon s) = s"
proof (induction s)
  case (Cons c cs)
  show ?case
  proof (cases "c = CHR '':''")
    case False
    have "\<not> (c = CHR ''%'' \<and> take 2 (encode_colon cs) = ''3A'')"
      using Cons.prems take2_encode_colon [of cs "CHR ''3''" "CHR ''A''"]
      by (auto simp: numeral_eq_Suc)
    then show ?thesis using Cons False by (auto simp: numeral_eq_Suc)
  qed (use Cons in simp)
qed simp

lemma unescape_encode_param:
  "no_seq [''%3A'', ''%2C''] s \<Longrightarrow> unescape_param (encode_param s) = s"
proof (induction s)
  case (Cons c cs)
  show ?case
  proof (cases "c = CHR '':'' \<or> c = CHR '',''")
    case True
    then show ?thesis using Cons by auto
  next
    case False
    have "\<not> (c = CHR ''%'' \<and> take 2 (encode_param cs) = ''3A'')"
         "\<not> (c = CHR ''%'' \<and> take 2 (encode_param cs) = ''2C'')"
      using Cons.prems take2_encode_param [of cs "CHR ''3''" "CHR ''A''"]
        take2_encode_param [of cs "CHR ''2''" "CHR ''C''"]
      by (auto simp: numeral_eq_Suc)
    then show ?thesis using Cons False by (auto simp: numeral_eq_Suc)
  qed
qed simp

lemma length_encode_colon: "length (encode_colon s) \<le> 3 * length s"
  by (induction s) auto

lemma length_encode_param: "length (encode_param s) \<le> 3 * length s"
  by (induction s) auto

lemma encode_colon_lone: "encode_colon s = ''%'' \<longleftrightarrow> s = ''%''"
  by (cases s; cases "tl s") (auto split: if_splits)

lemma encode_param_lone: "encode_param s = ''%'' \<longleftrightarrow> s = ''%''"
  by (cases s; cases "tl s") (auto split: if_splits)

lemma decode_encode_colon: "colon_safe s \<Longrightarrow> decode_colon (encode_colon s) = Inr s"
  using length_encode_colon [of s]
  by (simp add: colon_safe_def decode_colon_eq short_text_def encode_colon_lone unescape_encode_colon)

lemma decode_encode_param: "param_safe s \<Longrightarrow> decode_param (encode_param s) = Inr s"
  using length_encode_param [of s]
  by (simp add: param_safe_def decode_param_eq short_text_def encode_param_lone unescape_encode_param)

lemma encode_colon_free: "CHR '':'' \<notin> set (encode_colon s)"
  by (induction s) auto

lemma encode_param_free: "CHR '':'' \<notin> set (encode_param s)" "CHR '','' \<notin> set (encode_param s)"
  by (induction s) auto

lemma encode_keeps:
  "c \<notin> set ''%3A2C'' \<Longrightarrow> c \<in> set (encode_colon s) \<Longrightarrow> c \<in> set s"
  "c \<notin> set ''%3A2C'' \<Longrightarrow> c \<in> set (encode_param s) \<Longrightarrow> c \<in> set s"
  by (induction s) (auto split: if_splits)

lemma encode_hd_last:
  "s \<noteq> [] \<Longrightarrow> encode_param s \<noteq> [] \<and> (hd (encode_param s) = CHR '' '' \<longleftrightarrow> hd s = CHR '' '')
      \<and> (last (encode_param s) = CHR '' '' \<longleftrightarrow> last s = CHR '' '')"
  by (induction s) auto

lemma encode_colon_hd_last:
  "s \<noteq> [] \<Longrightarrow> encode_colon s \<noteq> [] \<and> (hd (encode_colon s) = CHR '' '' \<longleftrightarrow> hd s = CHR '' '')
      \<and> (last (encode_colon s) = CHR '' '' \<longleftrightarrow> last s = CHR '' '')"
  by (induction s) auto

lemma no_seq_free: "CHR ''%'' \<notin> set s \<Longrightarrow> no_seq [''%3A''] s"
  by (induction s) auto

lemma colon_safe_free: "CHR ''%'' \<notin> set s \<Longrightarrow> length s < 2 ^ 61 \<Longrightarrow> colon_safe s"
  by (auto simp: colon_safe_def no_seq_free)

lemma encode_colon_id: "CHR '':'' \<notin> set s \<Longrightarrow> encode_colon s = s"
  by (induction s) auto

lemma decode_colon_id:
  "CHR ''%'' \<notin> set s \<Longrightarrow> CHR '':'' \<notin> set s \<Longrightarrow> length s < 2 ^ 61 \<Longrightarrow> decode_colon s = Inr s"
  using decode_encode_colon [of s] by (simp add: encode_colon_id colon_safe_free)

lemma decode_show_int: "int32 v \<Longrightarrow> decode_colon (show_int v) = Inr (show_int v)"
  by (rule decode_colon_id [OF show_int_free(5,1) length_show_int])

section \<open>The contract\<close>

locale wire_codec =
  fixes enc :: "string \<Rightarrow> string"
    and dec :: "string \<Rightarrow> string res"
    and safe :: "string \<Rightarrow> bool"
    and sep :: char
  assumes dec_enc: "safe s \<Longrightarrow> dec (enc s) = Inr s"
    and enc_free: "sep \<notin> set (enc s)"
    and enc_Nil: "enc [] = []"
    and enc_blank: "s \<noteq> [] \<Longrightarrow> enc s \<noteq> [] \<and> (hd (enc s) = CHR '' '' \<longleftrightarrow> hd s = CHR '' '')
           \<and> (last (enc s) = CHR '' '' \<longleftrightarrow> last s = CHR '' '')"
    and sep_visible: "sep \<noteq> CHR '' ''"
begin

fun dec_all :: "string list \<Rightarrow> string list res" where
  "dec_all [] = Inr []"
| "dec_all (f # fs) = bindR (dec f) (\<lambda>x. mapR ((#) x) (dec_all fs))"

lemma dec_all_enc: "\<forall>f \<in> set fs. safe f \<Longrightarrow> dec_all (map enc fs) = Inr fs"
  by (induction fs) (auto simp: dec_enc)

text \<open>Encoded fields joined by the separator are fields split gives back.\<close>
lemma fields_split:
  assumes "fs \<noteq> []" "last fs \<noteq> []" "last (last fs) \<noteq> CHR '' ''"
    and "\<forall>f \<in> set fs. f = [] \<or> hd f \<noteq> CHR '' ''"
  shows "split (join sep (map enc fs)) [sep] = Inr (map enc fs)"
proof (rule split_join)
  show "split_fields sep (map enc fs)"
    unfolding split_fields_def
  proof (intro conjI ballI)
    show "last (map enc fs) \<noteq> []" "last (last (map enc fs)) \<noteq> CHR '' ''"
      using assms(1-3) enc_blank [of "last fs"] by (simp_all add: last_map)
  next
    fix f
    assume "f \<in> set (map enc fs)"
    then obtain g where g: "g \<in> set fs" "f = enc g" by auto
    show "sep \<notin> set f" using g(2) enc_free by simp
    show "f = [] \<or> hd f \<noteq> CHR '' ''"
      using g assms(4) enc_blank [of g] enc_Nil by (cases "g = []") auto
  qed (use assms(1) sep_visible in simp_all)
qed

lemma fields_round_trip:
  assumes "fs \<noteq> []" "last fs \<noteq> []" "last (last fs) \<noteq> CHR '' ''"
    and "\<forall>f \<in> set fs. (f = [] \<or> hd f \<noteq> CHR '' '') \<and> safe f"
  shows "bindR (split (join sep (map enc fs)) [sep]) dec_all = Inr fs"
  using assms fields_split dec_all_enc by simp

lemma enc_inj: "safe s \<Longrightarrow> safe t \<Longrightarrow> enc s = enc t \<Longrightarrow> s = t"
  by (metis dec_enc Inr_inject)

end

interpretation colon_wire: wire_codec encode_colon decode_colon colon_safe "CHR '':''"
  by unfold_locales (auto simp: decode_encode_colon encode_colon_free encode_colon_hd_last)

interpretation param_wire: wire_codec encode_param decode_param param_safe "CHR '',''"
  by unfold_locales (auto simp: decode_encode_param encode_param_free encode_hd_last)

interpretation param_colon: wire_codec encode_param decode_param param_safe "CHR '':''"
  by unfold_locales (auto simp: decode_encode_param encode_param_free encode_hd_last)

end
