(* ===== verification/Std_Map.thy ===== *)
theory Std_Map
  imports Ick_Prelude
begin

text \<open>
  std::map as the sources use it: an association list in increasing key order, so that the
  iteration order of the program's loops is the order of the list.  \<open>om_insert\<close> is
  \<open>map::insert\<close> (an entry that exists is kept), \<open>om_put\<close> the assignment through
  \<open>operator[]\<close>, \<open>om_find\<close> is \<open>map::find\<close> and \<open>om_erase\<close> is \<open>map::erase\<close> by key.
  The locale \<open>std_map\<close> states what the components rely on; its interpretation discharges
  the laws for this model.
\<close>

type_synonym ('k, 'v) omap = "('k \<times> 'v) list"

named_theorems map_simps \<open>lookup laws of the ordered map\<close>

definition om_ok :: "('k :: linorder, 'v) omap \<Rightarrow> bool" where
  "om_ok m = sorted_wrt (<) (map fst m)"

definition om_find :: "('k, 'v) omap \<Rightarrow> 'k \<Rightarrow> 'v option" where
  "om_find m k = map_of m k"

definition om_has :: "('k, 'v) omap \<Rightarrow> 'k \<Rightarrow> bool" where
  "om_has m k = (om_find m k \<noteq> None)"

fun om_put :: "'k :: linorder \<Rightarrow> 'v \<Rightarrow> ('k, 'v) omap \<Rightarrow> ('k, 'v) omap" where
  "om_put k v [] = [(k, v)]"
| "om_put k v ((k', v') # m) =
     (if k < k' then (k, v) # (k', v') # m
      else if k = k' then (k, v) # m
      else (k', v') # om_put k v m)"

definition om_insert :: "'k :: linorder \<Rightarrow> 'v \<Rightarrow> ('k, 'v) omap \<Rightarrow> ('k, 'v) omap" where
  "om_insert k v m = (if om_has m k then m else om_put k v m)"

definition om_erase :: "'k \<Rightarrow> ('k, 'v) omap \<Rightarrow> ('k, 'v) omap" where
  "om_erase k m = filter (\<lambda>e. fst e \<noteq> k) m"

lemma om_find_Nil [map_simps, simp]: "om_find [] k = None"
  by (simp add: om_find_def)

lemma om_has_iff: "om_has m k \<longleftrightarrow> k \<in> fst ` set m"
  by (simp add: om_has_def om_find_def map_of_eq_None_iff)

lemma om_find_put [map_simps]:
  "om_ok m \<Longrightarrow> om_find (om_put k v m) j = (if j = k then Some v else om_find m j)"
proof (induction m)
  case (Cons e m)
  have "\<And>x. x \<in> fst ` set m \<Longrightarrow> fst e < x"
    using Cons.prems by (auto simp: om_ok_def)
  moreover have "om_ok m" using Cons.prems by (simp add: om_ok_def)
  ultimately show ?case using Cons.IH
    by (cases e) (auto simp: om_find_def)
qed (simp add: om_find_def)

lemma set_om_put: "set (map fst (om_put k v m)) = insert k (set (map fst m))"
  by (induction k v m rule: om_put.induct) auto

lemma om_ok_put [map_simps]: "om_ok m \<Longrightarrow> om_ok (om_put k v m)"
proof (induction m)
  case (Cons e m)
  obtain k' v' where e: "e = (k', v')" by force
  have gt: "\<And>x. x \<in> set (map fst m) \<Longrightarrow> k' < x" and ok: "om_ok m"
    using Cons.prems e by (auto simp: om_ok_def)
  show ?case
  proof (cases "k < k'")
    case True
    then show ?thesis using Cons.prems e gt by (auto simp: om_ok_def intro: less_trans)
  next
    case nl: False
    show ?thesis
    proof (cases "k = k'")
      case True
      then show ?thesis using Cons.prems e by (simp add: om_ok_def)
    next
      case False
      with nl have lt: "k' < k" by simp
      have "\<And>x. x \<in> set (map fst (om_put k v m)) \<Longrightarrow> k' < x"
        using set_om_put [of k v m] gt lt by auto
      then show ?thesis using Cons.IH [OF ok] e nl False by (auto simp: om_ok_def)
    qed
  qed
qed (simp add: om_ok_def)

lemma om_ok_Nil [simp]: "om_ok []"
  by (simp add: om_ok_def)

lemma om_ok_insert [map_simps]: "om_ok m \<Longrightarrow> om_ok (om_insert k v m)"
  by (simp add: om_insert_def om_ok_put)

lemma om_find_insert [map_simps]:
  "om_ok m \<Longrightarrow> om_find (om_insert k v m) j =
     (if j = k \<and> om_find m k = None then Some v else om_find m j)"
  by (auto simp: om_insert_def om_find_put om_has_def)

lemma om_find_erase [map_simps]:
  "om_find (om_erase k m) j = (if j = k then None else om_find m j)"
  by (induction m) (auto simp: om_find_def om_erase_def)

lemma om_ok_erase [map_simps]: "om_ok m \<Longrightarrow> om_ok (om_erase k m)"
  unfolding om_ok_def om_erase_def
  by (induction m) auto

lemma om_ok_distinct: "om_ok m \<Longrightarrow> distinct (map fst m)"
  unfolding om_ok_def by (metis strict_sorted_iff)

lemma om_find_in_set: "om_ok m \<Longrightarrow> om_find m k = Some v \<longleftrightarrow> (k, v) \<in> set m"
  by (simp add: om_find_def om_ok_distinct)

lemma set_om_put_pairs:
  "om_ok m \<Longrightarrow> set (om_put k v m) = insert (k, v) {e \<in> set m. fst e \<noteq> k}"
proof -
  assume ok: "om_ok m"
  have "\<And>a b. (a, b) \<in> set (om_put k v m) \<longleftrightarrow> (a, b) \<in> insert (k, v) {e \<in> set m. fst e \<noteq> k}"
    using om_find_in_set [OF om_ok_put [OF ok]] om_find_put [OF ok] om_find_in_set [OF ok]
    by (metis (mono_tags, lifting) fst_conv insert_iff mem_Collect_eq option.inject prod.inject)
  then show ?thesis by auto
qed

lemma set_om_insert_pairs:
  "om_ok m \<Longrightarrow> set (om_insert k v m) = (if om_has m k then set m else insert (k, v) (set m))"
  by (auto simp: om_insert_def set_om_put_pairs om_has_iff image_iff)

section \<open>The interface the components use\<close>

locale std_map =
  fixes find :: "'m \<Rightarrow> 'k \<Rightarrow> 'v option"
    and insert_new :: "'k \<Rightarrow> 'v \<Rightarrow> 'm \<Rightarrow> 'm"
    and put :: "'k \<Rightarrow> 'v \<Rightarrow> 'm \<Rightarrow> 'm"
    and erase :: "'k \<Rightarrow> 'm \<Rightarrow> 'm"
    and empty_map :: "'m"
    and ok :: "'m \<Rightarrow> bool"
  assumes ok_empty: "ok empty_map"
    and ok_put: "ok m \<Longrightarrow> ok (put k v m)"
    and ok_insert: "ok m \<Longrightarrow> ok (insert_new k v m)"
    and ok_erase: "ok m \<Longrightarrow> ok (erase k m)"
    and find_empty: "find empty_map k = None"
    and find_put: "ok m \<Longrightarrow> find (put k v m) j = (if j = k then Some v else find m j)"
    and find_insert: "ok m \<Longrightarrow> find (insert_new k v m) j =
           (if j = k \<and> find m k = None then Some v else find m j)"
    and find_erase: "ok m \<Longrightarrow> find (erase k m) j = (if j = k then None else find m j)"
begin

lemma put_all_ok: "ok m \<Longrightarrow> ok (fold (\<lambda>(k, v). put k v) kvs m)"
  by (induction kvs arbitrary: m) (auto simp: ok_put)

text \<open>A sequence of assignments behaves as the last assignment to the key.\<close>
lemma put_all_find:
  "ok m \<Longrightarrow> find (fold (\<lambda>(k, v). put k v) kvs m) j =
     (case map_of (rev kvs) j of None \<Rightarrow> find m j | Some v \<Rightarrow> Some v)"
proof (induction kvs arbitrary: m)
  case (Cons kv kvs)
  obtain k v where kv: "kv = (k, v)" by force
  have "ok (put k v m)" using Cons.prems by (rule ok_put)
  from Cons.IH [OF this] show ?case
    using Cons.prems by (auto simp: kv find_put map_add_def split: option.splits)
qed simp

lemma insert_all_ok: "ok m \<Longrightarrow> ok (fold (\<lambda>(k, v). insert_new k v) kvs m)"
  by (induction kvs arbitrary: m) (auto simp: ok_insert)

text \<open>A sequence of insertions keeps the first value given to the key.\<close>
lemma insert_all_find:
  "ok m \<Longrightarrow> find (fold (\<lambda>(k, v). insert_new k v) kvs m) j =
     (case find m j of None \<Rightarrow> map_of kvs j | Some v \<Rightarrow> Some v)"
proof (induction kvs arbitrary: m)
  case (Cons kv kvs)
  obtain k v where kv: "kv = (k, v)" by force
  have "ok (insert_new k v m)" using Cons.prems by (rule ok_insert)
  from Cons.IH [OF this] show ?case
    using Cons.prems by (auto simp: kv find_insert split: option.splits)
qed (simp split: option.splits)

lemma erase_put: "ok m \<Longrightarrow> find (erase k (put k v m)) j = find (erase k m) j"
  by (simp add: find_erase find_put ok_put)

end

interpretation om: std_map om_find om_insert om_put om_erase "[]" om_ok
  by unfold_locales (simp_all add: map_simps)

end
