(* ===== verification/Services.thy ===== *)
theory Services
  imports Cmd_Target Escape Std_Map
begin

text \<open>
  Services of control objects: ServiceParam (src/service_param.cc), ServiceInfo
  (src/service_info.cc), the class-wide service table and the call of a service by name with a
  text parameter list (src/control_object.cc).  A Service pointer is a number; the objects it
  points to are kept in a store, and a call of the virtual \<open>execute\<close> is an entry of a trace with
  the parameters the service sees.  Doubles are an abstract type \<open>'d\<close> with the C library's atof
  and the value 0 as parameters.
\<close>

section \<open>ServiceParam\<close>

datatype param_type = PARAM_TYPE_INT | PARAM_TYPE_DOUBLE | PARAM_TYPE_STRING

text \<open>\<open>m_type\<close> is not set by the constructor: None until setType.\<close>
record 'd service_param =
  sp_intValue :: int
  sp_doubleValue :: 'd
  sp_stringValue :: string
  sp_type :: "param_type option"
  sp_paramIndex :: int
  sp_paramName :: string

definition new_service_param :: "'d \<Rightarrow> 'd service_param" where
  "new_service_param zero =
     \<lparr> sp_intValue = 0, sp_doubleValue = zero, sp_stringValue = [], sp_type = None,
       sp_paramIndex = 0, sp_paramName = [] \<rparr>"

definition sp_setType :: "string \<Rightarrow> 'd service_param \<Rightarrow> 'd service_param res" where
  "sp_setType type p =
     (if type = ''I'' \<or> type = ''int'' then Inr (p\<lparr>sp_type := Some PARAM_TYPE_INT\<rparr>)
      else if type = ''D'' \<or> type = ''double'' then Inr (p\<lparr>sp_type := Some PARAM_TYPE_DOUBLE\<rparr>)
      else if type = ''S'' \<or> type = ''string'' then Inr (p\<lparr>sp_type := Some PARAM_TYPE_STRING\<rparr>)
      else Inl (Throw ''add param failure, param type invalid!''))"

definition sp_setInt :: "int \<Rightarrow> 'd service_param \<Rightarrow> 'd service_param" where
  "sp_setInt value p = p\<lparr>sp_intValue := value\<rparr>"

definition sp_setDouble :: "'d \<Rightarrow> 'd service_param \<Rightarrow> 'd service_param" where
  "sp_setDouble value p = p\<lparr>sp_doubleValue := value\<rparr>"

definition sp_setString :: "string \<Rightarrow> 'd service_param \<Rightarrow> 'd service_param" where
  "sp_setString value p = p\<lparr>sp_stringValue := value\<rparr>"

definition sp_setParamIndex :: "int \<Rightarrow> 'd service_param \<Rightarrow> 'd service_param" where
  "sp_setParamIndex index p = p\<lparr>sp_paramIndex := index\<rparr>"

definition sp_setParamName :: "string \<Rightarrow> 'd service_param \<Rightarrow> 'd service_param" where
  "sp_setParamName name p = p\<lparr>sp_paramName := name\<rparr>"

section \<open>ServiceInfo\<close>

record 'd service_info =
  si_name :: string
  si_params :: "(string, 'd service_param) omap"

definition new_service_info :: "'d service_info" where
  "new_service_info = \<lparr> si_name = [], si_params = [] \<rparr>"

definition si_setName :: "string \<Rightarrow> 'd service_info \<Rightarrow> 'd service_info" where
  "si_setName name info = info\<lparr>si_name := name\<rparr>"

text \<open>Both branches of the source store the new parameter under its name.\<close>
definition si_addServiceParam ::
  "'d \<Rightarrow> string \<Rightarrow> string \<Rightarrow> 'd service_info \<Rightarrow> 'd service_info res" where
  "si_addServiceParam zero paramName paramType info =
     (let paramNum = int (length (si_params info))
      in bindR (sp_setType paramType (sp_setInt 0 (new_service_param zero))) (\<lambda>p.
         let paramInfo = sp_setParamName paramName (sp_setParamIndex paramNum p)
         in Inr (if om_find (si_params info) paramName = None
                 then info\<lparr>si_params := om_insert paramName paramInfo (si_params info)\<rparr>
                 else info\<lparr>si_params := om_put paramName paramInfo (si_params info)\<rparr>)))"

section \<open>The service table\<close>

type_synonym 'd service_map = "(string, 'd service_info list) omap"

definition registerService ::
  "string \<Rightarrow> 'd service_info \<Rightarrow> 'd service_map \<Rightarrow> 'd service_map" where
  "registerService className serviceInfo serviceMap =
     (case om_find serviceMap className of
        Some v \<Rightarrow> om_put className (v @ [serviceInfo]) serviceMap
      | None \<Rightarrow> om_insert className [serviceInfo] serviceMap)"

text \<open>The registration macros' helpers.\<close>
definition INSERT_SERVICE_INFO ::
  "'d service_info list \<Rightarrow> 'd service_info \<Rightarrow> string \<Rightarrow> 'd service_info list \<times> 'd service_info" where
  "INSERT_SERVICE_INFO v info service =
     (if \<exists>i \<in> set v. si_name i = service then (v, info)
      else (v @ [si_setName service info], si_setName service info))"

fun replace_first :: "string \<Rightarrow> 'd service_info \<Rightarrow> 'd service_info list \<Rightarrow> 'd service_info list option" where
  "replace_first service info [] = None"
| "replace_first service info (i # v) =
     (if si_name i = service then Some (info # v)
      else map_option (\<lambda>r. i # r) (replace_first service info v))"

definition INSERT_PARAM_INFO ::
  "'d \<Rightarrow> 'd service_info list \<Rightarrow> 'd service_info \<Rightarrow> string \<Rightarrow> string \<Rightarrow> string \<Rightarrow>
     ('d service_info list \<times> 'd service_info) res" where
  "INSERT_PARAM_INFO zero v info service param type =
     mapR (\<lambda>info'. (case replace_first service info' v of
                      Some v' \<Rightarrow> (v', info')
                    | None \<Rightarrow> (v @ [info'], info')))
          (si_addServiceParam zero param type (si_setName service info))"

definition REG_SERVICEINFO_LIST ::
  "string \<Rightarrow> 'd service_info list \<Rightarrow> 'd service_map \<Rightarrow> 'd service_map" where
  "REG_SERVICEINFO_LIST owner curInfo serviceMap =
     (if serviceMap \<noteq> [] \<and> om_find serviceMap owner \<noteq> None
      then om_put owner curInfo serviceMap
      else om_insert owner curInfo serviceMap)"

section \<open>Calling a service\<close>

record 'd service =
  sv_name :: string
  sv_params :: "(string, 'd service_param) omap"

record control_object =
  co_className :: string
  co_services :: "(string, nat) omap"

record 'd svc_state =
  ss_store :: "(nat, 'd service) omap"
  ss_trace :: "(nat \<times> (string, 'd service_param) omap) list"
  ss_errors :: "string list"

definition addService :: "string \<Rightarrow> nat option \<Rightarrow> control_object \<Rightarrow> control_object" where
  "addService name service obj =
     (case service of
        None \<Rightarrow> obj
      | Some s \<Rightarrow>
          if om_find (co_services obj) name = None
          then obj\<lparr>co_services := om_insert name s (co_services obj)\<rparr>
          else obj\<lparr>co_services := om_put name s (co_services obj)\<rparr>)"

text \<open>\<open>Params[name].setValue(v)\<close>: operator[] creates a default parameter when the name is new.\<close>
definition params_set ::
  "'d \<Rightarrow> string \<Rightarrow> ('d service_param \<Rightarrow> 'd service_param) \<Rightarrow>
     (string, 'd service_param) omap \<Rightarrow> (string, 'd service_param) omap" where
  "params_set zero name f ps =
     (let p = (case om_find ps name of Some q \<Rightarrow> q | None \<Rightarrow> new_service_param zero)
      in om_put name (f p) ps)"

text \<open>One round of the loop: the first parameter, in map order, whose index is \<open>i\<close>.\<close>
definition assign_param ::
  "(string \<Rightarrow> 'd) \<Rightarrow> 'd \<Rightarrow> (string, 'd service_param) omap \<Rightarrow> int \<Rightarrow> string \<Rightarrow>
     (string, 'd service_param) omap \<Rightarrow> (string, 'd service_param) omap res" where
  "assign_param atof zero infos i text ps =
     (case List.find (\<lambda>(_, p). i = sp_paramIndex p) infos of
        None \<Rightarrow> Inr ps
      | Some (_, p) \<Rightarrow>
          (case sp_type p of
             None \<Rightarrow> Inl Undefined
           | Some PARAM_TYPE_INT \<Rightarrow>
               mapR (\<lambda>d. params_set zero (sp_paramName p) (sp_setInt (atoi d)) ps) (decodeParam text)
           | Some PARAM_TYPE_DOUBLE \<Rightarrow>
               mapR (\<lambda>d. params_set zero (sp_paramName p) (sp_setDouble (atof d)) ps) (decodeParam text)
           | Some PARAM_TYPE_STRING \<Rightarrow>
               mapR (\<lambda>d. params_set zero (sp_paramName p) (sp_setString d) ps) (decodeParam text)))"

fun assign_params ::
  "(string \<Rightarrow> 'd) \<Rightarrow> 'd \<Rightarrow> (string, 'd service_param) omap \<Rightarrow> int \<Rightarrow> string list \<Rightarrow>
     (string, 'd service_param) omap \<Rightarrow> (string, 'd service_param) omap res" where
  "assign_params atof zero infos i [] ps = Inr ps"
| "assign_params atof zero infos i (t # ts) ps =
     bindR (assign_param atof zero infos i t ps) (assign_params atof zero infos (i + 1) ts)"

text \<open>\<open>call(Service*)\<close> runs the service's execute (between lock and unlock of the service mutex).\<close>
definition call_service :: "nat option \<Rightarrow> 'd svc_state \<Rightarrow> 'd svc_state" where
  "call_service service st =
     (case service of
        None \<Rightarrow> st
      | Some s \<Rightarrow>
          (case om_find (ss_store st) s of
             None \<Rightarrow> st
           | Some sv \<Rightarrow> st\<lparr>ss_trace := ss_trace st @ [(s, sv_params sv)]\<rparr>))"

definition find_info :: "'d service_map \<Rightarrow> string \<Rightarrow> string \<Rightarrow> 'd service_info option" where
  "find_info serviceMap className serviceName =
     (case om_find serviceMap className of
        None \<Rightarrow> None
      | Some v \<Rightarrow> List.find (\<lambda>i. si_name i = serviceName) v)"

definition call_named ::
  "(string \<Rightarrow> 'd) \<Rightarrow> 'd \<Rightarrow> 'd service_map \<Rightarrow> control_object \<Rightarrow> string \<Rightarrow> string \<Rightarrow>
     'd svc_state \<Rightarrow> 'd svc_state res" where
  "call_named atof zero serviceMap obj serviceName params st =
     (case om_find (co_services obj) serviceName of
        None \<Rightarrow> Inr st
      | Some s \<Rightarrow>
          (case find_info serviceMap (co_className obj) serviceName of
             None \<Rightarrow> Inr st
           | Some info \<Rightarrow>
               bindR (cmd_split params '','') (\<lambda>param.
               if length (si_params info) \<noteq> length param then
                 Inr (st\<lparr>ss_errors := ss_errors st @
                   [''Run service failure! param format error! service param size: '' @
                    convertToString (int (length (si_params info))) @ '', param size: '' @
                    convertToString (int (length param))]\<rparr>)
               else
                 (case om_find (ss_store st) s of
                    None \<Rightarrow> Inl Undefined
                  | Some sv \<Rightarrow>
                      bindR (assign_params atof zero (si_params info) 0 param (sv_params sv)) (\<lambda>ps.
                      Inr (call_service (Some s)
                        (st\<lparr>ss_store := om_put s (sv\<lparr>sv_params := ps\<rparr>) (ss_store st)\<rparr>)))))))"

section \<open>Facts\<close>

lemma sp_setType_cases:
  "case sp_setType t q of Inl e \<Rightarrow> e = Throw ''add param failure, param type invalid!''
   | Inr p \<Rightarrow> sp_type p \<noteq> None"
  by (simp add: sp_setType_def)

lemma sp_setType_type: "sp_setType t q = Inr p \<Longrightarrow> sp_type p \<noteq> None"
  using sp_setType_cases [of t q] by simp

text \<open>The parameters of an info built by adding distinct names have the indices 0, 1, 2, ... in the
  order they were added: this is what lets call address them by position.\<close>
definition indexed :: "(string, 'd service_param) omap \<Rightarrow> string list \<Rightarrow> bool" where
  "indexed ps names =
     (om_ok ps \<and> distinct names \<and> length ps = length names \<and>
      (\<forall>k < length names. \<exists>p. om_find ps (names ! k) = Some p \<and> sp_paramIndex p = int k \<and>
          sp_paramName p = names ! k \<and> sp_type p \<noteq> None))"

lemma indexed_Nil [simp]: "indexed [] []"
  by (simp add: indexed_def)

lemma length_om_put_new: "om_find m k = None \<Longrightarrow> length (om_put k v m) = Suc (length m)"
  by (induction k v m rule: om_put.induct) (auto simp: om_find_def split: if_splits)

lemma indexed_add:
  assumes "indexed (si_params info) names" "n \<notin> set names" "om_find (si_params info) n = None"
    and "si_addServiceParam zero n t info = Inr info'"
  shows "indexed (si_params info') (names @ [n])"
proof -
  obtain p where p: "sp_setType t (sp_setInt 0 (new_service_param zero)) = Inr p"
    using assms(4) by (cases "sp_setType t (sp_setInt 0 (new_service_param zero))")
      (simp_all add: si_addServiceParam_def)
  have i': "si_params info' = om_put n (sp_setParamName n (sp_setParamIndex (int (length (si_params info))) p))
        (si_params info)"
    using assms(4) unfolding si_addServiceParam_def Let_def p assms(3)
    by (auto simp: om_insert_def om_has_def assms(3))
  have ty: "sp_type p \<noteq> None" using p by (rule sp_setType_type)
  have ok: "om_ok (si_params info)" and len: "length (si_params info) = length names"
    and old: "\<And>k. k < length names \<Longrightarrow> \<exists>p. om_find (si_params info) (names ! k) = Some p \<and>
       sp_paramIndex p = int k \<and> sp_paramName p = names ! k \<and> sp_type p \<noteq> None"
    using assms(1) by (auto simp: indexed_def)
  show ?thesis unfolding indexed_def
  proof (intro conjI allI impI)
    fix k
    assume "k < length (names @ [n])"
    then consider "k < length names" | "k = length names" by fastforce
    then show "\<exists>p. om_find (si_params info') ((names @ [n]) ! k) = Some p \<and> sp_paramIndex p = int k \<and>
        sp_paramName p = (names @ [n]) ! k \<and> sp_type p \<noteq> None"
    proof cases
      case 1
      then have "names ! k \<noteq> n" using assms(2) by (metis nth_mem)
      then show ?thesis using old [OF 1] 1 by (simp add: i' om_find_put ok nth_append)
    next
      case 2
      then show ?thesis using ty len
        by (simp add: i' om_find_put ok sp_setParamName_def sp_setParamIndex_def)
    qed
  qed (use assms ok len in \<open>auto simp: i' om_ok_put indexed_def length_om_put_new\<close>)
qed

lemma indexed_keys:
  assumes "indexed ps names" shows "fst ` set ps = set names"
proof -
  have "set names \<subseteq> fst ` set ps"
  proof
    fix n assume "n \<in> set names"
    then obtain j where "j < length names" "names ! j = n" by (auto simp: in_set_conv_nth)
    with assms show "n \<in> fst ` set ps" by (auto simp: indexed_def om_has_iff [symmetric] om_has_def)
  qed
  moreover have "card (fst ` set ps) = card (set names)"
    using om_ok_distinct [of ps] assms by (metis distinct_card indexed_def length_map list.set_map)
  ultimately show ?thesis by (metis card_subset_eq finite_imageI finite_set)
qed

lemma indexed_fresh: "indexed ps names \<Longrightarrow> n \<notin> set names \<Longrightarrow> om_find ps n = None"
  using indexed_keys [of ps names] om_has_iff [of ps n] by (auto simp: om_has_def)

lemma find_index:
  assumes "indexed ps names" "k < length names"
  shows "\<exists>p. List.find (\<lambda>(_, p). int k = sp_paramIndex p) ps = Some (names ! k, p) \<and>
           om_find ps (names ! k) = Some p \<and> sp_paramName p = names ! k \<and> sp_type p \<noteq> None"
proof -
  have ok: "om_ok ps" and d: "distinct names" and l: "length ps = length names"
    and at: "\<And>j. j < length names \<Longrightarrow> \<exists>p. om_find ps (names ! j) = Some p \<and> sp_paramIndex p = int j \<and>
          sp_paramName p = names ! j \<and> sp_type p \<noteq> None"
    using assms(1) by (auto simp: indexed_def)
  have keys: "fst ` set ps = set names" by (rule indexed_keys [OF assms(1)])
  obtain p where p: "om_find ps (names ! k) = Some p" "sp_paramIndex p = int k"
      "sp_paramName p = names ! k" "sp_type p \<noteq> None"
    using at [OF assms(2)] by blast
  have mem: "(names ! k, p) \<in> set ps" using p(1) om_find_in_set [OF ok] by blast
  have uniq: "e = (names ! k, p)" if "e \<in> set ps" "int k = sp_paramIndex (snd e)" for e
  proof -
    obtain n q where e: "e = (n, q)" by force
    then have "n \<in> set names" using that(1) keys by force
    then obtain j where j: "j < length names" "names ! j = n" by (auto simp: in_set_conv_nth)
    have "om_find ps n = Some q" using that(1) e om_find_in_set [OF ok] by blast
    with at [OF j(1)] j(2) have "sp_paramIndex q = int j" by auto
    with that(2) e have "j = k" by simp
    then show ?thesis using \<open>om_find ps n = Some q\<close> j(2) p(1) e by simp
  qed
  have "List.find (\<lambda>(_, p). int k = sp_paramIndex p) ps \<noteq> None"
  proof
    assume "List.find (\<lambda>(_, p). int k = sp_paramIndex p) ps = None"
    then have "\<not> (\<lambda>(_, p). int k = sp_paramIndex p) (names ! k, p)"
      using mem unfolding find_None_iff by blast
    with p(2) show False by simp
  qed
  then obtain e where f: "List.find (\<lambda>(_, p). int k = sp_paramIndex p) ps = Some e" by auto
  then have "e \<in> set ps" "int k = sp_paramIndex (snd e)"
    by (auto simp: find_Some_iff in_set_conv_nth)
  then have "e = (names ! k, p)" by (rule uniq)
  with f p show ?thesis by blast
qed

text \<open>What the text of a parameter must become in the service's parameter of that name.\<close>
fun param_holds :: "(string \<Rightarrow> 'd) \<Rightarrow> param_type option \<Rightarrow> string \<Rightarrow> 'd service_param \<Rightarrow> bool" where
  "param_holds atof (Some PARAM_TYPE_INT) d q = (sp_intValue q = atoi d)"
| "param_holds atof (Some PARAM_TYPE_DOUBLE) d q = (sp_doubleValue q = atof d)"
| "param_holds atof (Some PARAM_TYPE_STRING) d q = (sp_stringValue q = d)"
| "param_holds atof None d q = False"

lemma params_set_find:
  "om_ok ps \<Longrightarrow> om_find (params_set zero n f ps) m =
     (if m = n then Some (f (case om_find ps n of Some q \<Rightarrow> q | None \<Rightarrow> new_service_param zero))
      else om_find ps m)"
  by (simp add: params_set_def Let_def om_find_put)

lemma params_set_ok: "om_ok ps \<Longrightarrow> om_ok (params_set zero n f ps)"
  by (simp add: params_set_def Let_def om_ok_put)

lemma assign_param_at:
  assumes "indexed infos names" "k < length names" "decodeParam t = Inr d" "om_ok ps"
  shows "\<exists>ps' p q. assign_param atof zero infos (int k) t ps = Inr ps' \<and> om_ok ps' \<and>
     om_find infos (names ! k) = Some p \<and>
     om_find ps' (names ! k) = Some q \<and> param_holds atof (sp_type p) d q \<and>
     (\<forall>n. n \<noteq> names ! k \<longrightarrow> om_find ps' n = om_find ps n)"
proof -
  obtain p where f: "List.find (\<lambda>(_, p). int k = sp_paramIndex p) infos = Some (names ! k, p)"
    and p: "om_find infos (names ! k) = Some p" "sp_paramName p = names ! k" "sp_type p \<noteq> None"
    using find_index [OF assms(1,2)] by blast
  obtain ty where ty: "sp_type p = Some ty" using p(3) by blast
  show ?thesis
    by (cases ty) (simp_all add: assign_param_def f ty assms(3) p(1,2) params_set_find params_set_ok
        assms(4) sp_setInt_def sp_setDouble_def sp_setString_def)
qed

lemma assign_params_from:
  assumes "indexed infos names"
  shows "k + length ts = length names \<Longrightarrow> \<forall>t \<in> set ts. is_ok (decodeParam t) \<Longrightarrow> om_ok ps \<Longrightarrow>
   \<exists>ps'. assign_params atof zero infos (int k) ts ps = Inr ps' \<and> om_ok ps' \<and>
     (\<forall>n. n \<notin> set (drop k names) \<longrightarrow> om_find ps' n = om_find ps n) \<and>
     (\<forall>j < length ts. \<exists>p q d. om_find infos (names ! (k + j)) = Some p \<and>
        om_find ps' (names ! (k + j)) = Some q \<and> decodeParam (ts ! j) = Inr d \<and>
        param_holds atof (sp_type p) d q)"
proof (induction ts arbitrary: k ps)
  case (Cons t ts)
  have k: "k < length names" using Cons.prems(1) by simp
  obtain d where d: "decodeParam t = Inr d" using Cons.prems(2) by (auto simp: is_ok_iff)
  obtain ps1 p q where 1: "assign_param atof zero infos (int k) t ps = Inr ps1" "om_ok ps1"
    "om_find infos (names ! k) = Some p" "om_find ps1 (names ! k) = Some q"
    "param_holds atof (sp_type p) d q" "\<forall>n. n \<noteq> names ! k \<longrightarrow> om_find ps1 n = om_find ps n"
    using assign_param_at [OF assms k d Cons.prems(3)] by metis
  have "Suc k + length ts = length names" "\<forall>t \<in> set ts. is_ok (decodeParam t)"
    using Cons.prems(1,2) by simp_all
  from Cons.IH [OF this 1(2)] obtain ps2 where
    2: "assign_params atof zero infos (int (Suc k)) ts ps1 = Inr ps2" "om_ok ps2"
       "\<forall>n. n \<notin> set (drop (Suc k) names) \<longrightarrow> om_find ps2 n = om_find ps1 n"
    and later: "\<forall>j < length ts. \<exists>p q d. om_find infos (names ! (Suc k + j)) = Some p \<and>
        om_find ps2 (names ! (Suc k + j)) = Some q \<and> decodeParam (ts ! j) = Inr d \<and>
        param_holds atof (sp_type p) d q" by blast
  have dr: "drop k names = names ! k # drop (Suc k) names" using k by (simp add: Cons_nth_drop_Suc)
  have "distinct (drop k names)" using assms by (simp add: indexed_def)
  then have "names ! k \<notin> set (drop (Suc k) names)" using dr by simp
  then have hd: "om_find ps2 (names ! k) = Some q" using 2(3) 1(4) by simp
  have run: "assign_params atof zero infos (int k) (t # ts) ps = Inr ps2"
    using 1(1) 2(1) by (simp add: add.commute)
  have frame: "om_find ps2 n = om_find ps n" if "n \<notin> set (drop k names)" for n
    using that 2(3) 1(6) dr by simp
  have all: "\<exists>p q d. om_find infos (names ! (k + j)) = Some p \<and>
        om_find ps2 (names ! (k + j)) = Some q \<and> decodeParam ((t # ts) ! j) = Inr d \<and>
        param_holds atof (sp_type p) d q" if j: "j < length (t # ts)" for j
  proof (cases j)
    case 0
    then show ?thesis using 1 hd d by simp
  next
    case (Suc i)
    then show ?thesis using later j by simp
  qed
  from run 2(2) frame all show ?case by blast
qed simp

lemma call_named_runs:
  assumes svc: "om_find (co_services obj) name = Some s" "om_find (ss_store st) s = Some sv"
    and info: "find_info m (co_className obj) name = Some info" "indexed (si_params info) names"
    and ts: "cmd_split params '','' = Inr ts" "length ts = length names"
      "\<forall>t \<in> set ts. is_ok (decodeParam t)"
    and ok: "om_ok (sv_params sv)" "om_ok (ss_store st)"
  shows "\<exists>st' ps. call_named atof zero m obj name params st = Inr st' \<and>
     ss_trace st' = ss_trace st @ [(s, ps)] \<and> ss_errors st' = ss_errors st \<and>
     (\<forall>k < length names. \<exists>p q d. om_find (si_params info) (names ! k) = Some p \<and>
        om_find ps (names ! k) = Some q \<and> decodeParam (ts ! k) = Inr d \<and>
        param_holds atof (sp_type p) d q)"
proof -
  obtain ps where ps: "assign_params atof zero (si_params info) 0 ts (sv_params sv) = Inr ps"
    and holds: "\<forall>k < length ts. \<exists>p q d. om_find (si_params info) (names ! (0 + k)) = Some p \<and>
        om_find ps (names ! (0 + k)) = Some q \<and> decodeParam (ts ! k) = Inr d \<and>
        param_holds atof (sp_type p) d q"
    using assign_params_from [OF info(2), of 0 ts "sv_params sv" atof zero] ts ok(1) by auto
  have len: "length (si_params info) = length ts" using info(2) ts(2) by (simp add: indexed_def)
  have "call_named atof zero m obj name params st =
    Inr (call_service (Some s) (st\<lparr>ss_store := om_put s (sv\<lparr>sv_params := ps\<rparr>) (ss_store st)\<rparr>))"
    by (simp add: call_named_def svc info(1) ts(1) len ps)
  then show ?thesis using holds ts(2) ok(2) by (simp add: call_service_def om_find_put)
qed

section \<open>From the declaration of a service to its call\<close>

text \<open>The declaration of a service's parameters, one addServiceParam after the other.\<close>
fun add_params :: "'d \<Rightarrow> (string \<times> string) list \<Rightarrow> 'd service_info \<Rightarrow> 'd service_info res" where
  "add_params zero [] info = Inr info"
| "add_params zero ((n, t) # ps) info = bindR (si_addServiceParam zero n t info) (add_params zero ps)"

definition type_named :: "string \<Rightarrow> param_type option" where
  "type_named t =
     (if t \<in> {''I'', ''int''} then Some PARAM_TYPE_INT
      else if t \<in> {''D'', ''double''} then Some PARAM_TYPE_DOUBLE
      else if t \<in> {''S'', ''string''} then Some PARAM_TYPE_STRING else None)"

lemma sp_setType_named:
  "sp_setType t q = (case type_named t of
     None \<Rightarrow> Inl (Throw ''add param failure, param type invalid!'') | Some ty \<Rightarrow> Inr (q\<lparr>sp_type := Some ty\<rparr>))"
  by (simp add: sp_setType_def type_named_def)

lemma si_add_type:
  assumes "si_addServiceParam zero n t info = Inr info'" "om_ok (si_params info)"
  shows "\<exists>p. om_find (si_params info') n = Some p \<and> sp_type p = type_named t"
    and "m \<noteq> n \<Longrightarrow> om_find (si_params info') m = om_find (si_params info) m"
    and "si_name info' = si_name info"
  using assms by (auto simp: si_addServiceParam_def sp_setType_named Let_def om_find_put om_find_insert
      sp_setParamName_def sp_setParamIndex_def split: option.splits)

lemma add_params_indexed:
  "add_params zero ps info = Inr info' \<Longrightarrow> indexed (si_params info) names \<Longrightarrow>
   distinct (names @ map fst ps) \<Longrightarrow>
   indexed (si_params info') (names @ map fst ps) \<and> si_name info' = si_name info \<and>
   (\<forall>m. m \<notin> set (map fst ps) \<longrightarrow> om_find (si_params info') m = om_find (si_params info) m) \<and>
   (\<forall>(n, t) \<in> set ps. \<exists>p. om_find (si_params info') n = Some p \<and> sp_type p = type_named t)"
proof (induction ps arbitrary: info names)
  case (Cons e ps)
  obtain n t where e: "e = (n, t)" by force
  from Cons.prems(1) e obtain info1 where 1: "si_addServiceParam zero n t info = Inr info1"
    "add_params zero ps info1 = Inr info'" by (auto simp: res_simps)
  have n: "n \<notin> set names" using Cons.prems(3) e by simp
  have ix: "indexed (si_params info1) (names @ [n])"
    by (rule indexed_add [OF Cons.prems(2) n indexed_fresh [OF Cons.prems(2) n] 1(1)])
  have ok: "om_ok (si_params info)" using Cons.prems(2) by (simp add: indexed_def)
  have "distinct ((names @ [n]) @ map fst ps)" using Cons.prems(3) e by simp
  from Cons.IH [OF 1(2) ix this] have IH:
    "indexed (si_params info') ((names @ [n]) @ map fst ps)" "si_name info' = si_name info1"
    "\<And>m. m \<notin> set (map fst ps) \<Longrightarrow> om_find (si_params info') m = om_find (si_params info1) m"
    "\<forall>(n, t) \<in> set ps. \<exists>p. om_find (si_params info') n = Some p \<and> sp_type p = type_named t"
    by blast+
  have "n \<notin> set (map fst ps)" using Cons.prems(3) e by simp
  then show ?case using IH si_add_type [OF 1(1) ok] by (auto simp: e)
qed simp

lemma decodeParam_encode: "param_safe s \<Longrightarrow> decodeParam (encode_param s) = Inr s"
  using decode_encode_param by (simp add: decodeParam_def decode_param_def)

text \<open>A call with encoded arguments gives each declared parameter the argument at its position.\<close>
lemma call_declared:
  assumes svc: "om_find (co_services obj) name = Some s" "om_find (ss_store st) s = Some sv"
    and decl: "add_params zero specs new_service_info = Inr info0" "distinct (map fst specs)"
    and info: "find_info m (co_className obj) name = Some (si_setName name info0)"
    and args: "length args = length specs" "cmd_fields (CHR '','') (map encode_param args)"
      "\<forall>a \<in> set args. param_safe a"
    and ok: "om_ok (sv_params sv)" "om_ok (ss_store st)"
  shows "\<exists>st' ps. call_named atof zero m obj name (join (CHR '','') (map encode_param args)) st = Inr st' \<and>
     ss_trace st' = ss_trace st @ [(s, ps)] \<and> ss_errors st' = ss_errors st \<and>
     (\<forall>k < length specs. \<exists>q. om_find ps (fst (specs ! k)) = Some q \<and>
        param_holds atof (type_named (snd (specs ! k))) (args ! k) q)"
proof -
  from add_params_indexed [OF decl(1), of "[]"] decl(2) have
    ix: "indexed (si_params (si_setName name info0)) (map fst specs)" and
    ty: "\<forall>(n, t) \<in> set specs. \<exists>p. om_find (si_params info0) n = Some p \<and> sp_type p = type_named t"
    by (auto simp: new_service_info_def si_setName_def)
  have "cmd_split (join (CHR '','') (map encode_param args)) '','' = Inr (map encode_param args)"
    by (rule cmd_split_join [OF args(2)])
  from call_named_runs [OF svc info ix this _ _ ok, of atof zero] obtain st' ps where
    r: "call_named atof zero m obj name (join (CHR '','') (map encode_param args)) st = Inr st'"
      "ss_trace st' = ss_trace st @ [(s, ps)]" "ss_errors st' = ss_errors st"
    and h: "\<forall>k < length (map fst specs). \<exists>p q d. om_find (si_params (si_setName name info0)) (map fst specs ! k) = Some p \<and>
        om_find ps (map fst specs ! k) = Some q \<and> decodeParam (map encode_param args ! k) = Inr d \<and>
        param_holds atof (sp_type p) d q"
    using args(1,3) by (auto simp: decodeParam_encode)
  have "\<exists>q. om_find ps (fst (specs ! k)) = Some q \<and> param_holds atof (type_named (snd (specs ! k))) (args ! k) q"
    if k: "k < length specs" for k
  proof -
    obtain p q d where *: "om_find (si_params info0) (fst (specs ! k)) = Some p"
        "om_find ps (fst (specs ! k)) = Some q" "decodeParam (map encode_param args ! k) = Inr d"
        "param_holds atof (sp_type p) d q"
      using h k by (fastforce simp: si_setName_def)
    have mem: "specs ! k \<in> set specs" using k by simp
    have "sp_type p = type_named (snd (specs ! k))" using bspec [OF ty mem] *(1) by (auto split: prod.splits)
    moreover have "d = args ! k" using *(3) args k by (simp add: decodeParam_encode)
    ultimately show ?thesis using * by auto
  qed
  then show ?thesis using r by blast
qed

end
