(* ===== verification/Data_Point.thy ===== *)
theory Data_Point
  imports Ick_Prelude
begin

text \<open>
  Data points: UntypedData (src/untyped_data.cc), the part of ManagedObject the registry uses
  (src/managed_object.cc) and the six typed classes (src/read_only_int.cc, src/read_write_int.cc,
  src/read_only_double.cc, src/read_write_double.cc, src/read_only_string.cc,
  src/read_write_string.cc).

  A pointer to a subscriber or a driver is a number.  A driver is consulted through a function:
  \<open>rd drv pfn channel\<close> is None when the registered read returns false and the value it stores
  otherwise; \<open>wr drv pfn channel v\<close> is the result of the registered write.  Doubles are an
  abstract type; \<open>differs a b\<close> stands for \<open>fabs(a - b) >= m_accuracy\<close>.
  IMutex::lock and unlock are not part of these definitions (on Linux they do nothing, see the
  theory of the subscription manager).
\<close>

datatype data_type = UNKNOWN | INTDATA | STRINGDATA | DOUBLEDATA

datatype access_mode = DEFAULT | READONLY | READWRITE

datatype func_reg =
    RegReadInt | RegReadDouble | RegReadString | RegWriteInt | RegWriteDouble | RegWriteString

record untyped_data =
  ud_fullName :: string
  ud_selfName :: string
  ud_simulated :: bool
  ud_nodeNumber :: int
  ud_channelNumber :: int
  ud_dataType :: data_type
  ud_accessMode :: access_mode
  ud_driver :: "nat option"
  ud_pfn_read :: "func_reg option"
  ud_pfn_write :: "func_reg option"
  ud_isChanged :: bool
  ud_isValid :: bool
  ud_paramFirst :: string
  ud_paramSecond :: string
  ud_description :: string
  ud_subscribers :: "nat list"

text \<open>The two constructors; the default one is node 0, channel 0.\<close>
definition new_untyped :: "int \<Rightarrow> int \<Rightarrow> untyped_data" where
  "new_untyped nodeNumber channelNumber =
     \<lparr> ud_fullName = [], ud_selfName = [], ud_simulated = False,
       ud_nodeNumber = nodeNumber, ud_channelNumber = channelNumber,
       ud_dataType = UNKNOWN, ud_accessMode = DEFAULT, ud_driver = None,
       ud_pfn_read = None, ud_pfn_write = None, ud_isChanged = True, ud_isValid = False,
       ud_paramFirst = [], ud_paramSecond = [], ud_description = [], ud_subscribers = [] \<rparr>"

section \<open>ManagedObject\<close>

fun last_slash :: "string \<Rightarrow> nat option" where
  "last_slash [] = None"
| "last_slash (c # cs) =
     (case last_slash cs of
        Some k \<Rightarrow> Some (Suc k)
      | None \<Rightarrow> if c = CHR ''/'' then Some 0 else None)"

text \<open>The self name is what follows the last slash.\<close>
definition self_name :: "string \<Rightarrow> string" where
  "self_name fullName =
     (case last_slash fullName of None \<Rightarrow> fullName | Some index \<Rightarrow> drop (index + 1) fullName)"

definition setFullName :: "string \<Rightarrow> 'x untyped_data_scheme \<Rightarrow> 'x untyped_data_scheme" where
  "setFullName fullName d = d\<lparr>ud_fullName := fullName, ud_selfName := self_name fullName\<rparr>"

definition setSimulated :: "bool \<Rightarrow> 'x untyped_data_scheme \<Rightarrow> 'x untyped_data_scheme" where
  "setSimulated simulated d = d\<lparr>ud_simulated := simulated\<rparr>"

section \<open>UntypedData\<close>

definition setNodeNumber :: "int \<Rightarrow> 'x untyped_data_scheme \<Rightarrow> 'x untyped_data_scheme" where
  "setNodeNumber n d = d\<lparr>ud_nodeNumber := n\<rparr>"

definition setChannelNumber :: "int \<Rightarrow> 'x untyped_data_scheme \<Rightarrow> 'x untyped_data_scheme" where
  "setChannelNumber n d = d\<lparr>ud_channelNumber := n\<rparr>"

definition setFirstParamValue :: "string \<Rightarrow> 'x untyped_data_scheme \<Rightarrow> 'x untyped_data_scheme" where
  "setFirstParamValue v d = d\<lparr>ud_paramFirst := v\<rparr>"

definition setSecondParamValue :: "string \<Rightarrow> 'x untyped_data_scheme \<Rightarrow> 'x untyped_data_scheme" where
  "setSecondParamValue v d = d\<lparr>ud_paramSecond := v\<rparr>"

definition setDescription :: "string \<Rightarrow> 'x untyped_data_scheme \<Rightarrow> 'x untyped_data_scheme" where
  "setDescription v d = d\<lparr>ud_description := v\<rparr>"

text \<open>subscribe marks the data changed, so that the next update reaches the new subscriber.\<close>
definition ud_subscribe :: "nat option \<Rightarrow> 'x untyped_data_scheme \<Rightarrow> 'x untyped_data_scheme" where
  "ud_subscribe object d =
     (case object of
        None \<Rightarrow> d
      | Some s \<Rightarrow>
          let d = d\<lparr>ud_isChanged := True\<rparr>
          in if s \<in> set (ud_subscribers d) then d
             else d\<lparr>ud_subscribers := ud_subscribers d @ [s]\<rparr>)"

definition ud_unsubscribe :: "nat option \<Rightarrow> 'x untyped_data_scheme \<Rightarrow> 'x untyped_data_scheme" where
  "ud_unsubscribe object d =
     d\<lparr>ud_subscribers := filter (\<lambda>s. Some s \<noteq> object) (ud_subscribers d)\<rparr>"

definition registChannelRead ::
  "func_reg option \<Rightarrow> nat option \<Rightarrow> 'x untyped_data_scheme \<Rightarrow> 'x untyped_data_scheme" where
  "registChannelRead pfn driver d =
     (case pfn of None \<Rightarrow> d | Some f \<Rightarrow> d\<lparr>ud_pfn_read := Some f, ud_driver := driver\<rparr>)"

definition registChannelWrite ::
  "func_reg option \<Rightarrow> nat option \<Rightarrow> 'x untyped_data_scheme \<Rightarrow> 'x untyped_data_scheme" where
  "registChannelWrite pfn driver d =
     (case pfn of None \<Rightarrow> d | Some f \<Rightarrow> d\<lparr>ud_pfn_write := Some f, ud_driver := driver\<rparr>)"

text \<open>update calls \<open>update(this)\<close> of every subscriber in order: the list of the calls.\<close>
definition ud_update :: "'x untyped_data_scheme \<Rightarrow> nat list \<times> 'x untyped_data_scheme" where
  "ud_update d = (ud_subscribers d, d\<lparr>ud_isChanged := False\<rparr>)"

section \<open>The typed classes\<close>

record 'v data_point = untyped_data +
  dp_value :: 'v
  dp_oldValue :: 'v
  dp_valid :: bool

definition typed_point ::
  "data_type \<Rightarrow> access_mode \<Rightarrow> 'v \<Rightarrow> 'v \<Rightarrow> 'v data_point" where
  "typed_point t m v old = untyped_data.extend
     ((new_untyped 0 0)\<lparr>ud_dataType := t, ud_accessMode := m\<rparr>)
     (data_point.fields v old False)"

definition ReadOnlyInt :: "int \<Rightarrow> int data_point" where
  "ReadOnlyInt v = typed_point INTDATA READONLY v v"

text \<open>The bounds passed to this constructor are stored and used nowhere.\<close>
definition ReadWriteInt :: "int \<Rightarrow> int \<Rightarrow> int data_point" where
  "ReadWriteInt minv maxv = typed_point INTDATA READWRITE 0 0"

text \<open>The constructor leaves \<open>m_oldValue\<close> uninitialised: an arbitrary \<open>old\<close>.\<close>
definition ReadOnlyDouble :: "'d \<Rightarrow> 'd \<Rightarrow> 'd data_point" where
  "ReadOnlyDouble old v = typed_point DOUBLEDATA READONLY v old"

definition ReadWriteDouble :: "'d \<Rightarrow> 'd \<Rightarrow> 'd data_point" where
  "ReadWriteDouble zero v =
     (typed_point DOUBLEDATA READWRITE v zero)\<lparr>ud_isChanged := False, ud_driver := None\<rparr>"

definition ReadOnlyString :: "string \<Rightarrow> string data_point" where
  "ReadOnlyString v = typed_point STRINGDATA READONLY v []"

definition ReadWriteString :: "string \<Rightarrow> string data_point" where
  "ReadWriteString v = typed_point STRINGDATA READWRITE v []"

type_synonym 'v reader = "nat \<Rightarrow> func_reg \<Rightarrow> int \<Rightarrow> 'v option"
type_synonym 'v writer = "nat \<Rightarrow> func_reg \<Rightarrow> int \<Rightarrow> 'v \<Rightarrow> bool"

text \<open>A call through the registered pointer: None when there is no driver or no pointer,
  \<open>Some r\<close> when the call is made.\<close>
definition drv_read :: "'v reader \<Rightarrow> 'x untyped_data_scheme \<Rightarrow> 'v option option" where
  "drv_read rd d =
     (case (ud_driver d, ud_pfn_read d) of
        (Some drv, Some pfn) \<Rightarrow> Some (rd drv pfn (ud_channelNumber d))
      | _ \<Rightarrow> None)"

definition drv_write :: "'v writer \<Rightarrow> 'v \<Rightarrow> 'x untyped_data_scheme \<Rightarrow> bool option" where
  "drv_write wr v d =
     (case (ud_driver d, ud_pfn_write d) of
        (Some drv, Some pfn) \<Rightarrow> Some (wr drv pfn (ud_channelNumber d) v)
      | _ \<Rightarrow> None)"

definition ReadOnlyInt_getValue :: "int reader \<Rightarrow> int data_point \<Rightarrow> int \<times> int data_point" where
  "ReadOnlyInt_getValue rd d =
     (if ud_simulated d then
        (dp_value d,
         if dp_value d \<noteq> dp_oldValue d
         then d\<lparr>dp_oldValue := dp_value d, dp_valid := True, ud_isChanged := True\<rparr> else d)
      else
        (let d' = (case drv_read rd d of
                     Some (Some v) \<Rightarrow>
                       (if dp_value d \<noteq> v
                        then d\<lparr>dp_oldValue := dp_value d, dp_value := v, dp_valid := True,
                               ud_isChanged := True\<rparr>
                        else d)\<lparr>ud_isValid := True\<rparr>
                   | _ \<Rightarrow> d)
         in (dp_value d', d')))"

definition ReadOnlyInt_setSimulatedValue :: "int \<Rightarrow> int data_point \<Rightarrow> int data_point res" where
  "ReadOnlyInt_setSimulatedValue v d =
     (if ud_simulated d then Inr (d\<lparr>dp_value := v, ud_isValid := True\<rparr>)
      else Inl (Throw ''read only int data can not be set simulated value in not simulated mode''))"

definition ReadWriteInt_getValue :: "int reader \<Rightarrow> int data_point \<Rightarrow> int \<times> int data_point" where
  "ReadWriteInt_getValue rd d =
     (let d' = (case drv_read rd d of
                  Some r \<Rightarrow>
                    (case r of
                       Some v \<Rightarrow>
                         (if v \<noteq> dp_oldValue d
                          then d\<lparr>ud_isChanged := True, dp_oldValue := dp_value d\<rparr> else d)\<lparr>dp_value := v\<rparr>
                     | None \<Rightarrow> d)
                | None \<Rightarrow>
                    if dp_oldValue d \<noteq> dp_value d
                    then d\<lparr>ud_isChanged := True, dp_oldValue := dp_value d\<rparr> else d)
      in (dp_value d', d'))"

definition ReadWriteInt_setValue :: "int writer \<Rightarrow> int \<Rightarrow> int data_point \<Rightarrow> int data_point" where
  "ReadWriteInt_setValue wr v d =
     (case drv_write wr v d of
        Some ok \<Rightarrow>
          if ok then (if v \<noteq> dp_oldValue d then d\<lparr>ud_isChanged := True\<rparr> else d)
                       \<lparr>dp_value := v, ud_isValid := True\<rparr>
          else d
      | None \<Rightarrow> d\<lparr>dp_oldValue := dp_value d, dp_value := v, ud_isValid := True\<rparr>)"

definition ReadOnlyDouble_getValue ::
  "('d \<Rightarrow> 'd \<Rightarrow> bool) \<Rightarrow> 'd reader \<Rightarrow> 'd data_point \<Rightarrow> 'd \<times> 'd data_point" where
  "ReadOnlyDouble_getValue differs rd d =
     (let d' = (case drv_read rd d of
                  Some (Some v) \<Rightarrow>
                    (if differs (dp_value d) v
                     then d\<lparr>dp_oldValue := dp_value d, dp_value := v, ud_isChanged := True\<rparr>
                     else d)\<lparr>ud_isValid := True\<rparr>
                | _ \<Rightarrow> d)
      in (dp_value d', d'))"

definition ReadOnlyDouble_setSimulatedValue :: "'d \<Rightarrow> 'd data_point \<Rightarrow> 'd data_point res" where
  "ReadOnlyDouble_setSimulatedValue v d =
     (if ud_simulated d then Inr (d\<lparr>dp_value := v, ud_isValid := True\<rparr>)
      else Inl (Throw ''set simulated value failed, not in simulated mode!''))"

definition ReadWriteDouble_getValue :: "'d data_point \<Rightarrow> 'd \<times> 'd data_point" where
  "ReadWriteDouble_getValue d = (dp_value d, d)"

definition ReadWriteDouble_setValue ::
  "('d \<Rightarrow> 'd \<Rightarrow> bool) \<Rightarrow> 'd writer \<Rightarrow> 'd \<Rightarrow> 'd data_point \<Rightarrow> 'd data_point" where
  "ReadWriteDouble_setValue differs wr v d =
     (let store = (if differs (dp_value d) v
                   then d\<lparr>dp_oldValue := dp_value d, dp_value := v, ud_isChanged := True\<rparr>
                   else d)\<lparr>ud_isValid := True\<rparr>
      in case drv_write wr v d of
           Some ok \<Rightarrow> if ok then store else d
         | None \<Rightarrow> store)"

definition ReadOnlyString_getValue ::
  "string reader \<Rightarrow> string data_point \<Rightarrow> string \<times> string data_point" where
  "ReadOnlyString_getValue rd d =
     (if ud_simulated d then
        (dp_value d,
         if dp_value d \<noteq> dp_oldValue d
         then d\<lparr>dp_oldValue := dp_value d, dp_valid := True, ud_isChanged := True\<rparr> else d)
      else
        (let d' = (case drv_read rd d of
                     Some (Some v) \<Rightarrow>
                       (if v \<noteq> dp_value d
                        then d\<lparr>dp_oldValue := dp_value d, dp_value := v, dp_valid := True,
                               ud_isChanged := True\<rparr>
                        else d)\<lparr>ud_isValid := True\<rparr>
                   | _ \<Rightarrow> d)
         in (dp_value d', d')))"

definition ReadOnlyString_setSimulatedValue ::
  "string \<Rightarrow> string data_point \<Rightarrow> string data_point res" where
  "ReadOnlyString_setSimulatedValue v d =
     (if ud_simulated d then Inr (d\<lparr>dp_value := v, ud_isValid := True\<rparr>)
      else Inl (Throw ''set simulated value failed, not in simulated mode!''))"

definition ReadWriteString_getValue ::
  "string reader \<Rightarrow> string data_point \<Rightarrow> string \<times> string data_point" where
  "ReadWriteString_getValue rd d =
     (let d' = (case drv_read rd d of
                  Some r \<Rightarrow> (case r of Some v \<Rightarrow> d\<lparr>dp_value := v\<rparr> | None \<Rightarrow> d)
                | None \<Rightarrow>
                    if dp_oldValue d \<noteq> dp_value d
                    then d\<lparr>ud_isChanged := True, dp_oldValue := dp_value d\<rparr> else d)
      in (dp_value d', d'))"

definition ReadWriteString_setValue ::
  "string writer \<Rightarrow> string \<Rightarrow> string data_point \<Rightarrow> string data_point" where
  "ReadWriteString_setValue wr v d =
     (case drv_write wr v d of
        Some ok \<Rightarrow>
          if ok then (if v \<noteq> dp_oldValue d then d\<lparr>ud_isChanged := True\<rparr> else d)
                       \<lparr>dp_value := v, ud_isValid := True\<rparr>
          else d
      | None \<Rightarrow> d\<lparr>dp_oldValue := dp_value d, dp_value := v, ud_isValid := True\<rparr>)"

text \<open>getValueAsString: the integer classes print through a stringstream and read one word back,
  which is the decimal text; the double classes print with the stream's format (a parameter).\<close>
definition int_getValueAsString :: "int data_point \<Rightarrow> string" where
  "int_getValueAsString d = show_int (dp_value d)"

definition double_getValueAsString :: "('d \<Rightarrow> string) \<Rightarrow> 'd data_point \<Rightarrow> string" where
  "double_getValueAsString print d = print (dp_value d)"

definition string_getValueAsString :: "string data_point \<Rightarrow> string" where
  "string_getValueAsString d = dp_value d"

section \<open>Subscriber lists\<close>

lemma subscribe_distinct:
  "distinct (ud_subscribers d) \<Longrightarrow> distinct (ud_subscribers (ud_subscribe s d))"
  by (auto simp: ud_subscribe_def Let_def split: option.splits)

lemma unsubscribe_distinct:
  "distinct (ud_subscribers d) \<Longrightarrow> distinct (ud_subscribers (ud_unsubscribe s d))"
  by (simp add: ud_unsubscribe_def)

lemma subscribe_set:
  "set (ud_subscribers (ud_subscribe (Some s) d)) = insert s (set (ud_subscribers d))"
  by (auto simp: ud_subscribe_def Let_def)

lemma unsubscribe_set:
  "set (ud_subscribers (ud_unsubscribe (Some s) d)) = set (ud_subscribers d) - {s}"
  by (auto simp: ud_unsubscribe_def)

lemma drv_read_simps:
  "drv_read rd (d\<lparr>ud_isChanged := b\<rparr>) = drv_read rd d"
  "drv_read rd (dd\<lparr>dp_value := v\<rparr>) = drv_read rd dd"
  "drv_read rd (dd\<lparr>dp_oldValue := v\<rparr>) = drv_read rd dd"
  by (simp_all add: drv_read_def split: option.splits)

lemma last_slash_None: "last_slash s = None \<longleftrightarrow> CHR ''/'' \<notin> set s"
  by (induction s) (auto split: option.splits)

lemma last_slash_append: "CHR ''/'' \<notin> set b \<Longrightarrow> last_slash (a @ CHR ''/'' # b) = Some (length a)"
proof (induction a)
  case Nil
  then have "last_slash b = None" by (simp add: last_slash_None)
  then show ?case by simp
qed simp

lemma self_name_path: "CHR ''/'' \<notin> set b \<Longrightarrow> self_name (a @ CHR ''/'' # b) = b"
  by (simp add: self_name_def last_slash_append)

section \<open>Interfaces\<close>

lemma distinct_count_one: "distinct xs \<Longrightarrow> count_list xs x = (if x \<in> set xs then 1 else 0)"
  by (induction xs) auto

text \<open>A list of observers: what a subject promises to those that subscribe.\<close>
locale observer_list =
  fixes observers :: "'s \<Rightarrow> 'o list"
    and attach :: "'o option \<Rightarrow> 's \<Rightarrow> 's"
    and detach :: "'o option \<Rightarrow> 's \<Rightarrow> 's"
    and notify :: "'s \<Rightarrow> 'o list \<times> 's"
    and pending :: "'s \<Rightarrow> bool"
  assumes attach_set: "set (observers (attach (Some x) s)) = insert x (set (observers s))"
    and attach_None: "attach None s = s"
    and attach_distinct: "distinct (observers s) \<Longrightarrow> distinct (observers (attach ox s))"
    and attach_pending: "pending (attach (Some x) s)"
    and detach_set: "set (observers (detach (Some x) s)) = set (observers s) - {x}"
    and detach_distinct: "distinct (observers s) \<Longrightarrow> distinct (observers (detach ox s))"
    and notify_calls: "fst (notify s) = observers s"
    and notify_observers: "observers (snd (notify s)) = observers s"
    and notify_done: "\<not> pending (snd (notify s))"
begin

lemma attach_all_set:
  "set (observers (fold (\<lambda>x. attach (Some x)) xs s)) = set xs \<union> set (observers s)"
  by (induction xs arbitrary: s) (auto simp: attach_set)

lemma attach_all_distinct:
  "distinct (observers s) \<Longrightarrow> distinct (observers (fold (\<lambda>x. attach (Some x)) xs s))"
  by (induction xs arbitrary: s) (auto simp: attach_distinct)

lemma attach_all_pending: "xs \<noteq> [] \<Longrightarrow> pending (fold (\<lambda>x. attach (Some x)) xs s)"
  by (induction xs arbitrary: s rule: induct_list012) (auto simp: attach_pending)

text \<open>Every subscriber is called exactly once by a notification.\<close>
lemma notified_once:
  "distinct (observers s) \<Longrightarrow>
   count_list (fst (notify (fold (\<lambda>x. attach (Some x)) xs s))) x =
     (if x \<in> set xs \<union> set (observers s) then 1 else 0)"
  using attach_all_distinct [of s xs] attach_all_set [of xs s]
  by (simp add: notify_calls distinct_count_one)

lemma detached_not_notified: "x \<notin> set (fst (notify (detach (Some x) s)))"
  by (simp add: notify_calls detach_set)

end

interpretation data_subject: observer_list
  ud_subscribers ud_subscribe ud_unsubscribe ud_update ud_isChanged
proof (unfold_locales, goal_cases)
  case (2 s)
  show ?case by (simp add: ud_subscribe_def)
next
  case (4 x s)
  show ?case by (simp add: ud_subscribe_def Let_def)
qed (simp_all add: subscribe_set subscribe_distinct unsubscribe_set unsubscribe_distinct ud_update_def)

end
