(* ===== verification/Object_Manager.thy ===== *)
theory Object_Manager
  imports Data_Point Std_Map Converter
begin

text \<open>
  The namespace of objects (src/object_manager.h, src/object_manager.cc) and the channel
  registration of a driver (src/driver.cc).  Pointers are numbers; the objects they point to are
  kept in two stores, so that an alias (two names, one object) is visible.  The maps of names are
  \<open>omap\<close>s.  A virtual call or a callback is an entry of an event list.  What the virtual functions of
  user classes do to the namespace while it starts is outside the model.
\<close>

section \<open>Data objects of any class\<close>

datatype 'd any_data =
    ROI "int data_point" | RWI "int data_point"
  | ROD "'d data_point" | RWD "'d data_point"
  | ROS "string data_point" | RWS "string data_point"

text \<open>A function of the UntypedData part, applied to a typed object.\<close>
definition lift_ud :: "(untyped_data \<Rightarrow> untyped_data) \<Rightarrow> 'v data_point \<Rightarrow> 'v data_point" where
  "lift_ud f d = untyped_data.extend (f (untyped_data.truncate d))
     (data_point.fields (dp_value d) (dp_oldValue d) (dp_valid d))"

fun on_ud :: "(untyped_data \<Rightarrow> untyped_data) \<Rightarrow> 'd any_data \<Rightarrow> 'd any_data" where
  "on_ud f (ROI d) = ROI (lift_ud f d)"
| "on_ud f (RWI d) = RWI (lift_ud f d)"
| "on_ud f (ROD d) = ROD (lift_ud f d)"
| "on_ud f (RWD d) = RWD (lift_ud f d)"
| "on_ud f (ROS d) = ROS (lift_ud f d)"
| "on_ud f (RWS d) = RWS (lift_ud f d)"

fun the_ud :: "'d any_data \<Rightarrow> untyped_data" where
  "the_ud (ROI d) = untyped_data.truncate d"
| "the_ud (RWI d) = untyped_data.truncate d"
| "the_ud (ROD d) = untyped_data.truncate d"
| "the_ud (RWD d) = untyped_data.truncate d"
| "the_ud (ROS d) = untyped_data.truncate d"
| "the_ud (RWS d) = untyped_data.truncate d"

lemma lift_ud_truncate [simp]: "untyped_data.truncate (lift_ud f d) = f (untyped_data.truncate d)"
  by (simp add: lift_ud_def untyped_data.defs data_point.defs)

lemma lift_ud_value [simp]:
  "dp_value (lift_ud f d) = dp_value d" "dp_oldValue (lift_ud f d) = dp_oldValue d"
  "dp_valid (lift_ud f d) = dp_valid d"
  by (simp_all add: lift_ud_def untyped_data.defs data_point.defs)

lemma the_ud_on_ud [simp]: "the_ud (on_ud f a) = f (the_ud a)"
  by (cases a) simp_all

section \<open>The state\<close>

record ctrl_object =
  ct_fullName :: string
  ct_selfName :: string
  ct_driverNode :: "int option"   \<comment> \<open>the node number when the object is an IDriver\<close>

type_synonym node_tree = "(string, (string, string) omap) omap"

record 'd manager =
  om_entites :: "(string, nat) omap"
  om_datas :: "(string, nat) omap"
  om_dataNodeNames :: node_tree
  om_serviceNodeNames :: node_tree
  om_interval :: int
  om_ctrl_store :: "(nat, ctrl_object) omap"
  om_data_store :: "(nat, 'd any_data) omap"
  om_nodeInfoCallBacks :: "nat list"

definition new_manager :: "'d manager" where
  "new_manager = \<lparr> om_entites = [], om_datas = [], om_dataNodeNames = [], om_serviceNodeNames = [],
     om_interval = 200, om_ctrl_store = [], om_data_store = [], om_nodeInfoCallBacks = [] \<rparr>"

section \<open>NodeName\<close>

definition addNodeName :: "string \<Rightarrow> (string, string) omap \<Rightarrow> (string, string) omap" where
  "addNodeName nodeName nodeList =
     (if om_find nodeList nodeName = None then om_insert nodeName nodeName nodeList else nodeList)"

definition getNodeList :: "(string, string) omap \<Rightarrow> string list" where
  "getNodeList nodeList = map fst nodeList"

fun node_toString_from :: "nat \<Rightarrow> nat \<Rightarrow> string \<Rightarrow> (string, string) omap \<Rightarrow> string" where
  "node_toString_from cnt index seperate [] = []"
| "node_toString_from cnt index seperate (e # es) =
     fst e @ (if index + 1 = cnt then [] else seperate)
       @ node_toString_from cnt (index + 1) seperate es"

definition node_toString :: "string \<Rightarrow> (string, string) omap \<Rightarrow> string" where
  "node_toString seperate nodeList = node_toString_from (length nodeList) 0 seperate nodeList"

section \<open>Registration\<close>

definition CHANNEL_MAX_LENGTH :: nat where "CHANNEL_MAX_LENGTH = 255"

definition quoted :: "string \<Rightarrow> string" where
  "quoted s = CHR 34 # s @ [CHR 34]"

definition registerControlObject ::
  "nat option \<Rightarrow> string \<Rightarrow> 'd manager \<Rightarrow> 'd manager res" where
  "registerControlObject object fullName m =
     (case object of
        None \<Rightarrow> Inr m
      | Some oid \<Rightarrow>
          if fullName = [] then Inr m
          else if CHANNEL_MAX_LENGTH < length fullName then
            Inl (Throw (''Error occured in ObjectManager::registerObject: object '' @ quoted fullName @
                 '' register failed, max length must be shorter than '' @
                 convertToString (int CHANNEL_MAX_LENGTH)))
          else if om_find (om_entites m) fullName = None then
            (case om_find (om_ctrl_store m) oid of
               None \<Rightarrow> Inl Undefined
             | Some c \<Rightarrow>
                 Inr (m\<lparr>om_ctrl_store := om_put oid (c\<lparr>ct_fullName := fullName,
                          ct_selfName := self_name fullName\<rparr>) (om_ctrl_store m),
                        om_entites := om_insert fullName oid (om_entites m)\<rparr>))
          else Inl (Throw (''object '' @ quoted fullName @
                 '' register failed because the full name has been registed!'')))"

text \<open>The loop over the path segments: each non-empty one is a child of the prefix before it.\<close>
fun add_path :: "string \<Rightarrow> string list \<Rightarrow> node_tree \<Rightarrow> node_tree" where
  "add_path nodeName [] tree = tree"
| "add_path nodeName (s # ss) tree =
     (if s = [] then add_path nodeName ss tree
      else
        (let tree' = (case om_find tree nodeName of
                        None \<Rightarrow> om_insert nodeName (addNodeName s []) tree
                      | Some node \<Rightarrow> om_put nodeName (addNodeName s node) tree)
         in add_path (nodeName @ s @ ''/'') ss tree'))"

definition registerData :: "nat option \<Rightarrow> string \<Rightarrow> 'd manager \<Rightarrow> 'd manager res" where
  "registerData untypedData fullName m =
     (case untypedData of
        None \<Rightarrow> Inr m
      | Some oid \<Rightarrow>
          if fullName = [] then Inr m
          else bindR (str_at fullName 0) (\<lambda>c.
            if c \<noteq> CHR ''/'' then
              Inl (Throw (''object '' @ quoted fullName @
                '' register failed because the full name must begin with '' @ quoted ''/'' @ ''!''))
            else if fullName = ''/'' then
              Inl (Throw (''object '' @ quoted fullName @
                '' register failed because the full name must not same as '' @ quoted ''/'' @ ''!''))
            else if om_find (om_datas m) fullName = None then
              (case om_find (om_data_store m) oid of
                 None \<Rightarrow> Inl Undefined
               | Some a \<Rightarrow>
                   bindR (split fullName ''/'') (\<lambda>nodeNames.
                   Inr (m\<lparr>om_data_store := om_put oid (on_ud (setFullName fullName) a) (om_data_store m),
                          om_datas := om_insert fullName oid (om_datas m),
                          om_dataNodeNames := add_path ''/'' nodeNames (om_dataNodeNames m)\<rparr>)))
            else Inl (Throw (''object '' @ quoted fullName @
                '' register failed because the full name has been registed!''))))"

text \<open>Registration by class name.  The class list holds, per class, the control object its
  \<open>createObject\<close> makes, None when the made object is not a ControlObject (the dynamic_cast is then a
  null pointer); \<open>fresh\<close> is the address of the new object.\<close>
definition registerByClass ::
  "(string \<times> ctrl_object option) list \<Rightarrow> nat \<Rightarrow> string \<Rightarrow> string \<Rightarrow> 'd manager \<Rightarrow> 'd manager res" where
  "registerByClass classList fresh className fullName m =
     (case List.find (\<lambda>(n, _). n = className) classList of
        None \<Rightarrow> Inl (Throw (''object '' @ quoted fullName @ '' register failed because class '' @
                 quoted className @ '' can not be found!''))
      | Some (_, None) \<Rightarrow> Inl Null_Deref
      | Some (_, Some c) \<Rightarrow>
          Inr (m\<lparr>om_ctrl_store := om_put fresh (c\<lparr>ct_fullName := fullName,
                   ct_selfName := self_name fullName\<rparr>) (om_ctrl_store m),
                 om_entites := om_insert fullName fresh (om_entites m)\<rparr>))"

definition isObjectRegisted :: "string \<Rightarrow> 'd manager \<Rightarrow> bool" where
  "isObjectRegisted fullName m =
     (if fullName = [] then False
      else if om_find (om_entites m) fullName \<noteq> None then True
      else om_find (om_datas m) fullName \<noteq> None)"

text \<open>The result of a lookup: a pointer to a control object or to a data object.\<close>
datatype object_ref = CtrlRef nat | DataRef nat

definition getObject :: "string \<Rightarrow> 'd manager \<Rightarrow> object_ref option" where
  "getObject fullName m =
     (if fullName = [] then None
      else case om_find (om_entites m) fullName of
             Some oid \<Rightarrow> Some (CtrlRef oid)
           | None \<Rightarrow> map_option DataRef (om_find (om_datas m) fullName))"

text \<open>createAlias prints an error when the alias exists or the object is not registered, and
  inserts in every case; the flag says whether an error was printed.\<close>
definition createAliasCtrl :: "nat option \<Rightarrow> string \<Rightarrow> 'd manager \<Rightarrow> 'd manager \<times> bool" where
  "createAliasCtrl object alias m =
     (case object of
        None \<Rightarrow> (m, False)
      | Some oid \<Rightarrow>
          if alias = [] then (m, False)
          else (m\<lparr>om_entites := om_insert alias oid (om_entites m)\<rparr>,
                om_find (om_entites m) alias \<noteq> None \<or> oid \<notin> snd ` set (om_entites m)))"

definition createAliasData :: "nat option \<Rightarrow> string \<Rightarrow> 'd manager \<Rightarrow> 'd manager \<times> bool" where
  "createAliasData object alias m =
     (case object of
        None \<Rightarrow> (m, False)
      | Some oid \<Rightarrow>
          if alias = [] then (m, False)
          else (m\<lparr>om_datas := om_insert alias oid (om_datas m)\<rparr>,
                om_find (om_datas m) alias \<noteq> None \<or> oid \<notin> snd ` set (om_datas m)))"

definition getChannelNodeList :: "string \<Rightarrow> 'd manager \<Rightarrow> string list" where
  "getChannelNodeList node m =
     (case om_find (om_dataNodeNames m) node of None \<Rightarrow> [] | Some n \<Rightarrow> getNodeList n)"

definition getServiceNodeList :: "string \<Rightarrow> 'd manager \<Rightarrow> string list" where
  "getServiceNodeList node m =
     (case om_find (om_serviceNodeNames m) node of None \<Rightarrow> [] | Some n \<Rightarrow> getNodeList n)"

definition addNodeInfoCallBack :: "nat option \<Rightarrow> 'd manager \<Rightarrow> 'd manager" where
  "addNodeInfoCallBack callback m =
     (case callback of
        None \<Rightarrow> m
      | Some cb \<Rightarrow> if cb \<in> set (om_nodeInfoCallBacks m) then m
                   else m\<lparr>om_nodeInfoCallBacks := om_nodeInfoCallBacks m @ [cb]\<rparr>)"

definition getDatasOfNode :: "int \<Rightarrow> 'd manager \<Rightarrow> (string \<times> nat) list" where
  "getDatasOfNode nodeNumber m =
     filter (\<lambda>(n, oid). case om_find (om_data_store m) oid of
               None \<Rightarrow> False
             | Some a \<Rightarrow> ud_nodeNumber (the_ud a) \<noteq> 0 \<and> ud_channelNumber (the_ud a) \<noteq> 0 \<and>
                         ud_nodeNumber (the_ud a) = nodeNumber) (om_datas m)"

definition om_setInterval :: "int \<Rightarrow> 'd manager \<Rightarrow> 'd manager" where
  "om_setInterval interval m = (if interval < 0 then m else m\<lparr>om_interval := interval\<rparr>)"

section \<open>Drivers\<close>

text \<open>The registration of one channel, by data type and access mode.\<close>
definition regist_channel :: "nat \<Rightarrow> untyped_data \<Rightarrow> untyped_data" where
  "regist_channel driver d =
     (case (ud_dataType d, ud_accessMode d) of
        (INTDATA, READONLY) \<Rightarrow> registChannelRead (Some RegReadInt) (Some driver) d
      | (DOUBLEDATA, READONLY) \<Rightarrow> registChannelRead (Some RegReadDouble) (Some driver) d
      | (STRINGDATA, READONLY) \<Rightarrow> registChannelRead (Some RegReadString) (Some driver) d
      | (INTDATA, READWRITE) \<Rightarrow>
          registChannelWrite (Some RegWriteInt) (Some driver)
            (registChannelRead (Some RegReadInt) (Some driver) d)
      | (DOUBLEDATA, READWRITE) \<Rightarrow>
          registChannelWrite (Some RegWriteDouble) (Some driver)
            (registChannelRead (Some RegReadDouble) (Some driver) d)
      | (STRINGDATA, READWRITE) \<Rightarrow>
          registChannelWrite (Some RegWriteString) (Some driver)
            (registChannelRead (Some RegReadString) (Some driver) d)
      | _ \<Rightarrow> d)"

definition on_store :: "nat \<Rightarrow> (untyped_data \<Rightarrow> untyped_data) \<Rightarrow> 'd manager \<Rightarrow> 'd manager" where
  "on_store oid f m =
     (case om_find (om_data_store m) oid of
        None \<Rightarrow> m
      | Some a \<Rightarrow> m\<lparr>om_data_store := om_put oid (on_ud f a) (om_data_store m)\<rparr>)"

definition registChannels :: "nat \<Rightarrow> int \<Rightarrow> 'd manager \<Rightarrow> 'd manager" where
  "registChannels driver nodeNumber m =
     fold (\<lambda>(n, oid). on_store oid (regist_channel driver)) (getDatasOfNode nodeNumber m) m"

section \<open>Starting and stopping the namespace\<close>

datatype phase = Make | Verify | Init | Startup

text \<open>The callback lists: for each phase those called before and after.  add\<dots>CallBack keeps a
  list without duplicates; a null callback is stored but skipped when called.\<close>
record callbacks =
  cb_begin :: "phase \<Rightarrow> nat option list"
  cb_after :: "phase \<Rightarrow> nat option list"

definition add_callback :: "nat option \<Rightarrow> nat option list \<Rightarrow> nat option list" where
  "add_callback callback l = (if callback \<in> set l then l else l @ [callback])"

definition addBeginCallBack :: "phase \<Rightarrow> nat option \<Rightarrow> callbacks \<Rightarrow> callbacks" where
  "addBeginCallBack p cb c = c\<lparr>cb_begin := (cb_begin c)(p := add_callback cb (cb_begin c p))\<rparr>"

definition addAfterCallBack :: "phase \<Rightarrow> nat option \<Rightarrow> callbacks \<Rightarrow> callbacks" where
  "addAfterCallBack p cb c = c\<lparr>cb_after := (cb_after c)(p := add_callback cb (cb_after c p))\<rparr>"

datatype ns_event =
    RegistChannels nat
  | BeginCall phase nat nat nat string    \<comment> \<open>callback, index, size, name\<close>
  | Run phase nat
  | AfterCall phase nat nat nat string
  | Shutdown nat
  | DeleteCtrl nat
  | DeleteData nat

definition full_name_of :: "'d manager \<Rightarrow> nat \<Rightarrow> string" where
  "full_name_of m oid =
     (case om_find (om_ctrl_store m) oid of None \<Rightarrow> [] | Some c \<Rightarrow> ct_fullName c)"

text \<open>One object of one phase: the callbacks before, the virtual function, the callbacks after.\<close>
definition phase_step :: "callbacks \<Rightarrow> 'd manager \<Rightarrow> phase \<Rightarrow> nat \<Rightarrow> nat \<Rightarrow> ns_event list" where
  "phase_step cbs m p index oid =
     (let n = length (om_entites m); name = full_name_of m oid
      in List.map_filter (\<lambda>c. map_option (\<lambda>k. BeginCall p k index n name) c) (cb_begin cbs p)
         @ [Run p oid]
         @ List.map_filter (\<lambda>c. map_option (\<lambda>k. AfterCall p k index n name) c) (cb_after cbs p))"

fun phase_loop :: "callbacks \<Rightarrow> 'd manager \<Rightarrow> phase \<Rightarrow> nat \<Rightarrow> (string \<times> nat) list \<Rightarrow> ns_event list" where
  "phase_loop cbs m p index [] = []"
| "phase_loop cbs m p index (e # es) =
     phase_step cbs m p index (snd e) @ phase_loop cbs m p (index + 1) es"

text \<open>The first loop of startNamespace registers the channels of every driver.\<close>
fun regist_drivers :: "(string \<times> nat) list \<Rightarrow> 'd manager \<Rightarrow> ns_event list \<times> 'd manager" where
  "regist_drivers [] m = ([], m)"
| "regist_drivers (e # es) m =
     (case om_find (om_ctrl_store m) (snd e) of
        Some c \<Rightarrow>
          (case ct_driverNode c of
             Some node \<Rightarrow>
               (case regist_drivers es (registChannels (snd e) node m) of
                  (ev, m') \<Rightarrow> (RegistChannels (snd e) # ev, m'))
           | None \<Rightarrow> regist_drivers es m)
      | None \<Rightarrow> regist_drivers es m)"

definition startNamespace :: "callbacks \<Rightarrow> 'd manager \<Rightarrow> ns_event list \<times> 'd manager" where
  "startNamespace cbs m =
     (case regist_drivers (om_entites m) m of
        (ev, m') \<Rightarrow>
          (ev @ phase_loop cbs m' Make 0 (om_entites m')
              @ phase_loop cbs m' Verify 0 (om_entites m')
              @ phase_loop cbs m' Init 0 (om_entites m')
              @ phase_loop cbs m' Startup 0 (om_entites m'), m'))"

text \<open>Deleting the objects of a map in order; a second delete of one object, or the dynamic_cast of a
  deleted one, is undefined.\<close>
fun delete_all :: "(nat \<Rightarrow> ns_event) \<Rightarrow> nat list \<Rightarrow> nat list \<Rightarrow> ns_event list res" where
  "delete_all ev gone [] = Inr []"
| "delete_all ev gone (i # is) =
     (if i \<in> set gone then Inl Undefined
      else mapR ((#) (ev i)) (delete_all ev (i # gone) is))"

definition shutdownNamespace :: "'d manager \<Rightarrow> ns_event list res" where
  "shutdownNamespace m =
     bindR (delete_all DeleteCtrl [] (map snd (om_entites m))) (\<lambda>c.
     bindR (delete_all DeleteData [] (map snd (om_datas m))) (\<lambda>d.
     Inr (map (\<lambda>e. Shutdown (snd e)) (om_entites m) @ c @ d)))"

section \<open>The scan of execute\<close>

text \<open>One read of a data object by data type, access mode and dynamic class.\<close>
definition scan_read ::
  "('d \<Rightarrow> 'd \<Rightarrow> bool) \<Rightarrow> int reader \<Rightarrow> 'd reader \<Rightarrow> string reader \<Rightarrow> 'd any_data \<Rightarrow> 'd any_data" where
  "scan_read differs ri rd rs a =
     (let t = ud_dataType (the_ud a); m = ud_accessMode (the_ud a)
      in if m = READONLY \<and> t = INTDATA then
           (case a of ROI d \<Rightarrow> ROI (snd (ReadOnlyInt_getValue ri d)) | _ \<Rightarrow> a)
         else if m = READONLY \<and> t = DOUBLEDATA then
           (case a of ROD d \<Rightarrow> ROD (snd (ReadOnlyDouble_getValue differs rd d)) | _ \<Rightarrow> a)
         else if m = READONLY \<and> t = STRINGDATA then
           (case a of ROS d \<Rightarrow> ROS (snd (ReadOnlyString_getValue rs d)) | _ \<Rightarrow> a)
         else if m = READWRITE \<and> t = INTDATA then
           (case a of RWI d \<Rightarrow> RWI (snd (ReadWriteInt_getValue ri d)) | _ \<Rightarrow> a)
         else if m = READWRITE \<and> t = DOUBLEDATA then
           (case a of RWD d \<Rightarrow> RWD (snd (ReadWriteDouble_getValue d)) | _ \<Rightarrow> a)
         else if m = READWRITE \<and> t = STRINGDATA then
           (case a of RWS d \<Rightarrow> RWS (snd (ReadWriteString_getValue rs d)) | _ \<Rightarrow> a)
         else a)"

text \<open>One object: read it and, when it is changed, update its subscribers.  A notification is the pair
  of the subscriber and the object as it is at that moment.\<close>
definition scan_one ::
  "('d \<Rightarrow> 'd \<Rightarrow> bool) \<Rightarrow> int reader \<Rightarrow> 'd reader \<Rightarrow> string reader \<Rightarrow> 'd any_data \<Rightarrow>
     (nat \<times> 'd any_data) list \<times> 'd any_data" where
  "scan_one differs ri rd rs a =
     (let a' = scan_read differs ri rd rs a
      in if ud_isChanged (the_ud a')
         then (map (\<lambda>s. (s, a')) (fst (ud_update (the_ud a'))), on_ud (\<lambda>u. snd (ud_update u)) a')
         else ([], a'))"

fun scan_loop ::
  "('d \<Rightarrow> 'd \<Rightarrow> bool) \<Rightarrow> int reader \<Rightarrow> 'd reader \<Rightarrow> string reader \<Rightarrow> (string \<times> nat) list \<Rightarrow>
     'd manager \<Rightarrow> ((nat \<times> 'd any_data) list \<times> 'd manager) res" where
  "scan_loop differs ri rd rs [] m = Inr ([], m)"
| "scan_loop differs ri rd rs (e # es) m =
     (case om_find (om_data_store m) (snd e) of
        None \<Rightarrow> Inl Undefined
      | Some a \<Rightarrow>
          (case scan_one differs ri rd rs a of
             (ev, a') \<Rightarrow>
               mapR (\<lambda>(evs, m'). (ev @ evs, m'))
                 (scan_loop differs ri rd rs es
                    (m\<lparr>om_data_store := om_put (snd e) a' (om_data_store m)\<rparr>))))"

text \<open>One round of the endless loop of execute, before it sleeps.\<close>
definition scan_round ::
  "('d \<Rightarrow> 'd \<Rightarrow> bool) \<Rightarrow> int reader \<Rightarrow> 'd reader \<Rightarrow> string reader \<Rightarrow> 'd manager \<Rightarrow>
     ((nat \<times> 'd any_data) list \<times> 'd manager) res" where
  "scan_round differs ri rd rs m = scan_loop differs ri rd rs (om_datas m) m"

section \<open>Well-formedness\<close>

text \<open>The stores and maps are ordered maps, every name denotes a live object, and every data name
  starts with a slash.\<close>
definition tree_ok :: "node_tree \<Rightarrow> bool" where
  "tree_ok t = (om_ok t \<and> (\<forall>e \<in> set t. om_ok (snd e)))"

definition manager_ok :: "'d manager \<Rightarrow> bool" where
  "manager_ok m =
     (om_ok (om_entites m) \<and> om_ok (om_datas m) \<and> om_ok (om_ctrl_store m) \<and>
      om_ok (om_data_store m) \<and> tree_ok (om_dataNodeNames m) \<and>
      (\<forall>e \<in> set (om_entites m). om_has (om_ctrl_store m) (snd e)) \<and>
      (\<forall>e \<in> set (om_datas m). om_has (om_data_store m) (snd e)))"

lemma om_has_put [simp]: "om_ok m \<Longrightarrow> om_has (om_put k v m) j \<longleftrightarrow> j = k \<or> om_has m j"
  by (simp add: om_has_def om_find_put)

lemma set_insert_new_pairs:
  "om_ok m \<Longrightarrow> e \<in> set (om_insert k v m) \<Longrightarrow> e = (k, v) \<or> e \<in> set m"
  by (auto simp: set_om_insert_pairs split: if_splits)

lemma manager_ok_new: "manager_ok new_manager"
  by (simp add: manager_ok_def new_manager_def tree_ok_def)

lemma om_ok_addNodeName: "om_ok l \<Longrightarrow> om_ok (addNodeName s l)"
  by (simp add: addNodeName_def om_ok_insert)

lemma om_find_addNodeName:
  "om_ok l \<Longrightarrow> om_find (addNodeName s l) j \<noteq> None \<longleftrightarrow> j = s \<or> om_find l j \<noteq> None"
  by (auto simp: addNodeName_def om_find_insert)

lemma tree_ok_node: "tree_ok t \<Longrightarrow> om_find t p = Some l \<Longrightarrow> om_ok l"
  using om_find_in_set [of t p l] by (force simp: tree_ok_def)

text \<open>One step of the path loop.\<close>
definition add_child :: "string \<Rightarrow> string \<Rightarrow> node_tree \<Rightarrow> node_tree" where
  "add_child p s tree =
     (case om_find tree p of
        None \<Rightarrow> om_insert p (addNodeName s []) tree
      | Some node \<Rightarrow> om_put p (addNodeName s node) tree)"

lemma add_path_Cons: "s \<noteq> [] \<Longrightarrow>
   add_path p (s # ss) tree = add_path (p @ s @ ''/'') ss (add_child p s tree)"
  by (simp add: add_child_def Let_def)

lemma add_child_put: "tree_ok tree \<Longrightarrow>
   \<exists>l. om_ok l \<and> add_child p s tree = om_put p (addNodeName s l) tree \<and>
       l = (case om_find tree p of None \<Rightarrow> [] | Some n \<Rightarrow> n)"
  by (auto simp: add_child_def om_insert_def om_has_def tree_ok_node split: option.split)

lemma tree_ok_add_child: "tree_ok tree \<Longrightarrow> tree_ok (add_child p s tree)"
proof -
  assume t: "tree_ok tree"
  then obtain l where l: "om_ok l" "add_child p s tree = om_put p (addNodeName s l) tree"
    using add_child_put by blast
  then show ?thesis using t om_ok_addNodeName [OF l(1)]
    by (auto simp: tree_ok_def om_ok_put set_om_put_pairs)
qed

lemma tree_ok_add_path: "tree_ok tree \<Longrightarrow> tree_ok (add_path p ss tree)"
proof (induction ss arbitrary: p tree)
  case (Cons s ss)
  show ?case
  proof (cases "s = []")
    case False
    show ?thesis unfolding add_path_Cons [OF False]
      by (rule Cons.IH [OF tree_ok_add_child [OF Cons.prems]])
  qed (use Cons in simp)
qed simp

section \<open>The node tree\<close>

text \<open>The parent/child pairs of a path.\<close>
fun path_edges :: "string \<Rightarrow> string list \<Rightarrow> (string \<times> string) list" where
  "path_edges p [] = []"
| "path_edges p (s # ss) =
     (if s = [] then path_edges p ss else (p, s) # path_edges (p @ s @ ''/'') ss)"

definition tree_edge :: "node_tree \<Rightarrow> string \<Rightarrow> string \<Rightarrow> bool" where
  "tree_edge t p n =
     (case om_find t p of None \<Rightarrow> False | Some l \<Rightarrow> om_find l n \<noteq> None)"

lemma tree_edge_add_child:
  "tree_ok t \<Longrightarrow> tree_edge (add_child p s t) q n \<longleftrightarrow> tree_edge t q n \<or> (q = p \<and> n = s)"
proof -
  assume t: "tree_ok t"
  then obtain l where l: "om_ok l" "add_child p s t = om_put p (addNodeName s l) t"
    "l = (case om_find t p of None \<Rightarrow> [] | Some n \<Rightarrow> n)"
    using add_child_put [OF t, of p s] by blast
  have ok: "om_ok t" using t by (simp add: tree_ok_def)
  show ?thesis
  proof (cases "q = p")
    case True
    then show ?thesis using om_find_addNodeName [OF l(1), of s n] l(3)
      by (auto simp: tree_edge_def l(2) om_find_put [OF ok] split: option.splits)
  next
    case False
    then show ?thesis by (simp add: tree_edge_def l(2) om_find_put [OF ok])
  qed
qed

lemma tree_edge_add_path:
  "tree_ok t \<Longrightarrow> tree_edge (add_path p ss t) q n \<longleftrightarrow> tree_edge t q n \<or> (q, n) \<in> set (path_edges p ss)"
proof (induction ss arbitrary: p t)
  case (Cons s ss)
  show ?case
  proof (cases "s = []")
    case False
    have "tree_edge (add_path p (s # ss) t) q n \<longleftrightarrow>
        tree_edge (add_child p s t) q n \<or> (q, n) \<in> set (path_edges (p @ s @ ''/'') ss)"
      unfolding add_path_Cons [OF False] by (rule Cons.IH [OF tree_ok_add_child [OF Cons.prems]])
    then show ?thesis using tree_edge_add_child [OF Cons.prems, of p s q n] False by auto
  qed (use Cons in simp)
qed simp

lemma getChannelNodeList_edge:
  "n \<in> set (getChannelNodeList p m) \<longleftrightarrow> tree_edge (om_dataNodeNames m) p n"
  by (auto simp: getChannelNodeList_def tree_edge_def getNodeList_def om_has_iff [symmetric]
      om_has_def split: option.split)

section \<open>Registration\<close>

lemma split_path_ok: "hd s = CHR ''/'' \<Longrightarrow> s \<noteq> [] \<Longrightarrow> is_ok (split s ''/'')"
proof -
  assume s: "hd s = CHR ''/''" "s \<noteq> []"
  then have "CHR ''/'' \<in> set s" by (metis hd_in_set)
  then have "\<not> (\<forall>c \<in> set s. c = CHR '' '')" by (auto dest: bspec)
  then obtain t where t: "trim s = Inr t" using s(2) by (simp add: trim_eq)
  then have "is_ok (split_loop ''/'' t)" by (intro split_loop_defined trim_result) auto
  then show ?thesis by (simp add: split_def t)
qed

lemma registerData_cases:
  assumes "om_find (om_data_store m) oid = Some a" "fullName \<noteq> []" "hd fullName = CHR ''/''"
    "fullName \<noteq> ''/''" "om_find (om_datas m) fullName = None"
  shows "\<exists>segs. split fullName ''/'' = Inr segs \<and>
     registerData (Some oid) fullName m = Inr (m
       \<lparr>om_data_store := om_put oid (on_ud (setFullName fullName) a) (om_data_store m),
        om_datas := om_insert fullName oid (om_datas m),
        om_dataNodeNames := add_path ''/'' segs (om_dataNodeNames m)\<rparr>)"
proof -
  obtain segs where "split fullName ''/'' = Inr segs"
    using split_path_ok [OF assms(3,2)] by (auto simp: is_ok_iff)
  moreover have "str_at fullName 0 = Inr (CHR ''/'')"
    using assms(2,3) by (simp add: str_at_def hd_conv_nth)
  ultimately show ?thesis using assms by (simp add: registerData_def)
qed

lemma registerData_Inr:
  assumes "registerData (Some oid) fullName m = Inr m'" "fullName \<noteq> []"
  shows "\<exists>a segs. om_find (om_data_store m) oid = Some a \<and> hd fullName = CHR ''/'' \<and>
     fullName \<noteq> ''/'' \<and> om_find (om_datas m) fullName = None \<and> split fullName ''/'' = Inr segs \<and>
     m' = m\<lparr>om_data_store := om_put oid (on_ud (setFullName fullName) a) (om_data_store m),
        om_datas := om_insert fullName oid (om_datas m),
        om_dataNodeNames := add_path ''/'' segs (om_dataNodeNames m)\<rparr>"
proof -
  have at: "str_at fullName 0 = Inr (hd fullName)"
    using assms(2) by (simp add: str_at_def hd_conv_nth)
  have h: "hd fullName = CHR ''/''" "fullName \<noteq> ''/''" "om_find (om_datas m) fullName = None"
    using assms by (auto simp: registerData_def at split: if_splits)
  then obtain a where a: "om_find (om_data_store m) oid = Some a"
    using assms by (auto simp: registerData_def at split: option.splits)
  show ?thesis using registerData_cases [OF a assms(2) h] a h assms(1) by auto
qed

lemma manager_ok_registerData:
  assumes "manager_ok m" "registerData d fullName m = Inr m'"
  shows "manager_ok m'"
proof (cases d)
  case None
  with assms show ?thesis by (simp add: registerData_def)
next
  case (Some oid)
  show ?thesis
  proof (cases "fullName = []")
    case True
    with assms Some show ?thesis by (simp add: registerData_def)
  next
    case False
    from registerData_Inr [OF assms(2) [unfolded Some] False] obtain a segs where
      "om_find (om_data_store m) oid = Some a" and
      m': "m' = m\<lparr>om_data_store := om_put oid (on_ud (setFullName fullName) a) (om_data_store m),
        om_datas := om_insert fullName oid (om_datas m),
        om_dataNodeNames := add_path ''/'' segs (om_dataNodeNames m)\<rparr>" by blast
    then show ?thesis using assms(1)
      by (auto simp: manager_ok_def m' om_ok_put om_ok_insert tree_ok_add_path
          dest!: set_insert_new_pairs)
  qed
qed

definition okR :: "'d manager res \<Rightarrow> bool" where
  "okR r = (case r of Inl _ \<Rightarrow> True | Inr m \<Rightarrow> manager_ok m)"

lemma okR_simps [simp]: "okR (Inl e)" "okR (Inr m) = manager_ok m"
  by (simp_all add: okR_def)

lemma okR_registerControlObject:
  "manager_ok m \<Longrightarrow> okR (registerControlObject d fullName m)"
  by (auto simp: registerControlObject_def manager_ok_def om_ok_put om_ok_insert
      split: option.split dest!: set_insert_new_pairs)

lemma okR_registerByClass:
  "manager_ok m \<Longrightarrow> okR (registerByClass cl fresh cn fullName m)"
  by (auto simp: registerByClass_def manager_ok_def om_ok_put om_ok_insert
      split: option.split dest!: set_insert_new_pairs)

lemma manager_ok_registerControlObject:
  "manager_ok m \<Longrightarrow> registerControlObject d fullName m = Inr m' \<Longrightarrow> manager_ok m'"
  using okR_registerControlObject [of m d fullName] by simp

lemma manager_ok_registerByClass:
  "manager_ok m \<Longrightarrow> registerByClass cl fresh cn fullName m = Inr m' \<Longrightarrow> manager_ok m'"
  using okR_registerByClass [of m cl fresh cn fullName] by simp

text \<open>createAlias keeps the maps ordered, but it keeps names live only when the object is.\<close>
lemma manager_ok_createAliasData:
  "manager_ok m \<Longrightarrow> om_has (om_data_store m) oid \<Longrightarrow> manager_ok (fst (createAliasData (Some oid) al m))"
  by (auto simp: createAliasData_def manager_ok_def om_ok_insert dest!: set_insert_new_pairs)

lemma manager_ok_createAliasCtrl:
  "manager_ok m \<Longrightarrow> om_has (om_ctrl_store m) oid \<Longrightarrow> manager_ok (fst (createAliasCtrl (Some oid) al m))"
  by (auto simp: createAliasCtrl_def manager_ok_def om_ok_insert dest!: set_insert_new_pairs)

lemma manager_ok_on_store: "manager_ok m \<Longrightarrow> manager_ok (on_store oid f m)"
  by (auto simp: on_store_def manager_ok_def om_ok_put split: option.splits)

lemma manager_ok_registChannels: "manager_ok m \<Longrightarrow> manager_ok (registChannels drv node m)"
proof -
  have "manager_ok m \<Longrightarrow> manager_ok (fold (\<lambda>(n, oid). on_store oid (regist_channel drv)) xs m)" for xs
    by (induction xs arbitrary: m) (auto simp: manager_ok_on_store split: prod.split)
  then show "manager_ok m \<Longrightarrow> ?thesis" by (simp add: registChannels_def)
qed

section \<open>Shutdown\<close>

lemma delete_all_ok: "is_ok (delete_all ev gone is) \<longleftrightarrow> distinct is \<and> set is \<inter> set gone = {}"
  by (induction "is" arbitrary: gone) (auto simp: is_ok_iff res_simps)

lemma delete_all_events: "delete_all ev gone is = Inr r \<Longrightarrow> r = map ev is"
  by (induction "is" arbitrary: gone r) (auto simp: res_simps split: if_splits)

lemma shutdown_ok_iff:
  "is_ok (shutdownNamespace m) \<longleftrightarrow>
     distinct (map snd (om_entites m)) \<and> distinct (map snd (om_datas m))"
proof -
  have "is_ok (shutdownNamespace m) \<longleftrightarrow>
      is_ok (delete_all DeleteCtrl [] (map snd (om_entites m))) \<and>
      is_ok (delete_all DeleteData [] (map snd (om_datas m)))"
    by (auto simp: shutdownNamespace_def is_ok_iff res_simps)
  then show ?thesis by (simp add: delete_all_ok)
qed

section \<open>Start\<close>

fun is_run :: "phase \<Rightarrow> ns_event \<Rightarrow> bool" where
  "is_run p (Run q i) = (p = q)"
| "is_run p _ = False"

fun run_of :: "ns_event \<Rightarrow> (phase \<times> nat) list" where
  "run_of (Run p i) = [(p, i)]"
| "run_of _ = []"

lemma concat_run_begin:
  "concat (map run_of (List.map_filter (\<lambda>c. map_option (\<lambda>k. BeginCall p k i n s) c) cs)) = []"
  "concat (map run_of (List.map_filter (\<lambda>c. map_option (\<lambda>k. AfterCall p k i n s) c) cs)) = []"
  by (induction cs) (auto simp: List.map_filter_simps split: option.splits)

lemma runs_of_phase:
  "concat (map run_of (phase_loop cbs m p index es)) = map (\<lambda>e. (p, snd e)) es"
  by (induction es arbitrary: index) (simp_all add: phase_step_def Let_def concat_run_begin)

lemma runs_regist: "concat (map run_of (fst (regist_drivers es m))) = []"
  by (induction es m rule: regist_drivers.induct) (auto split: option.splits prod.splits)

lemma on_store_ok: "om_ok (om_data_store m) \<Longrightarrow> om_ok (om_data_store (on_store oid f m))"
  by (auto simp: on_store_def om_ok_put split: option.split)

lemma on_store_entites [simp]: "om_entites (on_store oid f m) = om_entites m"
  by (auto simp: on_store_def split: option.splits)

lemma registChannels_entites [simp]: "om_entites (registChannels d n m) = om_entites m"
proof -
  have "om_entites (fold (\<lambda>(n, oid). on_store oid (regist_channel d)) xs m) = om_entites m" for xs
    by (induction xs arbitrary: m) (auto split: prod.split)
  then show ?thesis by (simp add: registChannels_def)
qed

lemma regist_drivers_entites:
  fixes m :: "'a manager"
  shows "om_entites (snd (regist_drivers es m)) = om_entites m"
proof (induction es arbitrary: m)
  case (Cons e es)
  have "om_entites (snd (case regist_drivers es x of (ev, m') \<Rightarrow> (f ev, m'))) = om_entites x" for x :: "'a manager" and f :: "ns_event list \<Rightarrow> ns_event list"
    using Cons [of x] by (cases "regist_drivers es x") simp
  then show ?case using Cons by (simp split: option.split)
qed simp

lemma start_runs:
  "concat (map run_of (fst (startNamespace cbs m))) =
     concat (map (\<lambda>p. map (\<lambda>e. (p, snd e)) (om_entites m)) [Make, Verify, Init, Startup])"
  using runs_regist [of "om_entites m" m] regist_drivers_entites [of "om_entites m" m]
  by (auto simp: startNamespace_def runs_of_phase split: prod.splits)

section \<open>Scan\<close>

lemma scan_one_clears: "\<not> ud_isChanged (the_ud (snd (scan_one dif ri rd rs a)))"
  by (auto simp: scan_one_def Let_def ud_update_def)

lemma scan_loop_store:
  "om_ok (om_data_store m) \<Longrightarrow> scan_loop dif ri rd rs es m = Inr (ev, m') \<Longrightarrow>
   om_ok (om_data_store m') \<and>
   (\<forall>i. i \<notin> snd ` set es \<longrightarrow> om_find (om_data_store m') i = om_find (om_data_store m) i) \<and>
   (\<forall>i \<in> snd ` set es. \<exists>a. om_find (om_data_store m') i = Some a \<and> \<not> ud_isChanged (the_ud a))"
proof (induction es arbitrary: m ev)
  case (Cons e es)
  obtain a where a: "om_find (om_data_store m) (snd e) = Some a"
    using Cons.prems(2) by (auto split: option.splits)
  obtain ev1 a' where o: "scan_one dif ri rd rs a = (ev1, a')" by force
  let ?m1 = "m\<lparr>om_data_store := om_put (snd e) a' (om_data_store m)\<rparr>"
  obtain evs where r: "scan_loop dif ri rd rs es ?m1 = Inr (evs, m')"
    using Cons.prems(2) a o by (auto simp: res_simps)
  have ok1: "om_ok (om_data_store ?m1)" using Cons.prems(1) by (simp add: om_ok_put)
  have a'c: "\<not> ud_isChanged (the_ud a')" using scan_one_clears [of dif ri rd rs a] o by simp
  from Cons.IH [OF ok1 r] have
    IH: "om_ok (om_data_store m')"
      "\<And>i. i \<notin> snd ` set es \<Longrightarrow> om_find (om_data_store m') i = om_find (om_data_store ?m1) i"
      "\<And>i. i \<in> snd ` set es \<Longrightarrow> \<exists>a. om_find (om_data_store m') i = Some a \<and> \<not> ud_isChanged (the_ud a)"
    by auto
  have "\<exists>a. om_find (om_data_store m') i = Some a \<and> \<not> ud_isChanged (the_ud a)"
    if "i = snd e" for i
    using IH(2,3) [of i] a'c that Cons.prems(1) by (cases "i \<in> snd ` set es") (auto simp: om_find_put)
  then show ?case using IH Cons.prems(1) by (auto simp: om_find_put)
qed auto

lemma scan_loop_total:
  "om_ok (om_data_store m) \<Longrightarrow> \<forall>e \<in> set es. om_has (om_data_store m) (snd e) \<Longrightarrow>
   \<exists>r. scan_loop dif ri rd rs es m = Inr r"
proof (induction es arbitrary: m)
  case (Cons e es)
  obtain a where a: "om_find (om_data_store m) (snd e) = Some a"
    using Cons.prems(2) by (auto simp: om_has_def)
  obtain ev1 a' where o: "scan_one dif ri rd rs a = (ev1, a')" by force
  let ?m1 = "m\<lparr>om_data_store := om_put (snd e) a' (om_data_store m)\<rparr>"
  have "om_ok (om_data_store ?m1)" "\<forall>e \<in> set es. om_has (om_data_store ?m1) (snd e)"
    using Cons.prems by (simp_all add: om_ok_put)
  from Cons.IH [OF this] obtain r where "scan_loop dif ri rd rs es ?m1 = Inr r" by blast
  then show ?case using a o by simp
qed simp

text \<open>One object's part of a round: the notifications and the object afterwards.\<close>
lemma scan_one_events:
  "(s, d) \<in> set (fst (scan_one dif ri rd rs a)) \<longleftrightarrow>
     d = scan_read dif ri rd rs a \<and> ud_isChanged (the_ud d) \<and> s \<in> set (ud_subscribers (the_ud d))"
  by (auto simp: scan_one_def Let_def ud_update_def)

lemma scan_loop_distinct:
  "om_ok (om_data_store m) \<Longrightarrow> distinct (map snd es) \<Longrightarrow>
   \<forall>e \<in> set es. om_has (om_data_store m) (snd e) \<Longrightarrow>
   \<exists>m'. scan_loop dif ri rd rs es m =
     Inr (concat (map (\<lambda>e. fst (scan_one dif ri rd rs (the (om_find (om_data_store m) (snd e))))) es), m') \<and>
     (\<forall>e \<in> set es. om_find (om_data_store m') (snd e) =
        Some (snd (scan_one dif ri rd rs (the (om_find (om_data_store m) (snd e))))))"
proof (induction es arbitrary: m)
  case (Cons e es)
  obtain a where a: "om_find (om_data_store m) (snd e) = Some a"
    using Cons.prems(3) by (auto simp: om_has_def)
  obtain ev1 a' where o: "scan_one dif ri rd rs a = (ev1, a')" by force
  let ?m1 = "m\<lparr>om_data_store := om_put (snd e) a' (om_data_store m)\<rparr>"
  have same: "om_find (om_data_store ?m1) (snd f) = om_find (om_data_store m) (snd f)" if "f \<in> set es" for f
    using that Cons.prems(1,2) by (simp add: om_find_put) (metis imageI)
  have "om_ok (om_data_store ?m1)" "\<forall>e \<in> set es. om_has (om_data_store ?m1) (snd e)" "distinct (map snd es)"
    using Cons.prems by (simp_all add: om_ok_put)
  from Cons.IH [OF this(1,3,2)] obtain m' where
    r: "scan_loop dif ri rd rs es ?m1 =
      Inr (concat (map (\<lambda>e. fst (scan_one dif ri rd rs (the (om_find (om_data_store ?m1) (snd e))))) es), m')"
    and st: "\<forall>e \<in> set es. om_find (om_data_store m') (snd e) =
        Some (snd (scan_one dif ri rd rs (the (om_find (om_data_store ?m1) (snd e)))))"
    by blast
  have evs: "map (\<lambda>e. fst (scan_one dif ri rd rs (the (om_find (om_data_store ?m1) (snd e))))) es =
      map (\<lambda>e. fst (scan_one dif ri rd rs (the (om_find (om_data_store m) (snd e))))) es"
    using same by (intro map_cong refl) (simp only:)
  have "om_find (om_data_store m') (snd e) = Some a'"
    using scan_loop_store [OF \<open>om_ok (om_data_store ?m1)\<close> r] Cons.prems(1,2)
    by (simp add: om_find_put image_iff)
  moreover have "om_find (om_data_store m') (snd f) =
      Some (snd (scan_one dif ri rd rs (the (om_find (om_data_store m) (snd f)))))" if "f \<in> set es" for f
    using st same [OF that] that by simp
  ultimately show ?case using a o r unfolding evs by auto
qed simp

lemma registerData_spec:
  assumes ok: "om_ok (om_datas m)" "om_ok (om_data_store m)"
    and live: "om_find (om_data_store m) oid = Some a"
    and path: "fullName \<noteq> []" "hd fullName = CHR ''/''" "fullName \<noteq> ''/''"
    and free: "om_find (om_datas m) fullName = None" "om_find (om_entites m) fullName = None"
  shows "\<exists>m' segs. registerData (Some oid) fullName m = Inr m' \<and> split fullName ''/'' = Inr segs \<and>
     om_dataNodeNames m' = add_path ''/'' segs (om_dataNodeNames m) \<and>
     getObject fullName m' = Some (DataRef oid) \<and>
     (\<forall>n. n \<noteq> fullName \<longrightarrow> getObject n m' = getObject n m) \<and>
     om_find (om_data_store m') oid = Some (on_ud (setFullName fullName) a)"
proof -
  obtain segs where segs: "split fullName ''/'' = Inr segs" and
    r: "registerData (Some oid) fullName m = Inr (m
       \<lparr>om_data_store := om_put oid (on_ud (setFullName fullName) a) (om_data_store m),
        om_datas := om_insert fullName oid (om_datas m),
        om_dataNodeNames := add_path ''/'' segs (om_dataNodeNames m)\<rparr>)" (is "_ = Inr ?m'")
    using registerData_cases [OF live path(1,2,3) free(1)] by blast
  have get: "getObject n ?m' = (if n = fullName then Some (DataRef oid) else getObject n m)" for n
    using path(1) free by (simp add: getObject_def om_find_insert [OF ok(1)] split: option.split)
  show ?thesis
    by (intro exI [of _ ?m'] exI [of _ segs] conjI r segs) (simp_all add: get om_find_put [OF ok(2)])
qed

end
