(* ===== verification/Storm_Lists.thy ===== *)
theory Storm_Lists
  imports Std_Map
begin

text \<open>
  The per-channel lists of callbacks and subscribers that IckStormManager
  (src/ick_storm_manager.cc) and its clone IckStormSubscriberManager
  (src/ick_storm_subscriber_manager.cc) keep, keyed by the channel path with every slash replaced
  by a dash.  A callback or a subscriber is a number.
\<close>

text \<open>The copy into a C buffer and back to std::string stops at an embedded zero byte.\<close>
definition c_string :: "string \<Rightarrow> string" where
  "c_string s = takeWhile (\<lambda>c. c \<noteq> CHR 0x00) s"

definition dash :: "char \<Rightarrow> char" where
  "dash c = (if c = CHR ''/'' then CHR ''-'' else c)"

definition channelPath :: "string \<Rightarrow> string" where
  "channelPath channelName = c_string (map dash channelName)"

record sub_lists =
  sl_subscriberCallBack :: "(string, nat list) omap"
  sl_callbacks :: "(string, nat list) omap"

definition new_sub_lists :: sub_lists where
  "new_sub_lists = \<lparr> sl_subscriberCallBack = [], sl_callbacks = [] \<rparr>"

text \<open>The insertion both managers use: append to the list of the key, or start one.\<close>
definition list_add :: "string \<Rightarrow> nat \<Rightarrow> (string, nat list) omap \<Rightarrow> (string, nat list) omap" where
  "list_add key x m =
     (case om_find m key of
        Some l \<Rightarrow> om_put key (l @ [x]) m
      | None \<Rightarrow> om_insert key [x] m)"

definition list_get :: "(string, nat list) omap \<Rightarrow> string \<Rightarrow> nat list" where
  "list_get m key = (case om_find m key of Some l \<Rightarrow> l | None \<Rightarrow> [])"

definition getSubscriberList :: "string \<Rightarrow> sub_lists \<Rightarrow> nat list" where
  "getSubscriberList channelName sl = list_get (sl_subscriberCallBack sl) (channelPath channelName)"

text \<open>\<open>channelName.find_last_of("/")\<close>, then \<open>substr(0, nodeIndex + 1)\<close>: the path of the parent node,
  empty when there is no slash.\<close>
definition nodeName :: "string \<Rightarrow> string" where
  "nodeName channelName =
     rev (dropWhile (\<lambda>c. c \<noteq> CHR ''/'') (rev channelName))"

text \<open>A channel without callbacks of its own uses those of its parent node.\<close>
definition getSubscriberCallBackList :: "string \<Rightarrow> sub_lists \<Rightarrow> nat list" where
  "getSubscriberCallBackList channelName sl =
     (case om_find (sl_callbacks sl) (channelPath channelName) of
        Some l \<Rightarrow> l
      | None \<Rightarrow>
          (case om_find (sl_callbacks sl) (map dash (nodeName channelName)) of
             Some l \<Rightarrow> l
           | None \<Rightarrow> []))"

section \<open>Facts\<close>

lemma om_ok_list_add: "om_ok m \<Longrightarrow> om_ok (list_add k x m)"
  by (simp add: list_add_def om_ok_put om_ok_insert split: option.split)

lemma om_find_list_add:
  "om_ok m \<Longrightarrow> om_find (list_add k x m) j =
     (if j = k then Some (list_get m k @ [x]) else om_find m j)"
  by (simp add: list_add_def list_get_def om_find_put om_find_insert split: option.split)

lemma list_get_add:
  "om_ok m \<Longrightarrow> list_get (list_add k x m) j = (if j = k then list_get m k @ [x] else list_get m j)"
  by (simp add: list_get_def om_find_list_add)

lemma nodeName_path: "CHR ''/'' \<notin> set b \<Longrightarrow> nodeName (a @ CHR ''/'' # b) = a @ ''/''"
proof -
  assume "CHR ''/'' \<notin> set b"
  then have "dropWhile (\<lambda>c. c \<noteq> CHR ''/'') (rev b @ CHR ''/'' # rev a) = CHR ''/'' # rev a"
    by (subst dropWhile_append2) auto
  then show ?thesis by (simp add: nodeName_def)
qed

lemma channelPath_dash: "CHR 0x00 \<notin> set s \<Longrightarrow> channelPath s = map dash s"
proof -
  assume "CHR 0x00 \<notin> set s"
  then have "\<forall>c \<in> set (map dash s). c \<noteq> CHR 0x00" by (auto simp: dash_def)
  then show ?thesis by (simp only: channelPath_def c_string_def takeWhile_eq_all_conv)
qed

section \<open>The registry of listeners as an interface\<close>

locale listener_registry =
  fixes get :: "'s \<Rightarrow> 'k \<Rightarrow> 'x list"
    and add :: "'k \<Rightarrow> 'x \<Rightarrow> 's \<Rightarrow> 's"
    and same :: "'k \<Rightarrow> 'k \<Rightarrow> bool"
    and ok :: "'s \<Rightarrow> bool"
  assumes add_ok: "ok s \<Longrightarrow> ok (add k x s)"
    and get_add: "ok s \<Longrightarrow> get (add k x s) j = (if same j k then get s j @ [x] else get s j)"
begin

lemma add_all_ok: "ok s \<Longrightarrow> ok (fold (\<lambda>(k, x). add k x) kxs s)"
  by (induction kxs arbitrary: s) (auto simp: add_ok)

text \<open>After any sequence of registrations a key has its listeners in the order they came.\<close>
lemma get_add_all:
  "ok s \<Longrightarrow> get (fold (\<lambda>(k, x). add k x) kxs s) j =
     get s j @ map snd (filter (\<lambda>(k, x). same j k) kxs)"
proof (induction kxs arbitrary: s)
  case (Cons kx kxs)
  obtain k x where kx: "kx = (k, x)" by force
  from Cons.IH [OF add_ok [OF Cons.prems, of k x]] Cons.prems show ?case
    by (simp add: kx get_add)
qed simp

end

definition same_channel :: "string \<Rightarrow> string \<Rightarrow> bool" where
  "same_channel a b = (channelPath a = channelPath b)"

definition addSubscriberEntry :: "string \<Rightarrow> nat \<Rightarrow> sub_lists \<Rightarrow> sub_lists" where
  "addSubscriberEntry channelName x sl =
     sl\<lparr>sl_subscriberCallBack := list_add (channelPath channelName) x (sl_subscriberCallBack sl)\<rparr>"

definition addCallbackEntry :: "string \<Rightarrow> nat \<Rightarrow> sub_lists \<Rightarrow> sub_lists" where
  "addCallbackEntry channelName x sl =
     sl\<lparr>sl_callbacks := list_add (channelPath channelName) x (sl_callbacks sl)\<rparr>"

definition sub_lists_ok :: "sub_lists \<Rightarrow> bool" where
  "sub_lists_ok sl = (om_ok (sl_subscriberCallBack sl) \<and> om_ok (sl_callbacks sl))"

definition getOwnCallBackList :: "sub_lists \<Rightarrow> string \<Rightarrow> nat list" where
  "getOwnCallBackList sl channelName = list_get (sl_callbacks sl) (channelPath channelName)"

interpretation subscriber_reg: listener_registry
  "\<lambda>sl k. getSubscriberList k sl" addSubscriberEntry same_channel sub_lists_ok
proof (unfold_locales, goal_cases)
  case (1 s k x)
  then show ?case by (simp add: sub_lists_ok_def addSubscriberEntry_def om_ok_list_add)
next
  case (2 s k x j)
  then show ?case
    by (simp add: getSubscriberList_def addSubscriberEntry_def same_channel_def sub_lists_ok_def list_get_add)
qed

interpretation callback_reg: listener_registry
  getOwnCallBackList addCallbackEntry same_channel sub_lists_ok
proof (unfold_locales, goal_cases)
  case (1 s k x)
  then show ?case by (simp add: sub_lists_ok_def addCallbackEntry_def om_ok_list_add)
next
  case (2 s k x j)
  then show ?case
    by (simp add: getOwnCallBackList_def addCallbackEntry_def same_channel_def sub_lists_ok_def list_get_add)
qed

end
