(* ===== verification/Wire_Net.thy ===== *)
theory Wire_Net
  imports Storm_Lists Converter
begin

text \<open>
  The part of ISocket (src/socket.h, src/socket.cc) the message handlers use: send and receive with
  their treatment of the system call's result, the map of connected clients with the channels each
  subscribes to, and the receive loops of the handlers, with their 4096-byte buffer and the
  carried-over fragment.  The results of the system calls are an input: a list of raw return values
  for send (an empty list stands for calls that transmit everything), and for receive the list of
  the chunks that arrive and the final result that ends the loop.
\<close>

section \<open>send and receive\<close>

record channel_info =
  ci_channelName :: string
  ci_registTime :: int
  ci_isRegistSuccess :: bool

record net =
  net_sent :: "(nat \<times> string) list"
  net_raw :: "int list"

definition new_net :: net where
  "new_net = \<lparr> net_sent = [], net_raw = [] \<rparr>"

text \<open>What ISocket::send makes of the system call's result (on Linux an error is passed on).\<close>
definition send_result :: "int \<Rightarrow> int" where
  "send_result len = (if len = -1 then len else if len = 0 then -1 else len)"

text \<open>A null socket gives 0 (false) and sends nothing.\<close>
definition isocket_send :: "string \<Rightarrow> nat option \<Rightarrow> net \<Rightarrow> int \<times> net" where
  "isocket_send data sock n =
     (case sock of
        None \<Rightarrow> (0, n)
      | Some s \<Rightarrow>
          (case net_raw n of
             [] \<Rightarrow> (send_result (int (length data)), n\<lparr>net_sent := net_sent n @ [(s, data)]\<rparr>)
           | r # rs \<Rightarrow>
               (send_result r,
                if 0 < r then n\<lparr>net_sent := net_sent n @ [(s, take (nat r) data)], net_raw := rs\<rparr>
                else n\<lparr>net_raw := rs\<rparr>)))"

text \<open>receive: the result and the new \<open>isAlive\<close> flag of the socket.\<close>
definition receive_result :: "int \<Rightarrow> bool \<Rightarrow> int \<times> bool" where
  "receive_result len alive =
     (if len = -1 then (-1, alive) else if len = 0 then (-1, False) else (len, True))"

section \<open>Connected clients\<close>

type_synonym client_map = "(nat, (nat, channel_info) omap) omap"

definition insertClientSocket :: "nat option \<Rightarrow> client_map \<Rightarrow> client_map" where
  "insertClientSocket sock m =
     (case sock of
        None \<Rightarrow> m
      | Some s \<Rightarrow> if om_find m s = None then om_insert s [] m else m)"

definition removeClientSocket :: "nat option \<Rightarrow> client_map \<Rightarrow> client_map" where
  "removeClientSocket sock m =
     (case sock of
        None \<Rightarrow> m
      | Some s \<Rightarrow> if om_find m s = None then m else om_erase s m)"

definition insertSubscribeChannel ::
  "int \<Rightarrow> nat option \<Rightarrow> (nat \<times> string) option \<Rightarrow> client_map \<Rightarrow> client_map" where
  "insertSubscribeChannel now sock data m =
     (case (sock, data) of
        (Some s, Some (d, name)) \<Rightarrow>
          (let info = \<lparr> ci_channelName = name, ci_registTime = now, ci_isRegistSuccess = True \<rparr>
           in case om_find m s of
                None \<Rightarrow> om_insert s (om_insert d info []) m
              | Some chans \<Rightarrow>
                  if om_find chans d = None then om_put s (om_insert d info chans) m else m)
      | _ \<Rightarrow> m)"

definition clients_ok :: "client_map \<Rightarrow> bool" where
  "clients_ok m = (om_ok m \<and> (\<forall>e \<in> set m. om_ok (snd e)))"

definition subscribed :: "client_map \<Rightarrow> nat \<Rightarrow> nat \<Rightarrow> bool" where
  "subscribed m s d = (case om_find m s of None \<Rightarrow> False | Some c \<Rightarrow> om_has c d)"

lemma clients_ok_find: "clients_ok m \<Longrightarrow> om_find m s = Some c \<Longrightarrow> om_ok c"
  using om_find_in_set [of m s c] by (force simp: clients_ok_def)

lemma clients_ok_put: "clients_ok m \<Longrightarrow> om_ok c \<Longrightarrow> clients_ok (om_put s c m)"
  by (auto simp: clients_ok_def om_ok_put set_om_put_pairs)

lemma clients_ok_insert: "clients_ok m \<Longrightarrow> om_ok c \<Longrightarrow> clients_ok (om_insert s c m)"
  by (simp add: om_insert_def clients_ok_put)

lemma clients_ok_insertClientSocket: "clients_ok m \<Longrightarrow> clients_ok (insertClientSocket s m)"
  by (auto simp: insertClientSocket_def clients_ok_insert split: option.split)

lemma clients_ok_removeClientSocket: "clients_ok m \<Longrightarrow> clients_ok (removeClientSocket s m)"
proof (cases s)
  case (Some x)
  assume "clients_ok m"
  then show ?thesis
    by (auto simp: removeClientSocket_def Some clients_ok_def om_ok_erase om_erase_def)
       (metis om_erase_def om_ok_erase)
qed (simp add: removeClientSocket_def)

lemma clients_ok_insertSubscribeChannel:
  "clients_ok m \<Longrightarrow> clients_ok (insertSubscribeChannel now s d m)"
  by (auto simp: insertSubscribeChannel_def Let_def clients_ok_put clients_ok_insert om_ok_insert
      clients_ok_find split: option.split)

lemma subscribed_insert:
  "clients_ok m \<Longrightarrow> subscribed (insertSubscribeChannel now (Some s) (Some (d, n)) m) s' d' \<longleftrightarrow>
     subscribed m s' d' \<or> (s' = s \<and> d' = d)"
proof -
  assume ok: "clients_ok m"
  then have o: "om_ok m" by (simp add: clients_ok_def)
  show ?thesis
  proof (cases "om_find m s")
    case None
    then show ?thesis
      by (auto simp: subscribed_def insertSubscribeChannel_def Let_def om_find_insert o om_has_def
          split: option.split)
  next
    case (Some c)
    have c: "om_ok c" using clients_ok_find [OF ok Some] .
    show ?thesis
      by (auto simp: subscribed_def insertSubscribeChannel_def Let_def Some om_find_put o om_has_def
          om_find_insert c split: option.split)
  qed
qed

section \<open>Receive loops\<close>

definition BUFF :: nat where "BUFF = 4096"

text \<open>The buffer as text, up to the first zero byte.\<close>
definition rx_text :: "string \<Rightarrow> string" where
  "rx_text buf = c_string buf"

text \<open>recv stores the chunk behind the carried fragment.\<close>
definition rx_write :: "string \<Rightarrow> nat \<Rightarrow> string \<Rightarrow> string" where
  "rx_write buf off chunk = take off buf @ chunk @ drop (off + length chunk) buf"

text \<open>memset to zero, then the fragment copied to the front.\<close>
definition rx_clear :: "string \<Rightarrow> string" where
  "rx_clear frag = frag @ replicate (BUFF - length frag) (CHR 0x00)"

definition rx_full :: "nat \<Rightarrow> string \<Rightarrow> bool" where
  "rx_full len strTmp = (int len = int BUFF - 1 - int (length strTmp))"

text \<open>How many of the fields are messages: a full buffer keeps the last one back.\<close>
definition rx_count :: "nat \<Rightarrow> string \<Rightarrow> string list \<Rightarrow> nat" where
  "rx_count len strTmp datas =
     (if rx_full len strTmp then length datas - 1 else length datas)"

datatype outcome = Continue | Break | ReturnFalse

text \<open>The loop over the messages in the server handlers: the buffer and the fragment are reset inside
  the loop, once per message, and the test for a full buffer uses the fragment just set.\<close>
fun server_frames ::
  "(string \<Rightarrow> 's \<Rightarrow> (outcome \<times> 's) res) \<Rightarrow> nat \<Rightarrow> string list \<Rightarrow> string list \<Rightarrow> string \<Rightarrow> string \<Rightarrow> 's \<Rightarrow>
     (outcome \<times> string \<times> string \<times> 's) res" where
  "server_frames h len datas [] buf strTmp s = Inr (Continue, buf, strTmp, s)"
| "server_frames h len datas (d # ds) buf strTmp s =
     bindR (h d s) (\<lambda>(o1, s').
     if o1 \<noteq> Continue then Inr (o1, buf, strTmp, s')
     else if rx_full len strTmp then
       server_frames h len datas ds (rx_clear (last datas)) (last datas) s'
     else server_frames h len datas ds (rx_clear []) [] s')"

fun server_receive ::
  "(string \<Rightarrow> 's \<Rightarrow> (outcome \<times> 's) res) \<Rightarrow> string list \<Rightarrow> int \<Rightarrow> string \<Rightarrow> string \<Rightarrow> 's \<Rightarrow>
     (bool \<times> 's) res" where
  "server_receive h [] final buf strTmp s = Inr (0 \<le> final, s)"
| "server_receive h (c # cs) final buf strTmp s =
     (let len = length c; buf' = rx_write buf (length strTmp) c
      in bindR (split (rx_text buf') '';'') (\<lambda>datas.
         bindR (server_frames h len datas (take (rx_count len strTmp datas) datas) buf' strTmp s)
           (\<lambda>(o1, buf1, strTmp1, s1).
           if o1 = ReturnFalse then Inr (False, s1)
           else server_receive h cs final buf1 strTmp1 s1)))"

text \<open>The client handler resets the buffer after the loop over the messages.\<close>
fun client_frames :: "(string \<Rightarrow> 's \<Rightarrow> 's res) \<Rightarrow> string list \<Rightarrow> 's \<Rightarrow> 's res" where
  "client_frames h [] s = Inr s"
| "client_frames h (d # ds) s = bindR (h d s) (client_frames h ds)"

text \<open>One pass of the client's loop body, up to the reset.\<close>
definition client_pass ::
  "(string \<Rightarrow> 's \<Rightarrow> 's res) \<Rightarrow> string \<Rightarrow> string \<Rightarrow> string \<Rightarrow> 's \<Rightarrow> (string \<times> string \<times> 's) res" where
  "client_pass h c buf strTmp s =
     (let len = length c; buf' = rx_write buf (length strTmp) c
      in bindR (split (rx_text buf') '';'') (\<lambda>datas.
         bindR (client_frames h (take (rx_count len strTmp datas) datas) s) (\<lambda>s1.
         if rx_full len strTmp then
           (if datas = [] then Inl Undefined
            else Inr (rx_clear (last datas), last datas, s1))
         else Inr (rx_clear [], [], s1))))"

lemma rx_write_clear:
  "CHR 0x00 \<notin> set c \<Longrightarrow> CHR 0x00 \<notin> set frag \<Longrightarrow> length frag + length c < BUFF \<Longrightarrow>
   rx_text (rx_write (rx_clear frag) (length frag) c) = frag @ c"
proof -
  assume a: "CHR 0x00 \<notin> set c" "CHR 0x00 \<notin> set frag" "length frag + length c < BUFF"
  then obtain k where k: "BUFF - length frag - length c = Suc k" by (metis Suc_diff_Suc diff_diff_left)
  have "rx_write (rx_clear frag) (length frag) c = (frag @ c) @ CHR 0x00 # replicate k (CHR 0x00)"
    using a k by (simp add: rx_write_def rx_clear_def)
  moreover have "\<forall>x \<in> set (frag @ c). x \<noteq> CHR 0x00" using a by auto
  ultimately show ?thesis
    unfolding rx_text_def c_string_def by (simp add: takeWhile_append2)
qed

lemma rx_text_clear: "CHR 0x00 \<notin> set frag \<Longrightarrow> length frag < BUFF \<Longrightarrow> rx_text (rx_clear frag) = frag"
  using rx_write_clear [of "[]" frag] by (simp add: rx_write_def)

text \<open>A handler that always goes on, with the state it leaves.\<close>
lemma server_frames_run:
  assumes "\<And>d s. d \<in> set ds \<Longrightarrow> h d s = Inr (Continue, g d s)" "\<not> rx_full len []"
  shows "server_frames h len datas ds buf [] s =
     Inr (Continue, if ds = [] then buf else rx_clear [], [], fold g ds s)"
  using assms(1)
proof (induction ds arbitrary: buf s)
  case (Cons d ds)
  then show ?case using assms(2) by (auto split: if_splits)
qed simp

text \<open>The fragment kept after a full buffer alternates with the number of messages in it.\<close>
lemma server_frames_parity:
  assumes "\<And>d s. h d s = Inr (Continue, g d s)" "frag = last datas" "frag \<noteq> []" "rx_full len []"
  shows "t = [] \<or> t = frag \<Longrightarrow> \<exists>b. server_frames h len datas ds buf t s =
     Inr (Continue, b, if even (length ds) then t else if t = [] then frag else [], fold g ds s)"
proof (induction ds arbitrary: buf t s)
  case (Cons d ds)
  have nf: "\<not> rx_full len frag" using assms(3,4) by (auto simp: rx_full_def)
  let ?t = "if t = [] then frag else []"
  have st: "server_frames h len datas (d # ds) buf t s =
      server_frames h len datas ds (rx_clear ?t) ?t (g d s)"
    using Cons.prems assms nf by auto
  have "?t = [] \<or> ?t = frag" by simp
  from Cons.IH [OF this, of "rx_clear ?t" "g d s"] obtain b where
    "server_frames h len datas ds (rx_clear ?t) ?t (g d s) =
     Inr (Continue, b, if even (length ds) then ?t else if ?t = [] then frag else [], fold g ds (g d s))"
    by blast
  then show ?case using st Cons.prems assms(3) by auto
qed simp

lemma client_frames_run:
  "(\<And>d s. d \<in> set ds \<Longrightarrow> h d s = Inr (g d s)) \<Longrightarrow> client_frames h ds s = Inr (fold g ds s)"
  by (induction ds arbitrary: s) auto

section \<open>Message streams\<close>

text \<open>The text of a list of messages, each followed by a semicolon.\<close>
fun stream :: "string list \<Rightarrow> string" where
  "stream [] = []"
| "stream (m # ms) = m @ '';'' @ stream ms"

text \<open>A message that passes through split unchanged.\<close>
definition message_ok :: "string \<Rightarrow> bool" where
  "message_ok m = (m \<noteq> [] \<and> CHR '';'' \<notin> set m \<and> CHR 0x00 \<notin> set m \<and> hd m \<noteq> CHR '' '')"

lemma stream_last: "ms \<noteq> [] \<Longrightarrow> stream ms \<noteq> [] \<and> last (stream ms) = CHR '';''"
  by (induction ms rule: induct_list012) auto

lemma stream_untrimmed: "\<forall>m \<in> set ms. message_ok m \<Longrightarrow> \<not> untrimmed (stream ms)"
proof (cases ms)
  case (Cons m r)
  assume "\<forall>m \<in> set ms. message_ok m"
  then have m: "m \<noteq> []" "hd m \<noteq> CHR '' ''" using Cons by (auto simp: message_ok_def)
  have "hd (stream ms) = hd m" using m Cons by simp
  then show ?thesis using m stream_last [of ms] Cons by (simp add: untrimmed_def)
qed (simp add: untrimmed_def)

lemma split_loop_stream:
  "\<forall>m \<in> set ms. message_ok m \<Longrightarrow> split_loop '';'' (stream ms) = Inr ms"
proof (induction ms)
  case Nil
  show ?case by (simp add: split_loop.simps)
next
  case (Cons m ms)
  have ms: "\<forall>m \<in> set ms. message_ok m" and m: "message_ok m" using Cons.prems by auto
  have "str_find (m @ CHR '';'' # stream ms) '';'' = Some (length m)"
    using m by (intro str_find_single) (simp add: message_ok_def)
  moreover have "trim (stream ms) = Inr (stream ms)"
    by (rule trim_id) (rule stream_untrimmed [OF ms])
  moreover have "stream ms \<noteq> '';''"
  proof (cases ms)
    case (Cons a b)
    then have "message_ok a" using ms by simp
    then show ?thesis using Cons by (cases a) (auto simp: message_ok_def)
  qed simp
  ultimately show ?case using Cons.IH [OF ms]
    by (subst split_loop.simps) (simp add: str_substr_def)
qed

lemma split_stream: "\<forall>m \<in> set ms. message_ok m \<Longrightarrow> split (stream ms) '';'' = Inr ms"
  using stream_untrimmed [of ms] by (simp add: split_def trim_id split_loop_stream)

lemma stream_no_zero: "\<forall>m \<in> set ms. message_ok m \<Longrightarrow> CHR 0x00 \<notin> set (stream ms)"
  by (induction ms) (auto simp: message_ok_def)

text \<open>A chunk of whole messages that does not fill the buffer is handled message by message.\<close>
lemma server_chunk:
  assumes "\<forall>m \<in> set ms. message_ok m" "ms \<noteq> []" "length (stream ms) < BUFF - 1"
    and "\<And>d s. d \<in> set ms \<Longrightarrow> h d s = Inr (Continue, g d s)"
  shows "server_receive h (stream ms # cs) final (rx_clear []) [] s =
     server_receive h cs final (rx_clear []) [] (fold g ms s)"
proof -
  have z: "rx_text (rx_write (rx_clear []) (length ([] :: string)) (stream ms)) = stream ms"
    using rx_write_clear [of "stream ms" "[]"] stream_no_zero [OF assms(1)] assms(3)
    by (simp add: BUFF_def)
  have nf: "\<not> rx_full (length (stream ms)) []" using assms(3) by (auto simp: rx_full_def BUFF_def)
  then have c: "take (rx_count (length (stream ms)) [] ms) ms = ms" by (simp add: rx_count_def)
  have f: "server_frames h (length (stream ms)) ms ms
      (rx_write (rx_clear []) (length ([] :: string)) (stream ms)) [] s =
      Inr (Continue, rx_clear [], [], fold g ms s)"
    using server_frames_run [of ms h g "length (stream ms)" ms, OF assms(4) nf] assms(2) by simp
  show ?thesis
    unfolding server_receive.simps Let_def z split_stream [OF assms(1)] bindR.simps c f by simp
qed

text \<open>A run of such chunks, after which the receive call ends the round.\<close>
lemma server_chunks:
  assumes "\<And>d s. h d s = Inr (Continue, g d s)"
  shows "(\<forall>ms \<in> set mss. ms \<noteq> [] \<and> (\<forall>m \<in> set ms. message_ok m) \<and> length (stream ms) < BUFF - 1) \<Longrightarrow>
     server_receive h (map stream mss) final (rx_clear []) [] s = Inr (0 \<le> final, fold g (concat mss) s)"
proof (induction mss arbitrary: s)
  case (Cons ms mss)
  then have "server_receive h (stream ms # map stream mss) final (rx_clear []) [] s =
      server_receive h (map stream mss) final (rx_clear []) [] (fold g ms s)"
    using assms by (intro server_chunk) auto
  then show ?case using Cons by simp
qed simp

end
