(* ===== verification/Subscriber_Socket.thy ===== *)
theory Subscriber_Socket
  imports Wire_Net Object_Manager Escape
begin

text \<open>
  The subscription protocol of src/ick_storm_subscriber_socket.cc: what the client sends and how it
  handles an Update, a Subscribe confirmation or a ChannelList; what the server does with each
  message; and the publication of a changed data point to the connected clients.  The socket
  itself, as a Subscriber of data points, is the number \<open>self\<close>; the time is an argument.  Doubles
  are abstract: atof, the zero value, the change test and the printer are arguments.
\<close>

datatype sock_event =
    CallService string string string          \<comment> \<open>object, service, parameters\<close>
  | CallbackCalled nat string                  \<comment> \<open>callback, channel\<close>
  | SubscriberUpdated nat nat                  \<comment> \<open>subscriber, data object\<close>
  | NodeInfoCalled nat string string nat       \<comment> \<open>callback, node, names, count\<close>

record 'd sub_socket =
  sk_mgr :: "'d manager"
  sk_lists :: sub_lists
  sk_channels :: "(string, channel_info) omap"   \<comment> \<open>m_subscribeChannels\<close>
  sk_sendList :: "string list"                   \<comment> \<open>m_dataSendList\<close>
  sk_clients :: client_map
  sk_alive :: "nat list"                         \<comment> \<open>the sockets whose isAlive is true\<close>
  sk_net :: net
  sk_events :: "sock_event list"
  sk_lastHeartBeat :: int

section \<open>Client requests\<close>

definition sk_subscribe :: "string \<Rightarrow> 'd sub_socket \<Rightarrow> 'd sub_socket" where
  "sk_subscribe channelName st =
     (let info = \<lparr> ci_channelName = channelName, ci_registTime = 0, ci_isRegistSuccess = False \<rparr>
      in if om_find (sk_channels st) channelName = None
         then st\<lparr>sk_channels := om_insert channelName info (sk_channels st)\<rparr> else st)"

definition sk_addSendData :: "string \<Rightarrow> 'd sub_socket \<Rightarrow> 'd sub_socket" where
  "sk_addSendData data st =
     (if data = [] then st else st\<lparr>sk_sendList := sk_sendList st @ [data]\<rparr>)"

definition sk_send :: "string \<Rightarrow> nat option \<Rightarrow> 'd sub_socket \<Rightarrow> int \<times> 'd sub_socket" where
  "sk_send data sock st =
     (case isocket_send data sock (sk_net st) of (r, n) \<Rightarrow> (r, st\<lparr>sk_net := n\<rparr>))"

text \<open>The system call itself, whose result the subscription batches ignore.\<close>
definition raw_send :: "string \<Rightarrow> nat \<Rightarrow> 'd sub_socket \<Rightarrow> 'd sub_socket" where
  "raw_send data sock st = snd (sk_send data (Some sock) st)"

text \<open>subscribeChannelHandler, first loop: the channels not confirmed whose last request is more than
  five seconds old are requested (again), ten to a packet.\<close>
fun subscribe_batch ::
  "int \<Rightarrow> nat \<Rightarrow> (string \<times> channel_info) list \<Rightarrow> nat \<Rightarrow> string \<Rightarrow> 'd sub_socket \<Rightarrow> string \<times> 'd sub_socket" where
  "subscribe_batch t sock [] i str st = (str, st)"
| "subscribe_batch t sock ((name, info) # es) i str st =
     (if \<not> ci_isRegistSuccess info \<and> 5 < t - ci_registTime info then
        (let str' = str @ ''Subscribe:'' @ name @ '';'';
             st' = st\<lparr>sk_channels := om_put name (info\<lparr>ci_registTime := t\<rparr>) (sk_channels st)\<rparr>
         in if (i + 1) mod 10 = 0 then subscribe_batch t sock es (i + 1) [] (raw_send str' sock st')
            else subscribe_batch t sock es (i + 1) str' st')
      else subscribe_batch t sock es i str st)"

text \<open>Second loop: the queued texts, ten to a packet; True when a send failed.\<close>
fun queue_batch ::
  "nat \<Rightarrow> string list \<Rightarrow> nat \<Rightarrow> string \<Rightarrow> 'd sub_socket \<Rightarrow> bool \<times> string \<times> 'd sub_socket" where
  "queue_batch sock [] i str st = (False, str, st)"
| "queue_batch sock (d # ds) i str st =
     (let str' = str @ d
      in if (i + 1) mod 10 = 0 then
           (case sk_send str' (Some sock) st of
              (r, st') \<Rightarrow> if r < 0 then (True, str', st') else queue_batch sock ds (i + 1) [] st')
         else queue_batch sock ds (i + 1) str' st)"

text \<open>The result is false when a send failed: the queue is kept then, and the mutex stays locked.\<close>
definition subscribeChannelHandler :: "int \<Rightarrow> nat \<Rightarrow> 'd sub_socket \<Rightarrow> bool \<times> 'd sub_socket" where
  "subscribeChannelHandler t sock st =
     (case subscribe_batch t sock (sk_channels st) 0 [] st of
        (str, st1) \<Rightarrow>
          (let st2 = (if str \<noteq> [] then raw_send str sock st1 else st1)
           in case queue_batch sock (sk_sendList st2) 0 [] st2 of
                (failed, str', st3) \<Rightarrow>
                  if failed then (False, st3)
                  else if str' \<noteq> [] then
                    (case sk_send str' (Some sock) st3 of
                       (r, st4) \<Rightarrow> if r < 0 then (False, st4) else (True, st4\<lparr>sk_sendList := []\<rparr>))
                  else (True, st3\<lparr>sk_sendList := []\<rparr>)))"

section \<open>Client handling of a message\<close>

definition access_of :: "string \<Rightarrow> access_mode" where
  "access_of s = (if s = ''U'' then DEFAULT else if s = ''R'' then READONLY
                  else if s = ''W'' then READWRITE else DEFAULT)"

definition type_of :: "string \<Rightarrow> data_type" where
  "type_of s = (if s = ''0'' then UNKNOWN else if s = ''I'' then INTDATA else if s = ''S'' then STRINGDATA
                else if s = ''D'' then DOUBLEDATA else UNKNOWN)"

text \<open>The data object created for a channel that is not registered; the constructor of the writable
  integer takes the received value as its lower bound.\<close>
definition new_client_data :: "(string \<Rightarrow> 'd) \<Rightarrow> 'd \<Rightarrow> access_mode \<Rightarrow> data_type \<Rightarrow> string \<Rightarrow> 'd any_data option" where
  "new_client_data atof zero m t sValue =
     (case (m, t) of
        (READONLY, INTDATA) \<Rightarrow> Some (ROI (ReadOnlyInt (atoi sValue)))
      | (READONLY, DOUBLEDATA) \<Rightarrow> Some (ROD (ReadOnlyDouble zero (atof sValue)))
      | (READONLY, STRINGDATA) \<Rightarrow> Some (ROS (ReadOnlyString sValue))
      | (READWRITE, INTDATA) \<Rightarrow> Some (RWI (ReadWriteInt (atoi sValue) (2 ^ 31 - 1)))
      | (READWRITE, DOUBLEDATA) \<Rightarrow> Some (RWD (ReadWriteDouble zero (atof sValue)))
      | (READWRITE, STRINGDATA) \<Rightarrow> Some (RWS (ReadWriteString sValue))
      | _ \<Rightarrow> None)"

text \<open>The update of a registered channel: the object is cast to the writable class of the type, and a
  failed cast is a null pointer.\<close>
definition set_client_data ::
  "(string \<Rightarrow> 'd) \<Rightarrow> ('d \<Rightarrow> 'd \<Rightarrow> bool) \<Rightarrow> int writer \<Rightarrow> 'd writer \<Rightarrow> string writer \<Rightarrow>
     data_type \<Rightarrow> string \<Rightarrow> 'd any_data option \<Rightarrow> 'd any_data option res" where
  "set_client_data atof differs wi wd ws t sValue obj =
     (case t of
        INTDATA \<Rightarrow>
          (case obj of Some (RWI d) \<Rightarrow> Inr (Some (RWI (ReadWriteInt_setValue wi (atoi sValue) d)))
                     | _ \<Rightarrow> Inl Null_Deref)
      | DOUBLEDATA \<Rightarrow>
          (case obj of Some (RWD d) \<Rightarrow> Inr (Some (RWD (ReadWriteDouble_setValue differs wd (atof sValue) d)))
                     | _ \<Rightarrow> Inl Null_Deref)
      | STRINGDATA \<Rightarrow>
          (case obj of Some (RWS d) \<Rightarrow> Inr (Some (RWS (ReadWriteString_setValue ws sValue d)))
                     | _ \<Rightarrow> Inl Null_Deref)
      | UNKNOWN \<Rightarrow> Inr obj)"

text \<open>\<open>dynamic_cast<UntypedData*>\<close> of a looked-up object.\<close>
definition data_ref :: "object_ref option \<Rightarrow> nat option" where
  "data_ref r = (case r of Some (DataRef i) \<Rightarrow> Some i | _ \<Rightarrow> None)"

text \<open>The listeners of a channel after an update.\<close>
definition notify_listeners :: "string \<Rightarrow> nat option \<Rightarrow> 'd sub_socket \<Rightarrow> 'd sub_socket" where
  "notify_listeners channelName data st =
     st\<lparr>sk_events := sk_events st
        @ map (\<lambda>cb. CallbackCalled cb channelName) (getSubscriberCallBackList channelName (sk_lists st))
        @ (case data of None \<Rightarrow> []
           | Some d \<Rightarrow> map (\<lambda>s. SubscriberUpdated s d) (getSubscriberList channelName (sk_lists st)))\<rparr>"

text \<open>An Update message; \<open>fresh\<close> is the address of a created object.\<close>
definition client_update ::
  "(string \<Rightarrow> 'd) \<Rightarrow> 'd \<Rightarrow> ('d \<Rightarrow> 'd \<Rightarrow> bool) \<Rightarrow> int writer \<Rightarrow> 'd writer \<Rightarrow> string writer \<Rightarrow>
     nat \<Rightarrow> string list \<Rightarrow> 'd sub_socket \<Rightarrow> 'd sub_socket res" where
  "client_update atof zero differs wi wd ws fresh tmp st =
     (let channelName = tmp ! 1; m = access_of (tmp ! 2); t = type_of (tmp ! 3)
      in bindR (decode_colon (tmp ! 4)) (\<lambda>sValue.
         if \<not> isObjectRegisted channelName (sk_mgr st) then
           (case new_client_data atof zero m t sValue of
              None \<Rightarrow> Inr (notify_listeners channelName None st)
            | Some a \<Rightarrow>
                bindR (registerData (Some fresh) channelName
                        ((sk_mgr st)\<lparr>om_data_store := om_put fresh a (om_data_store (sk_mgr st))\<rparr>))
                  (\<lambda>mgr. Inr (notify_listeners channelName (Some fresh) (st\<lparr>sk_mgr := mgr\<rparr>))))
         else
           (case data_ref (getObject channelName (sk_mgr st)) of
              None \<Rightarrow> bindR (set_client_data atof differs wi wd ws t sValue None)
                        (\<lambda>_. Inr (notify_listeners channelName None st))
            | Some i \<Rightarrow>
                bindR (set_client_data atof differs wi wd ws t sValue (om_find (om_data_store (sk_mgr st)) i))
                  (\<lambda>a. case a of
                         None \<Rightarrow> Inl Undefined
                       | Some a' \<Rightarrow>
                           Inr (notify_listeners channelName (Some i)
                             (st\<lparr>sk_mgr := (sk_mgr st)\<lparr>om_data_store :=
                                   om_put i a' (om_data_store (sk_mgr st))\<rparr>\<rparr>))))))"

definition client_confirm :: "string list \<Rightarrow> 'd sub_socket \<Rightarrow> 'd sub_socket" where
  "client_confirm tmp st =
     (case om_find (sk_channels st) (tmp ! 2) of
        None \<Rightarrow> st
      | Some info \<Rightarrow>
          st\<lparr>sk_channels := om_put (tmp ! 2) (info\<lparr>ci_isRegistSuccess := True\<rparr>) (sk_channels st)\<rparr>)"

definition client_channel_list :: "string list \<Rightarrow> 'd sub_socket \<Rightarrow> 'd sub_socket res" where
  "client_channel_list tmp st =
     mapR (\<lambda>subNodes.
       st\<lparr>sk_events := sk_events st @
          map (\<lambda>cb. NodeInfoCalled cb (tmp ! 1) (tmp ! 3) (length subNodes))
              (om_nodeInfoCallBacks (sk_mgr st))\<rparr>)
       (split (tmp ! 3) '','')"

definition client_message ::
  "(string \<Rightarrow> 'd) \<Rightarrow> 'd \<Rightarrow> ('d \<Rightarrow> 'd \<Rightarrow> bool) \<Rightarrow> int writer \<Rightarrow> 'd writer \<Rightarrow> string writer \<Rightarrow>
     nat \<Rightarrow> string \<Rightarrow> 'd sub_socket \<Rightarrow> 'd sub_socket res" where
  "client_message atof zero differs wi wd ws fresh msg st =
     bindR (split msg '':'') (\<lambda>tmp.
       if 5 < length tmp \<and> tmp ! 0 = ''Update'' then
         client_update atof zero differs wi wd ws fresh tmp st
       else if 2 < length tmp \<and> tmp ! 0 = ''Subscribe'' \<and> tmp ! 1 = ''Success'' then
         Inr (client_confirm tmp st)
       else if 3 < length tmp \<and> tmp ! 0 = ''ChannelList'' then client_channel_list tmp st
       else Inr st)"

text \<open>The receive loop of the client: after every chunk the subscriptions and the queue are served, whatever
  that gives.\<close>
fun client_receive ::
  "(string \<Rightarrow> 'd sub_socket \<Rightarrow> 'd sub_socket res) \<Rightarrow> int \<Rightarrow> nat \<Rightarrow> string list \<Rightarrow> string \<Rightarrow> string \<Rightarrow>
     'd sub_socket \<Rightarrow> 'd sub_socket res" where
  "client_receive h now sock [] buf strTmp st = Inr st"
| "client_receive h now sock (c # cs) buf strTmp st =
     bindR (client_pass h c buf strTmp st) (\<lambda>(buf', strTmp', st1).
       client_receive h now sock cs buf' strTmp' (snd (subscribeChannelHandler now sock st1)))"

text \<open>The client branch of socketConnectHandler; \<open>alloc\<close> gives the address of a created object.  An
  exception, caught by the handler's \<open>catch (...)\<close>, ends the round with the rest of the chunk
  unread: it is the failure of the result.\<close>
definition client_handler ::
  "(string \<Rightarrow> 'd) \<Rightarrow> 'd \<Rightarrow> ('d \<Rightarrow> 'd \<Rightarrow> bool) \<Rightarrow> int writer \<Rightarrow> 'd writer \<Rightarrow> string writer \<Rightarrow>
     ('d sub_socket \<Rightarrow> nat) \<Rightarrow> int \<Rightarrow> nat \<Rightarrow> string list \<Rightarrow> int \<Rightarrow> 'd sub_socket \<Rightarrow> (bool \<times> 'd sub_socket) res" where
  "client_handler atof zero differs wi wd ws alloc now sock chunks final st =
     (case subscribeChannelHandler now sock st of
        (ok, st1) \<Rightarrow>
          if \<not> ok then Inr (False, st1)
          else
            bindR (client_receive (\<lambda>msg s. client_message atof zero differs wi wd ws (alloc s) msg s)
                     now sock chunks (rx_clear []) [] st1) (\<lambda>st2.
            if final < 0 then Inr (False, st2)
            else if 60 < now - sk_lastHeartBeat st2 then
              (case sk_send ''HeartBeat;'' (Some sock) st2 of
                 (r, st3) \<Rightarrow> if r < 0 then Inr (False, st3)
                            else Inr (True, st3\<lparr>sk_lastHeartBeat := now\<rparr>))
            else Inr (True, st2)))"

section \<open>Server handling of a message\<close>

text \<open>One name of addSubscribe: the data object is entered for the client and the socket becomes one of
  its subscribers; a name that is not a data object ends the loop (False).\<close>
definition subscribe_one ::
  "nat \<Rightarrow> int \<Rightarrow> nat option \<Rightarrow> string \<Rightarrow> 'd sub_socket \<Rightarrow> bool \<times> 'd sub_socket" where
  "subscribe_one self now sock name st =
     (case data_ref (getObject name (sk_mgr st)) of
        None \<Rightarrow> (False, st)
      | Some d \<Rightarrow>
          (case om_find (om_data_store (sk_mgr st)) d of
             None \<Rightarrow> (False, st)
           | Some a \<Rightarrow>
               (True, st\<lparr>sk_clients := insertSubscribeChannel now sock
                            (Some (d, ud_fullName (the_ud a))) (sk_clients st),
                         sk_mgr := on_store d (ud_subscribe (Some self)) (sk_mgr st)\<rparr>)))"

fun subscribe_names ::
  "nat \<Rightarrow> int \<Rightarrow> nat option \<Rightarrow> string list \<Rightarrow> 'd sub_socket \<Rightarrow> 'd sub_socket" where
  "subscribe_names self now sock [] st = st"
| "subscribe_names self now sock (n # ns) st =
     (case subscribe_one self now sock n st of
        (ok, st') \<Rightarrow> if ok then subscribe_names self now sock ns st' else st')"

text \<open>A name that ends in a slash stands for the children of the node; \<open>at\<close> throws on an empty name.\<close>
definition sk_addSubscribe ::
  "nat \<Rightarrow> int \<Rightarrow> nat option \<Rightarrow> string \<Rightarrow> 'd sub_socket \<Rightarrow> 'd sub_socket res" where
  "sk_addSubscribe self now sock channelName st =
     (if channelName = [] then Inl Out_Of_Range
      else if last channelName = CHR ''/'' then
        Inr (subscribe_names self now sock
          (map (\<lambda>n. channelName @ n) (getChannelNodeList channelName (sk_mgr st))) st)
      else Inr (subscribe_names self now sock [channelName] st))"

text \<open>The pages of a node list: from the eleventh name on a page of ten is sent, and the rest is
  gathered in \<open>strTmp\<close>.  The result: whether a send failed, \<open>strTmp\<close>, \<open>sendData\<close>.\<close>
fun page_loop ::
  "nat option \<Rightarrow> string \<Rightarrow> string list \<Rightarrow> nat \<Rightarrow> string \<Rightarrow> string \<Rightarrow> 'd sub_socket \<Rightarrow>
     bool \<times> string \<times> string \<times> 'd sub_socket" where
  "page_loop sock header [] index strTmp sendData st = (False, strTmp, sendData, st)"
| "page_loop sock header (n # ns) index strTmp sendData st =
     (if index < 10 then
        page_loop sock header ns (index + 1)
          (strTmp @ n @ (if index = 9 then '';'' else '','')) sendData st
      else
        (case sk_send (sendData @ convertToString 10 @ '':'' @ strTmp) sock st of
           (r, st') \<Rightarrow>
             if r < 0 then (True, strTmp, sendData, st')
             else page_loop sock header ns 1 n header st'))"

text \<open>The rest is completed in \<open>strTmp\<close>, but what is sent is \<open>sendData\<close>, the header alone.\<close>
definition server_list ::
  "string \<Rightarrow> (string \<Rightarrow> 'd manager \<Rightarrow> string list) \<Rightarrow> nat option \<Rightarrow> string \<Rightarrow> 'd sub_socket \<Rightarrow>
     outcome \<times> 'd sub_socket" where
  "server_list kind nodes sock node st =
     (let subNodes = nodes node (sk_mgr st);
          header = kind @ '':'' @ node @ '':'' @ convertToString (int (length subNodes)) @ '':''
      in case page_loop sock header subNodes 0 [] header st of
           (failed, strTmp, sendData, st1) \<Rightarrow>
             if failed then (ReturnFalse, st1)
             else if strTmp \<noteq> [] then
               (case sk_send sendData sock st1 of
                  (r, st2) \<Rightarrow>
                    if r < 0 then (ReturnFalse, st2)
                    else (case sk_send sendData sock st2 of
                            (r', st3) \<Rightarrow> if r' < 0 then (ReturnFalse, st3) else (Continue, st3)))
             else (case sk_send sendData sock st1 of
                     (r, st2) \<Rightarrow> if r < 0 then (ReturnFalse, st2) else (Continue, st2)))"

definition server_reply :: "string \<Rightarrow> nat option \<Rightarrow> 'd sub_socket \<Rightarrow> outcome \<times> 'd sub_socket" where
  "server_reply sendData sock st =
     (case sk_send sendData sock st of
        (r, st') \<Rightarrow> if r < 0 then (ReturnFalse, st') else (Continue, st'))"

text \<open>RunService confirms first (a failed confirmation ends the loop over the messages), then calls.\<close>
definition server_run ::
  "nat option \<Rightarrow> string list \<Rightarrow> 'd sub_socket \<Rightarrow> outcome \<times> 'd sub_socket" where
  "server_run sock tmp st =
     (let objectName = tmp ! 1; serviceName = tmp ! 2;
          params = (if 3 < length tmp then tmp ! 3 else [])
      in case sk_send (''RunService:Success:'' @ objectName @ '':'' @ serviceName @ '';'') sock st of
           (r, st') \<Rightarrow>
             if r \<le> 0 then (Break, st')
             else (case getObject objectName (sk_mgr st') of
                     Some (CtrlRef c) \<Rightarrow>
                       (Continue, st'\<lparr>sk_events := sk_events st' @
                          [CallService objectName serviceName params]\<rparr>)
                   | _ \<Rightarrow> (Continue, st')))"

definition server_message ::
  "nat \<Rightarrow> int \<Rightarrow> nat option \<Rightarrow> string \<Rightarrow> 'd sub_socket \<Rightarrow> (outcome \<times> 'd sub_socket) res" where
  "server_message self now sock msg st =
     bindR (split msg '':'') (\<lambda>tmp.
       if 0 < length tmp \<and> tmp ! 0 = ''HeartBeat'' then Inr (Continue, st)
       else if 1 < length tmp \<and> tmp ! 0 = ''Subscribe'' then
         mapR (server_reply (''Subscribe:Success:'' @ tmp ! 1 @ '';'') sock)
              (sk_addSubscribe self now sock (tmp ! 1) st)
       else if 1 < length tmp \<and> tmp ! 0 = ''Unsubscribe'' then
         Inr (server_reply (''Unsubscribe:Success:'' @ tmp ! 1 @ '';'') sock st)
       else if 2 < length tmp \<and> tmp ! 0 = ''RunService'' then Inr (server_run sock tmp st)
       else if 2 < length tmp \<and> tmp ! 0 = ''ChannelList'' then
         Inr (server_list ''ChannelList'' getChannelNodeList sock (tmp ! 1) st)
       else if 2 < length tmp \<and> tmp ! 0 = ''ServiceList'' then
         Inr (server_list ''ServiceList'' getServiceNodeList sock (tmp ! 1) st)
       else Inr (Continue, st))"

text \<open>The server branch of socketConnectHandler.\<close>
definition server_handler ::
  "nat \<Rightarrow> int \<Rightarrow> nat option \<Rightarrow> string list \<Rightarrow> int \<Rightarrow> 'd sub_socket \<Rightarrow> (bool \<times> 'd sub_socket) res" where
  "server_handler self now sock chunks final st =
     server_receive (server_message self now sock) chunks final (rx_clear []) [] st"

section \<open>Publication\<close>

fun access_text :: "access_mode \<Rightarrow> string" where
  "access_text DEFAULT = '':U''"
| "access_text READONLY = '':R''"
| "access_text READWRITE = '':W''"

fun type_text :: "data_type \<Rightarrow> string" where
  "type_text UNKNOWN = '':U''"
| "type_text INTDATA = '':I''"
| "type_text STRINGDATA = '':S''"
| "type_text DOUBLEDATA = '':D''"

record 'd value_info =
  vi_accessMode :: access_mode
  vi_dataType :: data_type
  vi_iValue :: int
  vi_dValue :: 'd
  vi_sValue :: string

fun value_text :: "('d \<Rightarrow> string) \<Rightarrow> data_type \<Rightarrow> 'd value_info \<Rightarrow> string" where
  "value_text print UNKNOWN v = []"
| "value_text print INTDATA v = convertToString (vi_iValue v)"
| "value_text print DOUBLEDATA v = print (vi_dValue v)"
| "value_text print STRINGDATA v = encode_colon (vi_sValue v)"

definition update_text :: "('d \<Rightarrow> string) \<Rightarrow> int \<Rightarrow> string \<Rightarrow> 'd value_info \<Rightarrow> string" where
  "update_text print now channelName v =
     ''Update:'' @ channelName @ access_text (vi_accessMode v) @ type_text (vi_dataType v)
       @ '':'' @ value_text print (vi_dataType v) v @ '':'' @ convertToString_long now @ '';''"

text \<open>publish copies the name into \<open>char name[CHANNEL_MAX_LENGTH]\<close> first: a name that leaves no room for
  the terminator writes or reads outside the array.\<close>
definition publish ::
  "('d \<Rightarrow> string) \<Rightarrow> int \<Rightarrow> nat option \<Rightarrow> string \<Rightarrow> 'd value_info \<Rightarrow> 'd sub_socket \<Rightarrow>
     (int \<times> 'd sub_socket) res" where
  "publish print now sock channelName v st =
     (if CHANNEL_MAX_LENGTH \<le> length channelName then Inl Undefined
      else Inr (sk_send (update_text print now channelName v) sock st))"

text \<open>The value sent for an object, by its class.\<close>
fun value_of :: "'d \<Rightarrow> 'd any_data \<Rightarrow> 'd value_info" where
  "value_of zero (ROI d) = \<lparr> vi_accessMode = READONLY, vi_dataType = INTDATA, vi_iValue = dp_value d,
      vi_dValue = zero, vi_sValue = [] \<rparr>"
| "value_of zero (ROD d) = \<lparr> vi_accessMode = READONLY, vi_dataType = DOUBLEDATA, vi_iValue = 0,
      vi_dValue = dp_value d, vi_sValue = [] \<rparr>"
| "value_of zero (RWI d) = \<lparr> vi_accessMode = READWRITE, vi_dataType = INTDATA, vi_iValue = dp_value d,
      vi_dValue = zero, vi_sValue = [] \<rparr>"
| "value_of zero (RWD d) = \<lparr> vi_accessMode = READWRITE, vi_dataType = DOUBLEDATA, vi_iValue = 0,
      vi_dValue = dp_value d, vi_sValue = [] \<rparr>"
| "value_of zero (ROS d) = \<lparr> vi_accessMode = READONLY, vi_dataType = STRINGDATA, vi_iValue = 0,
      vi_dValue = zero, vi_sValue = dp_value d \<rparr>"
| "value_of zero (RWS d) = \<lparr> vi_accessMode = READWRITE, vi_dataType = STRINGDATA, vi_iValue = 0,
      vi_dValue = zero, vi_sValue = dp_value d \<rparr>"

text \<open>The loop of update over the clients: dead ones and those not subscribed are skipped, one whose
  send fails is removed.\<close>
fun update_clients ::
  "('d \<Rightarrow> string) \<Rightarrow> int \<Rightarrow> nat \<Rightarrow> string \<Rightarrow> 'd value_info \<Rightarrow> (nat \<times> (nat, channel_info) omap) list \<Rightarrow>
     'd sub_socket \<Rightarrow> 'd sub_socket res" where
  "update_clients print now d name v [] st = Inr st"
| "update_clients print now d name v ((s, chans) # cs) st =
     (if s \<notin> set (sk_alive st) \<or> \<not> om_has chans d then update_clients print now d name v cs st
      else bindR (publish print now (Some s) name v st) (\<lambda>(r, st').
        update_clients print now d name v cs
          (if r < 0 then st'\<lparr>sk_clients := om_erase s (sk_clients st')\<rparr> else st')))"

definition sk_update ::
  "('d \<Rightarrow> string) \<Rightarrow> 'd \<Rightarrow> int \<Rightarrow> nat \<Rightarrow> 'd sub_socket \<Rightarrow> 'd sub_socket res" where
  "sk_update print zero now d st =
     (case om_find (om_data_store (sk_mgr st)) d of
        None \<Rightarrow> Inl Undefined
      | Some a \<Rightarrow>
          update_clients print now d (ud_fullName (the_ud a)) (value_of zero a) (sk_clients st) st)"

section \<open>Facts\<close>

text \<open>The fields of the message publish sends.\<close>
definition update_fields :: "('d \<Rightarrow> string) \<Rightarrow> int \<Rightarrow> string \<Rightarrow> 'd value_info \<Rightarrow> string list" where
  "update_fields print now name v =
     [''Update'', name, tl (access_text (vi_accessMode v)), tl (type_text (vi_dataType v)),
      value_text print (vi_dataType v) v, convertToString_long now]"

lemma update_text_join:
  "update_text print now name v = join (CHR '':'') (update_fields print now name v) @ '';''"
  by (cases "vi_accessMode v"; cases "vi_dataType v") (simp_all add: update_text_def update_fields_def)

text \<open>What a value must satisfy for its text to pass through the message.\<close>
definition value_clean :: "('d \<Rightarrow> string) \<Rightarrow> 'd value_info \<Rightarrow> bool" where
  "value_clean print v =
     (let t = value_text print (vi_dataType v) v
      in CHR '':'' \<notin> set t \<and> CHR '';'' \<notin> set t \<and> CHR 0x00 \<notin> set t \<and> (t = [] \<or> hd t \<noteq> CHR '' ''))"

definition name_clean :: "string \<Rightarrow> bool" where
  "name_clean n = (CHR '':'' \<notin> set n \<and> CHR '';'' \<notin> set n \<and> CHR 0x00 \<notin> set n \<and> n \<noteq> [] \<and> hd n \<noteq> CHR '' '')"

lemma show_int_last: "last (show_int v) \<noteq> CHR '' ''"
  using show_int_free(4) [of v] last_in_set [OF show_int_not_Nil [of v]] by metis

lemma show_int_hd: "hd (show_int v) \<noteq> CHR '' ''"
  using show_int_free(4) [of v] hd_in_set [OF show_int_not_Nil [of v]] by metis

lemma update_fields_ok:
  "name_clean name \<Longrightarrow> value_clean print v \<Longrightarrow> split_fields (CHR '':'') (update_fields print now name v)"
  by (cases "vi_accessMode v"; cases "vi_dataType v")
    (auto simp: split_fields_def update_fields_def name_clean_def value_clean_def Let_def
      convertToString_long_def show_int_last show_int_hd show_int_free)

lemma update_split:
  "name_clean name \<Longrightarrow> value_clean print v \<Longrightarrow>
   split (join (CHR '':'') (update_fields print now name v)) '':'' = Inr (update_fields print now name v)"
  by (rule split_join) (rule update_fields_ok)

lemma type_of_text: "type_of (tl (type_text t)) = t"
  by (cases t) (simp_all add: type_of_def)

lemma access_of_text: "access_of (tl (access_text m)) = m"
  by (cases m) (simp_all add: access_of_def)

lemma channel_request_fields:
  "name_clean node \<Longrightarrow> last node \<noteq> CHR '' '' \<Longrightarrow>
   split (''ChannelList:'' @ node) '':'' = Inr [''ChannelList'', node]"
proof -
  assume n: "name_clean node" "last node \<noteq> CHR '' ''"
  have "split_fields (CHR '':'') [''ChannelList'', node]"
    using n by (auto simp: split_fields_def name_clean_def)
  from split_join [OF this] show ?thesis by simp
qed

lemma queue_batch_sent:
  "net_raw (sk_net st) = [] \<Longrightarrow> \<forall>d \<in> set ds. d \<noteq> [] \<Longrightarrow>
   \<exists>rest st'. queue_batch sock ds i str st = (False, rest, st') \<and> net_raw (sk_net st') = [] \<and>
     sk_sendList st' = sk_sendList st \<and>
     concat (map snd (net_sent (sk_net st'))) @ rest =
       concat (map snd (net_sent (sk_net st))) @ str @ concat ds"
proof (induction ds arbitrary: i str st)
  case (Cons d ds)
  show ?case
  proof (cases "(i + 1) mod 10 = 0")
    case True
    let ?st = "snd (sk_send (str @ d) (Some sock) st)"
    have "str @ d \<noteq> []" using Cons.prems(2) by simp
    then have pos: "int (length (str @ d)) \<noteq> 0"
      by (simp only: of_nat_eq_0_iff length_0_conv not_False_eq_True)
    have r: "fst (sk_send (str @ d) (Some sock) st) = int (length (str @ d))"
      and net: "net_raw (sk_net ?st) = []" "sk_sendList ?st = sk_sendList st"
        "net_sent (sk_net ?st) = net_sent (sk_net st) @ [(sock, str @ d)]"
      using Cons.prems(1) pos by (simp_all del: length_append add: sk_send_def isocket_send_def send_result_def)
    obtain rest st' where
      q: "queue_batch sock ds (i + 1) [] ?st = (False, rest, st')" "net_raw (sk_net st') = []"
        "sk_sendList st' = sk_sendList ?st"
        "concat (map snd (net_sent (sk_net st'))) @ rest =
         concat (map snd (net_sent (sk_net ?st))) @ [] @ concat ds"
      using Cons.IH [OF net(1), of "i + 1" "[]"] Cons.prems(2) by auto
    have "queue_batch sock (d # ds) i str st = (False, rest, st')"
      using True q(1) r by (cases "sk_send (str @ d) (Some sock) st") (simp add: Let_def)
    then show ?thesis using q net by simp
  next
    case False
    then show ?thesis using Cons.IH [OF Cons.prems(1), of "i + 1" "str @ d"] Cons.prems(2)
      by (simp add: Let_def)
  qed
qed simp

text \<open>The channels a round of the client requests.\<close>
definition due :: "int \<Rightarrow> string \<times> channel_info \<Rightarrow> bool" where
  "due t e = (\<not> ci_isRegistSuccess (snd e) \<and> 5 < t - ci_registTime (snd e))"

definition channel_request :: "string \<times> channel_info \<Rightarrow> string" where
  "channel_request e = ''Subscribe:'' @ fst e @ '';''"

lemma raw_send_sent:
  "net_raw (sk_net st) = [] \<Longrightarrow>
   raw_send s sock st = st\<lparr>sk_net := (sk_net st)\<lparr>net_sent := net_sent (sk_net st) @ [(sock, s)]\<rparr>\<rparr>"
  by (simp add: raw_send_def sk_send_def isocket_send_def)

lemma sk_send_keeps: "sk_channels (snd (sk_send d s st)) = sk_channels st"
  by (simp add: sk_send_def split: prod.split)

lemma queue_batch_channels: "sk_channels (snd (snd (queue_batch sock ds i str st))) = sk_channels st"
proof (induction ds arbitrary: i str st)
  case (Cons d ds)
  show ?case
    using Cons sk_send_keeps [of "str @ d" "Some sock" st]
    by (cases "sk_send (str @ d) (Some sock) st") (simp add: Let_def)
qed simp

text \<open>What the requests of a round leave, sends that work.\<close>
definition batch_result ::
  "int \<Rightarrow> (string \<times> channel_info) list \<Rightarrow> string \<Rightarrow> 'd sub_socket \<Rightarrow> string \<Rightarrow> 'd sub_socket \<Rightarrow> bool" where
  "batch_result t es str st rest st' =
     (net_raw (sk_net st') = [] \<and> sk_sendList st' = sk_sendList st \<and> om_ok (sk_channels st') \<and>
      concat (map snd (net_sent (sk_net st'))) @ rest =
        concat (map snd (net_sent (sk_net st))) @ str @ concat (map channel_request (filter (due t) es)) \<and>
      (\<forall>n. om_find (sk_channels st') n =
        (case map_of (filter (due t) es) n of
           None \<Rightarrow> om_find (sk_channels st) n
         | Some info \<Rightarrow> Some (info\<lparr>ci_registTime := t\<rparr>))))"

lemma batch_result_step:
  assumes "due t (name, info)" "name \<notin> fst ` set es" "om_ok (sk_channels st)"
    and "sk_channels st1 = om_put name (info\<lparr>ci_registTime := t\<rparr>) (sk_channels st)"
    and "sk_sendList st1 = sk_sendList st"
    and "concat (map snd (net_sent (sk_net st1))) @ str1 =
       concat (map snd (net_sent (sk_net st))) @ str @ channel_request (name, info)"
    and "batch_result t es str1 st1 rest st'"
  shows "batch_result t ((name, info) # es) str st rest st'"
proof -
  have "map_of (filter (due t) es) name = None" using assms(2) by (force simp: map_of_eq_None_iff)
  then have "om_find (sk_channels st') n =
        (case map_of (filter (due t) ((name, info) # es)) n of
           None \<Rightarrow> om_find (sk_channels st) n
         | Some info \<Rightarrow> Some (info\<lparr>ci_registTime := t\<rparr>))" for n
    using assms(1,3,4,7) by (simp add: batch_result_def om_find_put split: option.split)
  moreover have "concat (map snd (net_sent (sk_net st'))) @ rest =
      (concat (map snd (net_sent (sk_net st1))) @ str1) @ concat (map channel_request (filter (due t) es))"
    using assms(7) by (simp add: batch_result_def)
  ultimately show ?thesis using assms(1,5,7) unfolding batch_result_def assms(6) by simp
qed

lemma subscribe_batch_sent:
  "net_raw (sk_net st) = [] \<Longrightarrow> om_ok (sk_channels st) \<Longrightarrow> distinct (map fst es) \<Longrightarrow>
   \<exists>rest st'. subscribe_batch t sock es i str st = (rest, st') \<and> batch_result t es str st rest st'"
proof (induction es arbitrary: i str st)
  case Nil
  then show ?case by (simp add: batch_result_def)
next
  case (Cons e es)
  obtain name info where e: "e = (name, info)" by force
  show ?case
  proof (cases "due t e")
    case False
    then have "subscribe_batch t sock (e # es) i str st = subscribe_batch t sock es i str st"
      "batch_result t (e # es) str st = batch_result t es str st"
      using e by (auto simp: due_def batch_result_def fun_eq_iff)
    then show ?thesis using Cons by simp
  next
    case True
    let ?str = "str @ channel_request e"
    let ?st = "st\<lparr>sk_channels := om_put name (info\<lparr>ci_registTime := t\<rparr>) (sk_channels st)\<rparr>"
    let ?m = "(i + 1) mod 10 = 0"
    define st1 where "st1 = (if ?m then raw_send ?str sock ?st else ?st)"
    define str1 where "str1 = (if ?m then [] else ?str)"
    have run: "subscribe_batch t sock (e # es) i str st = subscribe_batch t sock es (i + 1) str1 st1"
      using True e by (simp add: st1_def str1_def due_def channel_request_def Let_def)
    have raw: "raw_send ?str sock ?st =
        ?st\<lparr>sk_net := (sk_net st)\<lparr>net_sent := net_sent (sk_net st) @ [(sock, ?str)]\<rparr>\<rparr>"
      using raw_send_sent [of ?st ?str sock] Cons.prems(1) by simp
    have c: "sk_channels st1 = om_put name (info\<lparr>ci_registTime := t\<rparr>) (sk_channels st)"
      "sk_sendList st1 = sk_sendList st" "net_raw (sk_net st1) = []"
      "concat (map snd (net_sent (sk_net st1))) @ str1 = concat (map snd (net_sent (sk_net st))) @ ?str"
      unfolding st1_def str1_def raw using Cons.prems(1) by simp_all
    have "om_ok (sk_channels st1)" using c(1) Cons.prems(2) by (simp add: om_ok_put)
    from Cons.IH [OF c(3) this, of "i + 1" str1] Cons.prems(3) obtain rest st' where
      r: "subscribe_batch t sock es (i + 1) str1 st1 = (rest, st')" "batch_result t es str1 st1 rest st'" by auto
    have "name \<notin> fst ` set es" using Cons.prems(3) e by simp
    from batch_result_step [OF _ this Cons.prems(2) c(1,2) _ r(2), of str] True c(4) e
    have "batch_result t (e # es) str st rest st'" by simp
    then show ?thesis using run r(1) by simp
  qed
qed

text \<open>A publication reaches the living clients that subscribed to the object, in the order of the map.\<close>
lemma update_clients_sent:
  "net_raw (sk_net st) = [] \<Longrightarrow> length name < CHANNEL_MAX_LENGTH \<Longrightarrow>
   update_clients print now d name v cs st =
     Inr (st\<lparr>sk_net := (sk_net st)\<lparr>net_sent := net_sent (sk_net st) @
       map (\<lambda>c. (fst c, update_text print now name v))
         (filter (\<lambda>c. fst c \<in> set (sk_alive st) \<and> om_has (snd c) d) cs)\<rparr>\<rparr>)"
proof (induction cs arbitrary: st)
  case (Cons c cs)
  obtain s chans where c: "c = (s, chans)" by force
  let ?st = "st\<lparr>sk_net := (sk_net st)\<lparr>net_sent := net_sent (sk_net st) @ [(s, update_text print now name v)]\<rparr>\<rparr>"
  have "int (length (update_text print now name v)) \<noteq> 0"
    by (simp only: of_nat_eq_0_iff length_0_conv) (simp add: update_text_def)
  then have p: "publish print now (Some s) name v st = Inr (int (length (update_text print now name v)), ?st)"
    using Cons.prems by (simp add: publish_def sk_send_def isocket_send_def send_result_def)
  have "net_raw (sk_net ?st) = []" using Cons.prems by simp
  from Cons.IH [OF this Cons.prems(2)] show ?case
    using Cons.IH [OF Cons.prems] by (simp add: c p)
qed simp

section \<open>Values on the wire\<close>

text \<open>The values whose text survives the message: any 32-bit integer, a double whose printed form is read
  back, a text that is safe to encode and free of the frame's characters.\<close>
definition double_ok :: "(string \<Rightarrow> 'd) \<Rightarrow> ('d \<Rightarrow> string) \<Rightarrow> 'd \<Rightarrow> bool" where
  "double_ok atof print x =
     (atof (print x) = x \<and> set (print x) \<inter> set '':;% '' = {} \<and> CHR 0x00 \<notin> set (print x) \<and>
      length (print x) < 2 ^ 61)"

definition string_ok :: "string \<Rightarrow> bool" where
  "string_ok s = (colon_safe s \<and> CHR '';'' \<notin> set s \<and> CHR 0x00 \<notin> set s \<and> (s = [] \<or> hd s \<noteq> CHR '' ''))"

fun wire_ok :: "(string \<Rightarrow> 'd) \<Rightarrow> ('d \<Rightarrow> string) \<Rightarrow> 'd any_data \<Rightarrow> bool" where
  "wire_ok atof print (ROI d) = int32 (dp_value d)"
| "wire_ok atof print (RWI d) = int32 (dp_value d)"
| "wire_ok atof print (ROD d) = double_ok atof print (dp_value d)"
| "wire_ok atof print (RWD d) = double_ok atof print (dp_value d)"
| "wire_ok atof print (ROS d) = string_ok (dp_value d)"
| "wire_ok atof print (RWS d) = string_ok (dp_value d)"

text \<open>The text an object's value has after decoding.\<close>
fun plain_text :: "('d \<Rightarrow> string) \<Rightarrow> 'd any_data \<Rightarrow> string" where
  "plain_text print (ROI d) = show_int (dp_value d)"
| "plain_text print (RWI d) = show_int (dp_value d)"
| "plain_text print (ROD d) = print (dp_value d)"
| "plain_text print (RWD d) = print (dp_value d)"
| "plain_text print (ROS d) = dp_value d"
| "plain_text print (RWS d) = dp_value d"

lemma string_ok_clean:
  "string_ok s \<Longrightarrow> CHR '':'' \<notin> set (encode_colon s) \<and> CHR '';'' \<notin> set (encode_colon s) \<and>
     CHR 0x00 \<notin> set (encode_colon s) \<and> (encode_colon s = [] \<or> hd (encode_colon s) \<noteq> CHR '' '')"
  using encode_colon_free [of s] encode_keeps(1) [of "CHR '';''" s] encode_keeps(1) [of "CHR 0x00" s]
    encode_colon_hd_last [of s]
  by (cases "s = []") (auto simp: string_ok_def)

lemma double_ok_clean: "double_ok atof print x \<Longrightarrow> print x = [] \<or> hd (print x) \<noteq> CHR '' ''"
  by (cases "print x") (auto simp: double_ok_def)

lemma wire_ok_clean: "wire_ok atof print a \<Longrightarrow> value_clean print (value_of zero a)"
  by (cases a) (simp_all add: value_clean_def convertToString_def show_int_free show_int_no_zero
      show_int_hd double_ok_clean string_ok_clean, simp_all add: double_ok_def)

lemma wire_ok_decode:
  "wire_ok atof print a \<Longrightarrow>
   decode_colon (value_text print (vi_dataType (value_of zero a)) (value_of zero a)) = Inr (plain_text print a)"
  by (cases a) (auto simp: convertToString_def decode_show_int decode_colon_id
      double_ok_def string_ok_def decode_encode_colon)

lemma value_of_on_ud [simp]: "value_of zero (on_ud f a) = value_of zero a"
  by (cases a) simp_all

text \<open>The object a client creates for a new channel has the value published, but for the writable
  integer, whose constructor takes it for a bound.\<close>
definition arrived :: "'d \<Rightarrow> 'd any_data \<Rightarrow> 'd value_info" where
  "arrived zero a = (case a of RWI d \<Rightarrow> (value_of zero a)\<lparr>vi_iValue := 0\<rparr> | _ \<Rightarrow> value_of zero a)"

lemma new_client_data_arrived:
  "wire_ok atof print a \<Longrightarrow>
   \<exists>a'. new_client_data atof z (vi_accessMode (value_of zero a)) (vi_dataType (value_of zero a)) (plain_text print a) =
      Some a' \<and> value_of zero a' = arrived zero a"
  by (cases a) (simp_all add: new_client_data_def arrived_def atoi_show_int double_ok_def
      ReadOnlyInt_def ReadWriteInt_def ReadOnlyDouble_def ReadWriteDouble_def ReadOnlyString_def
      ReadWriteString_def typed_point_def untyped_data.defs data_point.defs)

end
