(* ===== verification/Mutex.thy ===== *)
theory Mutex
  imports Ick_Prelude
begin

text \<open>
  IMutex (src/mutex.cc).  On Windows lock and unlock are those of a kernel mutex, which the owner
  may lock again and which stays owned until every lock has been undone; on Linux both bodies are
  empty.  The step relation runs any number of threads through a critical section.
\<close>

datatype platform = Windows | Linux

text \<open>The kernel object: the owning thread and how often it has locked.\<close>
record mutex =
  mx_owner :: "nat option"
  mx_count :: nat

definition new_mutex :: mutex where
  "new_mutex = \<lparr> mx_owner = None, mx_count = 0 \<rparr>"

text \<open>None: the thread waits.\<close>
definition mutex_lock :: "platform \<Rightarrow> nat \<Rightarrow> mutex \<Rightarrow> mutex option" where
  "mutex_lock p t m =
     (case p of
        Linux \<Rightarrow> Some m
      | Windows \<Rightarrow>
          (case mx_owner m of
             None \<Rightarrow> Some \<lparr> mx_owner = Some t, mx_count = 1 \<rparr>
           | Some u \<Rightarrow> if u = t then Some (m\<lparr>mx_count := mx_count m + 1\<rparr>) else None))"

text \<open>ReleaseMutex by a thread that does not own the mutex fails and changes nothing.\<close>
definition mutex_unlock :: "platform \<Rightarrow> nat \<Rightarrow> mutex \<Rightarrow> mutex" where
  "mutex_unlock p t m =
     (case p of
        Linux \<Rightarrow> m
      | Windows \<Rightarrow>
          if mx_owner m = Some t then
            (if mx_count m \<le> 1 then new_mutex else m\<lparr>mx_count := mx_count m - 1\<rparr>)
          else m)"

definition mutex_ok :: "mutex \<Rightarrow> bool" where
  "mutex_ok m = (mx_owner m = None \<longleftrightarrow> mx_count m = 0)"

lemma mutex_lock_Linux [simp]: "mutex_lock Linux t m = Some m"
  by (simp add: mutex_lock_def)

lemma mutex_unlock_Linux [simp]: "mutex_unlock Linux t m = m"
  by (simp add: mutex_unlock_def)

lemma mutex_ok_new [simp]: "mutex_ok new_mutex"
  by (simp add: mutex_ok_def new_mutex_def)

lemma mutex_ok_lock: "mutex_ok m \<Longrightarrow> mutex_lock p t m = Some m' \<Longrightarrow> mutex_ok m'"
  by (cases p) (auto simp: mutex_lock_def mutex_ok_def split: option.splits if_splits)

lemma mutex_ok_unlock: "mutex_ok m \<Longrightarrow> mutex_ok (mutex_unlock p t m)"
  by (cases p) (auto simp: mutex_unlock_def mutex_ok_def new_mutex_def)

text \<open>A lock and its unlock leave the mutex as it was.\<close>
lemma lock_unlock: "mutex_ok m \<Longrightarrow> mutex_lock p t m = Some m' \<Longrightarrow> mutex_unlock p t m' = m"
  by (cases p; cases m)
    (auto simp: mutex_lock_def mutex_unlock_def mutex_ok_def new_mutex_def split: option.splits if_splits)

lemma lock_owner: "mutex_lock Windows t m = Some m' \<Longrightarrow> mx_owner m' = Some t \<and> 0 < mx_count m'"
  by (auto simp: mutex_lock_def split: option.splits if_splits)

lemma lock_count:
  "mutex_lock Windows t m = Some m' \<Longrightarrow>
   mx_count m' = (if mx_owner m = None then 1 else mx_count m + 1)"
  by (auto simp: mutex_lock_def split: option.splits if_splits)

lemma lock_free: "mutex_lock Windows t m = Some m' \<Longrightarrow> mx_owner m \<noteq> Some t \<Longrightarrow> mx_owner m = None"
  by (auto simp: mutex_lock_def split: option.splits if_splits)

lemma locked_blocks: "mx_owner m = Some t \<Longrightarrow> u \<noteq> t \<Longrightarrow> mutex_lock Windows u m = None"
  by (simp add: mutex_lock_def)

section \<open>Threads in a critical section\<close>

datatype loc = Outside | Inside

type_synonym section_state = "(nat \<Rightarrow> loc) \<times> mutex"

inductive cs_step :: "platform \<Rightarrow> section_state \<Rightarrow> section_state \<Rightarrow> bool" for p where
  cs_enter: "pc t = Outside \<Longrightarrow> mutex_lock p t m = Some m' \<Longrightarrow> cs_step p (pc, m) (pc(t := Inside), m')"
| cs_leave: "pc t = Inside \<Longrightarrow> cs_step p (pc, m) (pc(t := Outside), mutex_unlock p t m)"

inductive_cases cs_stepE: "cs_step p s s'"

inductive cs_reach :: "platform \<Rightarrow> section_state \<Rightarrow> bool" for p where
  cs_init: "cs_reach p (\<lambda>_. Outside, new_mutex)"
| cs_next: "cs_reach p s \<Longrightarrow> cs_step p s s' \<Longrightarrow> cs_reach p s'"

text \<open>On Windows whoever is inside owns the mutex, once; nobody inside means nobody owns it.\<close>
definition cs_inv :: "section_state \<Rightarrow> bool" where
  "cs_inv s =
     (case s of (pc, m) \<Rightarrow>
        (\<forall>t. pc t = Inside \<longleftrightarrow> mx_owner m = Some t) \<and>
        (mx_owner m \<noteq> None \<longrightarrow> mx_count m = 1))"

lemma cs_inv_step: "cs_inv s \<Longrightarrow> cs_step Windows s s' \<Longrightarrow> cs_inv s'"
proof (erule cs_stepE)
  fix pc t m m'
  assume s: "cs_inv s" "s = (pc, m)" "s' = (pc(t := Inside), m')" "pc t = Outside"
    "mutex_lock Windows t m = Some m'"
  have i: "pc u = Inside \<longleftrightarrow> mx_owner m = Some u" for u
    using s(1,2) by (simp add: cs_inv_def)
  have "mx_owner m \<noteq> Some t" using i [of t] s(4) by simp
  then have m': "mx_owner m = None" "mx_owner m' = Some t" "mx_count m' = 1"
    using lock_free [OF s(5)] lock_owner [OF s(5)] lock_count [OF s(5)] by simp_all
  then show "cs_inv s'" using i by (simp add: cs_inv_def s(3))
next
  fix pc t m
  assume s: "cs_inv s" "s = (pc, m)" "s' = (pc(t := Outside), mutex_unlock Windows t m)" "pc t = Inside"
  then have "mx_owner m = Some t" "mx_count m = 1" by (auto simp: cs_inv_def)
  with s show "cs_inv s'" by (auto simp: cs_inv_def mutex_unlock_def new_mutex_def)
qed

lemma cs_inv_reach: "cs_reach Windows s \<Longrightarrow> cs_inv s"
proof (induction rule: cs_reach.induct)
  case cs_init
  show ?case by (simp add: cs_inv_def new_mutex_def)
next
  case (cs_next s s')
  then show ?case using cs_inv_step by blast
qed

lemma cs_inside_owner: "cs_reach Windows (pc, m) \<Longrightarrow> pc t = Inside \<Longrightarrow> mx_owner m = Some t"
  by (drule cs_inv_reach) (simp only: cs_inv_def prod.case)

end
