(* ===== verification/Storm_Manager.thy ===== *)
theory Storm_Manager
  imports Subscriber_Socket Mutex
begin

text \<open>
  The managers of remote subscriptions, IckStormManager (src/ick_storm_manager.cc) and its clone
  IckStormSubscriberManager (src/ick_storm_subscriber_manager.cc), the Service requests they pass
  on, and the server-side IckStormPublisher (src/ick_storm_publisher.cc).  The mutex of each is
  explicit, so that a path that leaves it locked shows: \<open>t\<close> is the calling thread and an operation
  that has to wait returns None.  A missing return value is the result None of type \<open>bool option\<close>.
\<close>

record storm_manager =
  sm_lists :: sub_lists
  sm_socket :: bool                     \<comment> \<open>m_subscriberSocket is not null\<close>
  sm_serviceSocket :: bool
  sm_mutex :: mutex
  sm_requests :: "string list"          \<comment> \<open>channels passed to the socket's subscribe\<close>
  sm_sendData :: "string list"          \<comment> \<open>texts passed to addSendData\<close>
  sm_services :: "(string \<times> string \<times> string) list"
  sm_leaked :: nat                      \<comment> \<open>name buffers never deleted\<close>

definition new_storm_manager :: storm_manager where
  "new_storm_manager = \<lparr> sm_lists = new_sub_lists, sm_socket = False, sm_serviceSocket = False,
     sm_mutex = new_mutex, sm_requests = [], sm_sendData = [], sm_services = [], sm_leaked = 0 \<rparr>"

text \<open>What a call does: the value it returns (None: the function ends without a return statement), or
  the text it throws.\<close>
datatype call_result = Returns bool | No_Value | Throws string

text \<open>\<open>subscriber(IckStormSubscriber*, SubscirberCallBack)\<close>; the identity of the subscriber is given.\<close>
definition subscriber_object ::
  "platform \<Rightarrow> nat \<Rightarrow> string \<Rightarrow> nat option \<Rightarrow> storm_manager \<Rightarrow> (call_result \<times> storm_manager) option" where
  "subscriber_object p t identity callback m =
     (case mutex_lock p t (sm_mutex m) of
        None \<Rightarrow> None
      | Some mx \<Rightarrow>
          if identity = [] then
            Some (Throws ''IckStormManager::subscriber: subscriber identity is empty'', m\<lparr>sm_mutex := mx\<rparr>)
          else
            (let m1 = (case callback of
                         None \<Rightarrow> m
                       | Some cb \<Rightarrow> m\<lparr>sm_lists := (sm_lists m)\<lparr>sl_callbacks :=
                           list_add identity cb (sl_callbacks (sm_lists m))\<rparr>\<rparr>)
             in Some (No_Value, m1\<lparr>sm_mutex := mutex_unlock p t mx\<rparr>)))"

text \<open>\<open>subscriber(channelName, SubscirberCallBack)\<close>: without a socket it returns with the mutex locked.\<close>
definition subscriber_callback ::
  "platform \<Rightarrow> nat \<Rightarrow> string \<Rightarrow> nat option \<Rightarrow> storm_manager \<Rightarrow> (call_result \<times> storm_manager) option" where
  "subscriber_callback p t channelName callback m =
     (case mutex_lock p t (sm_mutex m) of
        None \<Rightarrow> None
      | Some mx \<Rightarrow>
          if \<not> sm_socket m then
            Some (Returns False, m\<lparr>sm_mutex := mx, sm_leaked := sm_leaked m + 1\<rparr>)
          else
            (let m1 = (case callback of
                         None \<Rightarrow> m
                       | Some cb \<Rightarrow> m\<lparr>sm_lists := addCallbackEntry channelName cb (sm_lists m)\<rparr>)
             in Some (No_Value, m1\<lparr>sm_requests := sm_requests m @ [channelName],
                                  sm_mutex := mutex_unlock p t mx\<rparr>)))"

text \<open>\<open>subscriber(channelName, Subscriber* )\<close> unlocks on both paths (and leaks the buffer on one).\<close>
definition subscriber_subscriber ::
  "platform \<Rightarrow> nat \<Rightarrow> string \<Rightarrow> nat option \<Rightarrow> storm_manager \<Rightarrow> (call_result \<times> storm_manager) option" where
  "subscriber_subscriber p t channelName subscriber m =
     (case mutex_lock p t (sm_mutex m) of
        None \<Rightarrow> None
      | Some mx \<Rightarrow>
          if \<not> sm_socket m then
            Some (Returns False, m\<lparr>sm_mutex := mutex_unlock p t mx, sm_leaked := sm_leaked m + 1\<rparr>)
          else
            (let m1 = (case subscriber of
                         None \<Rightarrow> m
                       | Some s \<Rightarrow> m\<lparr>sm_lists := addSubscriberEntry channelName s (sm_lists m)\<rparr>)
             in Some (Returns True, m1\<lparr>sm_requests := sm_requests m @ [channelName],
                                      sm_mutex := mutex_unlock p t mx\<rparr>)))"

text \<open>The body of unsubscriber is commented out: it returns true.\<close>
definition unsubscriber :: "string \<Rightarrow> storm_manager \<Rightarrow> call_result \<times> storm_manager" where
  "unsubscriber channelName m = (Returns True, m)"

definition manager_getSubscriberList :: "string \<Rightarrow> storm_manager \<Rightarrow> nat list \<times> storm_manager" where
  "manager_getSubscriberList channelName m =
     (getSubscriberList channelName (sm_lists m), m\<lparr>sm_leaked := sm_leaked m + 1\<rparr>)"

definition manager_getSubscriberCallBackList :: "string \<Rightarrow> storm_manager \<Rightarrow> nat list \<times> storm_manager" where
  "manager_getSubscriberCallBackList channelName m =
     (getSubscriberCallBackList channelName (sm_lists m), m)"

definition setIckStormSubscriberSocket :: "bool \<Rightarrow> storm_manager \<Rightarrow> storm_manager" where
  "setIckStormSubscriberSocket nonnull m = (if nonnull then m\<lparr>sm_socket := True\<rparr> else m)"

definition setIckStormServiceSocket :: "bool \<Rightarrow> storm_manager \<Rightarrow> storm_manager" where
  "setIckStormServiceSocket nonnull m = (if nonnull then m\<lparr>sm_serviceSocket := True\<rparr> else m)"

definition getNodeInfoList :: "string \<Rightarrow> storm_manager \<Rightarrow> storm_manager" where
  "getNodeInfoList node m =
     (if node = [] then m
      else if sm_socket m then m\<lparr>sm_sendData := sm_sendData m @ [''ChannelList:'' @ node @ '';'']\<rparr>
      else m)"

definition manager_runService :: "string \<Rightarrow> string \<Rightarrow> string \<Rightarrow> storm_manager \<Rightarrow> storm_manager" where
  "manager_runService objectName serviceName param m =
     (if sm_serviceSocket m
      then m\<lparr>sm_services := sm_services m @ [(objectName, serviceName, param)]\<rparr> else m)"

section \<open>The clone\<close>

text \<open>The overload with a name, a remote subscriber and a callback returns false; that with a remote and a local
  subscriber, whose body is commented out, returns true.\<close>
definition subscriber_named :: "string \<Rightarrow> nat option \<Rightarrow> storm_manager \<Rightarrow> call_result \<times> storm_manager" where
  "subscriber_named channelName callback m = (Returns False, m)"

definition subscriber_remote :: "string \<Rightarrow> nat option \<Rightarrow> storm_manager \<Rightarrow> call_result \<times> storm_manager" where
  "subscriber_remote channelName subscriber m = (Returns True, m)"

text \<open>src/ick_storm_subscriber_manager.cc repeats the bodies under another class name; only the text
  thrown differs.\<close>
definition clone_subscriber_object ::
  "platform \<Rightarrow> nat \<Rightarrow> string \<Rightarrow> nat option \<Rightarrow> storm_manager \<Rightarrow> (call_result \<times> storm_manager) option" where
  "clone_subscriber_object p t identity callback m =
     (case mutex_lock p t (sm_mutex m) of
        None \<Rightarrow> None
      | Some mx \<Rightarrow>
          if identity = [] then
            Some (Throws ''IckStormSubscriberManager::subscriber: subscriber identity is empty'',
                  m\<lparr>sm_mutex := mx\<rparr>)
          else
            (let m1 = (case callback of
                         None \<Rightarrow> m
                       | Some cb \<Rightarrow> m\<lparr>sm_lists := (sm_lists m)\<lparr>sl_callbacks :=
                           list_add identity cb (sl_callbacks (sm_lists m))\<rparr>\<rparr>)
             in Some (No_Value, m1\<lparr>sm_mutex := mutex_unlock p t mx\<rparr>)))"

definition clone_subscriber_callback ::
  "platform \<Rightarrow> nat \<Rightarrow> string \<Rightarrow> nat option \<Rightarrow> storm_manager \<Rightarrow> (call_result \<times> storm_manager) option" where
  "clone_subscriber_callback = subscriber_callback"

definition clone_subscriber_subscriber ::
  "platform \<Rightarrow> nat \<Rightarrow> string \<Rightarrow> nat option \<Rightarrow> storm_manager \<Rightarrow> (call_result \<times> storm_manager) option" where
  "clone_subscriber_subscriber = subscriber_subscriber"

definition clone_subscriber_named :: "string \<Rightarrow> nat option \<Rightarrow> storm_manager \<Rightarrow> call_result \<times> storm_manager" where
  "clone_subscriber_named = subscriber_named"

definition clone_subscriber_remote :: "string \<Rightarrow> nat option \<Rightarrow> storm_manager \<Rightarrow> call_result \<times> storm_manager" where
  "clone_subscriber_remote = subscriber_remote"

definition clone_unsubscriber :: "string \<Rightarrow> storm_manager \<Rightarrow> call_result \<times> storm_manager" where
  "clone_unsubscriber = unsubscriber"

definition clone_getSubscriberList :: "string \<Rightarrow> storm_manager \<Rightarrow> nat list \<times> storm_manager" where
  "clone_getSubscriberList = manager_getSubscriberList"

definition clone_getSubscriberCallBackList :: "string \<Rightarrow> storm_manager \<Rightarrow> nat list \<times> storm_manager" where
  "clone_getSubscriberCallBackList = manager_getSubscriberCallBackList"

definition clone_setIckStormSubscriberSocket :: "bool \<Rightarrow> storm_manager \<Rightarrow> storm_manager" where
  "clone_setIckStormSubscriberSocket = setIckStormSubscriberSocket"

definition clone_getNodeInfoList :: "string \<Rightarrow> storm_manager \<Rightarrow> storm_manager" where
  "clone_getNodeInfoList = getNodeInfoList"

section \<open>The publisher\<close>

record subscriber_info =
  pi_objectId :: string
  pi_endPoint :: string

record 'd publisher =
  pb_subscribers :: "(string, subscriber_info list) omap"
  pb_mgr :: "'d manager"
  pb_mutex :: mutex

definition undash :: "char \<Rightarrow> char" where
  "undash c = (if c = CHR ''-'' then CHR ''/'' else c)"

text \<open>addSubscriber enters the subscriber, then looks the channel up (dashes read as slashes) and
  throws, with the mutex locked, when it is no data object.\<close>
definition addSubscriber ::
  "platform \<Rightarrow> nat \<Rightarrow> nat \<Rightarrow> subscriber_info \<Rightarrow> 'd publisher \<Rightarrow> (call_result \<times> 'd publisher) option" where
  "addSubscriber p t self info pb =
     (case mutex_lock p t (pb_mutex pb) of
        None \<Rightarrow> None
      | Some mx \<Rightarrow>
          (let subs = (case om_find (pb_subscribers pb) (pi_objectId info) of
                         Some l \<Rightarrow> om_put (pi_objectId info) (l @ [info]) (pb_subscribers pb)
                       | None \<Rightarrow> om_insert (pi_objectId info) [info] (pb_subscribers pb));
               strName = c_string (map undash (pi_objectId info));
               pb1 = pb\<lparr>pb_subscribers := subs, pb_mutex := mx\<rparr>
           in case data_ref (getObject strName (pb_mgr pb)) of
                None \<Rightarrow> Some (Throws (''subscribe failed exception, for channel '' @ strName), pb1)
              | Some d \<Rightarrow>
                  Some (No_Value, pb1\<lparr>pb_mgr := on_store d (ud_subscribe (Some self)) (pb_mgr pb),
                                     pb_mutex := mutex_unlock p t mx\<rparr>)))"

text \<open>The loop of removeSubscriber advances the map iterator instead of the list iterator: when the
  first entry is not the one sought, the next test compares iterators of different containers.\<close>
definition removeSubscriber ::
  "platform \<Rightarrow> nat \<Rightarrow> subscriber_info \<Rightarrow> 'd publisher \<Rightarrow> 'd publisher option res" where
  "removeSubscriber p t info pb =
     (case mutex_lock p t (pb_mutex pb) of
        None \<Rightarrow> Inr None
      | Some mx \<Rightarrow>
          (let strName = channelPath (pi_objectId info)
           in case om_find (pb_subscribers pb) strName of
                None \<Rightarrow> Inr (Some (pb\<lparr>pb_mutex := mutex_unlock p t mx\<rparr>))
              | Some [] \<Rightarrow>
                  Inr (Some (pb\<lparr>pb_subscribers := om_erase strName (pb_subscribers pb),
                               pb_mutex := mutex_unlock p t mx\<rparr>))
              | Some (e # es) \<Rightarrow>
                  if pi_endPoint e = pi_endPoint info then
                    Inr (Some (pb\<lparr>pb_subscribers :=
                        (if es = [] then om_erase strName (pb_subscribers pb)
                         else om_put strName es (pb_subscribers pb)),
                      pb_mutex := mutex_unlock p t mx\<rparr>))
                  else Inl Undefined))"

text \<open>publish takes the mutex and gives it back: what it did in between is commented out.\<close>
definition publisher_publish :: "platform \<Rightarrow> nat \<Rightarrow> 'd publisher \<Rightarrow> 'd publisher option" where
  "publisher_publish p t pb =
     (case mutex_lock p t (pb_mutex pb) of
        None \<Rightarrow> None
      | Some mx \<Rightarrow> Some (pb\<lparr>pb_mutex := mutex_unlock p t mx\<rparr>))"

text \<open>update publishes a changed point of the two classes it knows.\<close>
definition publisher_update :: "platform \<Rightarrow> nat \<Rightarrow> 'd any_data \<Rightarrow> 'd publisher \<Rightarrow> 'd publisher option" where
  "publisher_update p t a pb =
     (if \<not> ud_isChanged (the_ud a) then Some pb
      else case a of
             ROI d \<Rightarrow> publisher_publish p t pb
           | ROD d \<Rightarrow> publisher_publish p t pb
           | _ \<Rightarrow> Some pb)"

section \<open>Facts\<close>

definition storm_ok :: "storm_manager \<Rightarrow> bool" where
  "storm_ok m = (sub_lists_ok (sm_lists m) \<and> mutex_ok (sm_mutex m))"

lemma sub_lists_ok_new: "sub_lists_ok new_sub_lists"
  by (simp add: sub_lists_ok_def new_sub_lists_def)

lemma storm_ok_new: "storm_ok new_storm_manager"
  by (simp add: storm_ok_def new_storm_manager_def sub_lists_ok_new)

lemma lock_free_mutex: "mx_owner (sm_mutex m) = None \<Longrightarrow>
   \<exists>mx. mutex_lock p t (sm_mutex m) = Some mx"
  by (cases p) (simp_all add: mutex_lock_def)

lemma unlock_free: "mutex_lock Windows t mx = Some mx' \<Longrightarrow> mx_owner mx = None \<Longrightarrow>
   mx_owner (mutex_unlock Windows t mx') = None"
  using lock_owner [of t mx mx'] lock_count [of t mx mx']
  by (simp add: mutex_unlock_def new_mutex_def)

section \<open>Sequences of subscriptions\<close>

text \<open>A sequence of subscriptions by one thread.\<close>
fun subscribe_all ::
  "platform \<Rightarrow> nat \<Rightarrow> (string \<times> nat) list \<Rightarrow> storm_manager \<Rightarrow> storm_manager option" where
  "subscribe_all p t [] m = Some m"
| "subscribe_all p t ((c, s) # xs) m =
     (case subscriber_subscriber p t c (Some s) m of
        Some (Returns True, m') \<Rightarrow> subscribe_all p t xs m'
      | _ \<Rightarrow> None)"

lemma subscriber_subscriber_free:
  assumes "sm_socket m" "storm_ok m" "mx_owner (sm_mutex m) = None"
  shows "subscriber_subscriber p t c (Some s) m = Some (Returns True,
     m\<lparr>sm_lists := addSubscriberEntry c s (sm_lists m), sm_requests := sm_requests m @ [c]\<rparr>)"
proof -
  obtain mx where mx: "mutex_lock p t (sm_mutex m) = Some mx" using lock_free_mutex [OF assms(3)] by blast
  have "mutex_unlock p t mx = sm_mutex m"
    using assms(2) by (intro lock_unlock [OF _ mx]) (simp add: storm_ok_def)
  then show ?thesis using assms(1) by (simp add: subscriber_subscriber_def mx Let_def)
qed

lemma subscribe_all_ok:
  "sm_socket m \<Longrightarrow> storm_ok m \<Longrightarrow> mx_owner (sm_mutex m) = None \<Longrightarrow>
   subscribe_all p t xs m = Some (m\<lparr>sm_lists := fold (\<lambda>(c, s). addSubscriberEntry c s) xs (sm_lists m),
     sm_requests := sm_requests m @ map fst xs\<rparr>)"
proof (induction xs arbitrary: m)
  case (Cons x xs)
  obtain c s where x: "x = (c, s)" by force
  let ?m1 = "m\<lparr>sm_lists := addSubscriberEntry c s (sm_lists m), sm_requests := sm_requests m @ [c]\<rparr>"
  have "storm_ok ?m1" using Cons.prems(2) subscriber_reg.add_ok by (simp add: storm_ok_def)
  then show ?case using Cons.IH [of ?m1] Cons.prems by (simp add: x subscriber_subscriber_free)
qed simp

end
