(* ===== verification/Service_Socket.thy ===== *)
theory Service_Socket
  imports Subscriber_Socket Mutex
begin

text \<open>
  The service socket of src/ick_storm_service_socket.cc: the client side keeps a queue of service
  requests and sends them, with a heartbeat, each time its handler runs; the server side confirms a
  request and calls the control object.  The mutex is explicit, since the handler returns with it
  locked when a send fails.
\<close>

record service_request =
  sr_objectName :: string
  sr_serviceName :: string
  sr_param :: string

record 'd service_socket =
  ss_host :: string
  ss_port :: int
  ss_isClient :: bool
  ss_serviceToRun :: "service_request list"
  ss_mutex :: mutex
  ss_net :: net
  ss_lastHeartBeatTime :: int
  ss_mgr :: "'d manager"
  ss_events :: "sock_event list"

section \<open>Client\<close>

definition service_addService ::
  "platform \<Rightarrow> nat \<Rightarrow> string \<Rightarrow> string \<Rightarrow> string \<Rightarrow> 'd service_socket \<Rightarrow> 'd service_socket option" where
  "service_addService p t objectName serviceName param st =
     (case mutex_lock p t (ss_mutex st) of
        None \<Rightarrow> None
      | Some mx \<Rightarrow>
          Some (st\<lparr>ss_serviceToRun := ss_serviceToRun st @
                     [\<lparr> sr_objectName = objectName, sr_serviceName = serviceName, sr_param = param \<rparr>],
                   ss_mutex := mutex_unlock p t mx\<rparr>))"

definition service_setHost :: "string \<Rightarrow> 'd service_socket \<Rightarrow> 'd service_socket" where
  "service_setHost host st = st\<lparr>ss_host := host\<rparr>"

definition service_setPort :: "int \<Rightarrow> 'd service_socket \<Rightarrow> 'd service_socket" where
  "service_setPort port st = st\<lparr>ss_port := port\<rparr>"

definition service_setServer :: "bool \<Rightarrow> 'd service_socket \<Rightarrow> 'd service_socket" where
  "service_setServer isServer st = st\<lparr>ss_isClient := \<not> isServer\<rparr>"

definition service_send :: "string \<Rightarrow> nat option \<Rightarrow> 'd service_socket \<Rightarrow> int \<times> 'd service_socket" where
  "service_send data sock st =
     (case isocket_send data sock (ss_net st) of (r, n) \<Rightarrow> (r, st\<lparr>ss_net := n\<rparr>))"

definition request_text :: "service_request \<Rightarrow> string" where
  "request_text r =
     ''RunService:'' @ sr_objectName r @ '':'' @ sr_serviceName r @ '':'' @ sr_param r @ '';''"

text \<open>The loop over the queue: a request is erased once it is sent; True when a send failed.\<close>
fun run_queue ::
  "nat option \<Rightarrow> service_request list \<Rightarrow> 'd service_socket \<Rightarrow> bool \<times> 'd service_socket" where
  "run_queue sock [] st = (False, st\<lparr>ss_serviceToRun := []\<rparr>)"
| "run_queue sock (r # rs) st =
     (case service_send (request_text r) sock st of
        (flag, st') \<Rightarrow>
          if flag < 0 then (True, st'\<lparr>ss_serviceToRun := r # rs\<rparr>)
          else run_queue sock rs st')"

text \<open>The client branch of socketConnectHandler; both early returns keep the mutex.\<close>
definition service_client ::
  "platform \<Rightarrow> nat \<Rightarrow> int \<Rightarrow> nat option \<Rightarrow> 'd service_socket \<Rightarrow> (bool \<times> 'd service_socket) option" where
  "service_client p t now sock st =
     (case mutex_lock p t (ss_mutex st) of
        None \<Rightarrow> None
      | Some mx \<Rightarrow>
          (case run_queue sock (ss_serviceToRun st) (st\<lparr>ss_mutex := mx\<rparr>) of
             (failed, st1) \<Rightarrow>
               if failed then Some (False, st1)
               else if 60 < now - ss_lastHeartBeatTime st1 then
                 (case service_send ''HeartBeat;'' sock st1 of
                    (flag, st2) \<Rightarrow>
                      if flag < 0 then Some (False, st2)
                      else Some (True, st2\<lparr>ss_lastHeartBeatTime := now, ss_mutex := mutex_unlock p t mx\<rparr>))
               else Some (True, st1\<lparr>ss_mutex := mutex_unlock p t mx\<rparr>)))"

section \<open>Server\<close>

definition service_message ::
  "nat option \<Rightarrow> string \<Rightarrow> 'd service_socket \<Rightarrow> (outcome \<times> 'd service_socket) res" where
  "service_message sock msg st =
     bindR (split msg '':'') (\<lambda>tmp.
       if 2 < length tmp \<and> tmp ! 0 = ''RunService'' then
         (let objectName = tmp ! 1; serviceName = tmp ! 2;
              params = (if 3 < length tmp then tmp ! 3 else [])
          in case service_send (''RunService:Success:'' @ objectName @ '':'' @ serviceName @ '';'') sock st of
               (flag, st') \<Rightarrow>
                 if flag < 0 then Inr (Break, st')
                 else (case getObject objectName (ss_mgr st') of
                         Some (CtrlRef c) \<Rightarrow>
                           Inr (Continue, st'\<lparr>ss_events := ss_events st' @
                             [CallService objectName serviceName params]\<rparr>)
                       | _ \<Rightarrow> Inr (Continue, st')))
       else Inr (Continue, st))"

text \<open>The server branch of socketConnectHandler.\<close>
definition service_server ::
  "nat option \<Rightarrow> string list \<Rightarrow> int \<Rightarrow> 'd service_socket \<Rightarrow> (bool \<times> 'd service_socket) res" where
  "service_server sock chunks final st =
     server_receive (service_message sock) chunks final (rx_clear []) [] st"

section \<open>Facts\<close>

lemma service_send_ok:
  "net_raw (ss_net st) = [] \<Longrightarrow> d \<noteq> [] \<Longrightarrow>
   service_send d (Some s) st =
     (int (length d), st\<lparr>ss_net := (ss_net st)\<lparr>net_sent := net_sent (ss_net st) @ [(s, d)]\<rparr>\<rparr>)"
  by (simp add: service_send_def isocket_send_def send_result_def)

definition svc_sent :: "nat \<Rightarrow> string list \<Rightarrow> 'd service_socket \<Rightarrow> 'd service_socket" where
  "svc_sent s ds st =
     st\<lparr>ss_net := (ss_net st)\<lparr>net_sent := net_sent (ss_net st) @ map (\<lambda>d. (s, d)) ds\<rparr>\<rparr>"

lemma svc_sent_simps [simp]:
  "net_raw (ss_net (svc_sent s ds st)) = net_raw (ss_net st)"
  "net_sent (ss_net (svc_sent s ds st)) = net_sent (ss_net st) @ map (\<lambda>d. (s, d)) ds"
  "ss_serviceToRun (svc_sent s ds st) = ss_serviceToRun st"
  "ss_mutex (svc_sent s ds st) = ss_mutex st"
  "ss_mgr (svc_sent s ds st) = ss_mgr st"
  "ss_events (svc_sent s ds st) = ss_events st"
  "ss_lastHeartBeatTime (svc_sent s ds st) = ss_lastHeartBeatTime st"
  by (simp_all add: svc_sent_def)

lemma svc_sent_Nil [simp]: "svc_sent s [] st = st"
  by (simp add: svc_sent_def)

lemma svc_sent_app: "svc_sent s es (svc_sent s ds st) = svc_sent s (ds @ es) st"
  by (simp add: svc_sent_def)

lemma request_text_nonempty: "request_text r \<noteq> []"
  by (simp add: request_text_def)

lemma service_send_sent:
  "net_raw (ss_net st) = [] \<Longrightarrow> d \<noteq> [] \<Longrightarrow>
   service_send d (Some s) st = (int (length d), svc_sent s [d] st)"
  by (simp add: service_send_ok svc_sent_def)

lemma run_queue_ok:
  "net_raw (ss_net st) = [] \<Longrightarrow>
   run_queue (Some s) rs st = (False, (svc_sent s (map request_text rs) st)\<lparr>ss_serviceToRun := []\<rparr>)"
proof (induction rs arbitrary: st)
  case (Cons r rs)
  then show ?case
    by (simp add: service_send_sent request_text_nonempty svc_sent_app del: length_greater_0_conv)
qed simp

lemma run_queue_keeps:
  "run_queue sock rs st = (True, st') \<Longrightarrow>
   \<exists>done. rs = done @ ss_serviceToRun st' \<and> ss_serviceToRun st' \<noteq> []"
proof (induction rs arbitrary: st)
  case (Cons r rs)
  obtain flag st1 where s: "service_send (request_text r) sock st = (flag, st1)" by force
  show ?case
  proof (cases "flag < 0")
    case True
    then have "ss_serviceToRun st' = r # rs" using Cons.prems s by auto
    then show ?thesis by auto
  next
    case False
    then have "run_queue sock rs st1 = (True, st')" using Cons.prems s by simp
    from Cons.IH [OF this] obtain d where "rs = d @ ss_serviceToRun st'" "ss_serviceToRun st' \<noteq> []"
      by blast
    then have "r # rs = (r # d) @ ss_serviceToRun st' \<and> ss_serviceToRun st' \<noteq> []" by simp
    then show ?thesis by blast
  qed
qed simp

lemma service_send_mutex: "service_send d s st = (r, st') \<Longrightarrow> ss_mutex st' = ss_mutex st"
  by (auto simp: service_send_def split: prod.splits)

lemma run_queue_mutex: "run_queue sock rs st = (b, st') \<Longrightarrow> ss_mutex st' = ss_mutex st"
proof (induction rs arbitrary: st)
  case (Cons r rs)
  obtain flag st1 where s: "service_send (request_text r) sock st = (flag, st1)" by force
  then show ?case using Cons service_send_mutex [OF s] by (auto split: if_splits)
qed auto

section \<open>From the queue to the call\<close>

text \<open>A request whose texts pass through the message unchanged.\<close>
definition request_ok :: "service_request \<Rightarrow> bool" where
  "request_ok r =
     (name_clean (sr_objectName r) \<and> name_clean (sr_serviceName r) \<and>
      name_clean (sr_param r) \<and> last (sr_param r) \<noteq> CHR '' '')"

definition request_fields :: "service_request \<Rightarrow> string list" where
  "request_fields r = [''RunService'', sr_objectName r, sr_serviceName r, sr_param r]"

lemma request_split:
  "request_ok r \<Longrightarrow> split (join (CHR '':'') (request_fields r)) '':'' = Inr (request_fields r)"
  by (rule split_join) (auto simp: split_fields_def request_fields_def request_ok_def name_clean_def)

lemma request_message_ok: "request_ok r \<Longrightarrow> message_ok (join (CHR '':'') (request_fields r))"
  by (auto simp: message_ok_def request_fields_def request_ok_def name_clean_def)

lemma request_texts_stream:
  "concat (map request_text rs) = stream (map (\<lambda>r. join (CHR '':'') (request_fields r)) rs)"
  by (induction rs) (simp_all add: request_text_def request_fields_def)

text \<open>What the server does with one request of a registered control object.\<close>
definition confirm_text :: "service_request \<Rightarrow> string" where
  "confirm_text r = ''RunService:Success:'' @ sr_objectName r @ '':'' @ sr_serviceName r @ '';''"

definition call_event :: "service_request \<Rightarrow> sock_event" where
  "call_event r = CallService (sr_objectName r) (sr_serviceName r) (sr_param r)"

definition served :: "nat \<Rightarrow> service_request list \<Rightarrow> 'd service_socket \<Rightarrow> 'd service_socket" where
  "served s rs st =
     (svc_sent s (map confirm_text rs) st)\<lparr>ss_events := ss_events st @ map call_event rs\<rparr>"

definition is_ctrl :: "'d manager \<Rightarrow> string \<Rightarrow> bool" where
  "is_ctrl m n = (case getObject n m of Some (CtrlRef _) \<Rightarrow> True | _ \<Rightarrow> False)"

lemma served_Nil [simp]: "served s [] st = st"
  by (simp add: served_def)

lemma served_Cons: "served s (r # rs) st = served s rs (served s [r] st)"
  by (simp add: served_def svc_sent_def)

lemma served_simps [simp]:
  "net_raw (ss_net (served s rs st)) = net_raw (ss_net st)" "ss_mgr (served s rs st) = ss_mgr st"
  by (simp_all add: served_def svc_sent_def)

lemma service_message_request:
  assumes "request_ok r" "net_raw (ss_net st) = []" "is_ctrl (ss_mgr st) (sr_objectName r)"
  shows "service_message (Some s) (join (CHR '':'') (request_fields r)) st = Inr (Continue, served s [r] st)"
proof -
  obtain c where c: "getObject (sr_objectName r) (ss_mgr st) = Some (CtrlRef c)"
    using assms(3) by (auto simp: is_ctrl_def split: option.splits object_ref.splits)
  have s: "service_send (confirm_text r) (Some s) st =
      (int (length (confirm_text r)), svc_sent s [confirm_text r] st)"
    by (rule service_send_sent [OF assms(2)]) (simp add: confirm_text_def)
  note split = request_split [OF assms(1)]
  show ?thesis
    unfolding service_message_def split bindR.simps Let_def
    using s c by (simp add: request_fields_def confirm_text_def served_def call_event_def)
qed

lemma server_frames_requests:
  assumes "\<forall>r \<in> set rs. request_ok r" "\<not> rx_full len []"
  shows "net_raw (ss_net st) = [] \<Longrightarrow> \<forall>r \<in> set rs. is_ctrl (ss_mgr st) (sr_objectName r) \<Longrightarrow>
     \<exists>b. server_frames (service_message (Some s)) len datas
       (map (\<lambda>r. join (CHR '':'') (request_fields r)) rs) buf [] st =
     Inr (Continue, b, [], served s rs st)"
  using assms(1)
proof (induction rs arbitrary: st buf)
  case (Cons r rs)
  have m: "service_message (Some s) (join (CHR '':'') (request_fields r)) st =
      Inr (Continue, served s [r] st)"
    using Cons.prems by (intro service_message_request) auto
  have "\<exists>b. server_frames (service_message (Some s)) len datas
       (map (\<lambda>r. join (CHR '':'') (request_fields r)) rs) (rx_clear []) [] (served s [r] st) =
     Inr (Continue, b, [], served s rs (served s [r] st))"
    using Cons.prems by (intro Cons.IH) auto
  then show ?case using m assms(2) by (simp add: served_Cons [of s r rs])
qed simp

lemma service_server_requests:
  assumes ok: "\<forall>r \<in> set rs. request_ok r" and ctrl: "\<forall>r \<in> set rs. is_ctrl (ss_mgr st) (sr_objectName r)"
    and net: "net_raw (ss_net st) = []" and short: "length (concat (map request_text rs)) < BUFF - 1"
  shows "service_server (Some s) [concat (map request_text rs)] final st = Inr (0 \<le> final, served s rs st)"
proof -
  let ?ms = "map (\<lambda>r. join (CHR '':'') (request_fields r)) rs"
  have mok: "\<forall>m \<in> set ?ms. message_ok m" using ok request_message_ok by simp
  have short': "length (stream ?ms) < BUFF - 1" using short by (simp only: request_texts_stream)
  have z: "rx_text (rx_write (rx_clear []) (length ([] :: string)) (stream ?ms)) = stream ?ms"
    using rx_write_clear [of "stream ?ms" "[]"] stream_no_zero [OF mok] short'
    by (simp add: BUFF_def)
  have nf: "\<not> rx_full (length (stream ?ms)) []" using short' by (auto simp: rx_full_def BUFF_def)
  then have c: "take (rx_count (length (stream ?ms)) [] ?ms) ?ms = ?ms" by (simp add: rx_count_def)
  obtain b where f: "server_frames (service_message (Some s)) (length (stream ?ms)) ?ms ?ms
      (rx_write (rx_clear []) (length ([] :: string)) (stream ?ms)) [] st =
      Inr (Continue, b, [], served s rs st)"
    using server_frames_requests [OF ok nf net ctrl] by blast
  show ?thesis
    unfolding service_server_def request_texts_stream server_receive.simps Let_def z
      split_stream [OF mok] bindR.simps c f by simp
qed

end
