(* ===== verification/Forwarders.thy ===== *)
theory Forwarders
  imports Service_Socket Storm_Manager
begin

text \<open>
  The sockets that forward data and service requests (src/ick_storm_data_forwarder.cc,
  src/ick_storm_service_forwarder.cc), the debugger socket (src/ick_storm_debugger_socket.cc), the
  remote subscriber (src/ick_storm_subscriber.cc) and the descriptions of values it builds
  (src/value_info.cc, src/int_value_info.cc, src/type_info.cc).  \<open>fatal\<close> says whether an error of
  ::send ends the handler: always on Linux, for a reset or aborted connection on Windows.
\<close>

section \<open>Data forwarder\<close>

record 'd data_forwarder =
  df_messages :: "string list"
  df_mutex :: mutex
  df_net :: net
  df_lastHeartBeatTime :: int
  df_isClient :: bool
  df_host :: string
  df_port :: int
  df_interval :: int
  df_mgr :: "'d manager"

text \<open>startup subscribes the forwarder to every data object.\<close>
definition df_subscribe_all :: "nat \<Rightarrow> 'd manager \<Rightarrow> 'd manager" where
  "df_subscribe_all self m = fold (\<lambda>(n, oid). on_store oid (ud_subscribe (Some self))) (om_datas m) m"

definition df_startup :: "nat \<Rightarrow> 'd data_forwarder \<Rightarrow> 'd data_forwarder" where
  "df_startup self df = df\<lparr>df_mgr := df_subscribe_all self (df_mgr df)\<rparr>"

fun df_value_text :: "('d \<Rightarrow> string) \<Rightarrow> data_type \<Rightarrow> 'd value_info \<Rightarrow> string" where
  "df_value_text print UNKNOWN v = []"
| "df_value_text print INTDATA v = convertToString (vi_iValue v)"
| "df_value_text print STRINGDATA v = vi_sValue v"
| "df_value_text print DOUBLEDATA v = print (vi_dValue v)"

text \<open>The message of update: as publish builds it, but a string goes out as it is.\<close>
definition df_text :: "('d \<Rightarrow> string) \<Rightarrow> int \<Rightarrow> string \<Rightarrow> 'd value_info \<Rightarrow> string" where
  "df_text print now channelName v =
     ''Update:'' @ channelName @ access_text (vi_accessMode v) @ type_text (vi_dataType v)
       @ '':'' @ df_value_text print (vi_dataType v) v @ '':'' @ convertToString_long now @ '';''"

text \<open>The value of an object is read with getValue, which may ask the driver and change the object.\<close>
definition df_read ::
  "('d \<Rightarrow> 'd \<Rightarrow> bool) \<Rightarrow> int reader \<Rightarrow> 'd reader \<Rightarrow> string reader \<Rightarrow> 'd any_data \<Rightarrow> 'd any_data" where
  "df_read differs ri rd rs a =
     (case a of
        ROI d \<Rightarrow> ROI (snd (ReadOnlyInt_getValue ri d))
      | ROD d \<Rightarrow> ROD (snd (ReadOnlyDouble_getValue differs rd d))
      | RWI d \<Rightarrow> RWI (snd (ReadWriteInt_getValue ri d))
      | RWD d \<Rightarrow> RWD (snd (ReadWriteDouble_getValue d))
      | ROS d \<Rightarrow> ROS (snd (ReadOnlyString_getValue rs d))
      | RWS d \<Rightarrow> RWS (snd (ReadWriteString_getValue rs d)))"

text \<open>None inside the result: the caller waits for the mutex.\<close>
definition df_update ::
  "platform \<Rightarrow> nat \<Rightarrow> ('d \<Rightarrow> string) \<Rightarrow> 'd \<Rightarrow> ('d \<Rightarrow> 'd \<Rightarrow> bool) \<Rightarrow> int reader \<Rightarrow> 'd reader \<Rightarrow> string reader \<Rightarrow>
     int \<Rightarrow> nat option \<Rightarrow> 'd data_forwarder \<Rightarrow>
     'd data_forwarder option res" where
  "df_update p t print zero differs ri rd rs now d df =
     (case d of
        None \<Rightarrow> Inr (Some df)
      | Some i \<Rightarrow>
          (case om_find (om_data_store (df_mgr df)) i of
             None \<Rightarrow> Inl Undefined
           | Some a \<Rightarrow>
               (let a' = df_read differs ri rd rs a;
                    df1 = df\<lparr>df_mgr := (df_mgr df)\<lparr>om_data_store := om_put i a' (om_data_store (df_mgr df))\<rparr>\<rparr>
                in Inr (case mutex_lock p t (df_mutex df) of
                          None \<Rightarrow> None
                        | Some mx \<Rightarrow>
                            Some (df1\<lparr>df_messages := df_messages df @
                                       [df_text print now (ud_fullName (the_ud a)) (value_of zero a')],
                                     df_mutex := mutex_unlock p t mx\<rparr>)))))"

text \<open>The system call: its raw result, and whether the data went out.\<close>
definition raw_net_send :: "string \<Rightarrow> nat \<Rightarrow> net \<Rightarrow> int \<times> net" where
  "raw_net_send data s n =
     (case net_raw n of
        [] \<Rightarrow> (int (length data), n\<lparr>net_sent := net_sent n @ [(s, data)]\<rparr>)
      | r # rs \<Rightarrow> (r, if 0 < r then n\<lparr>net_sent := net_sent n @ [(s, take (nat r) data)], net_raw := rs\<rparr>
                     else n\<lparr>net_raw := rs\<rparr>))"

definition send_fails :: "bool \<Rightarrow> int \<Rightarrow> bool" where
  "send_fails fatal len = ((len = -1 \<and> fatal) \<or> len = 0)"

text \<open>The loop over the queue: a packet goes out when the eleventh message has been added.\<close>
fun df_batch :: "bool \<Rightarrow> nat \<Rightarrow> string list \<Rightarrow> nat \<Rightarrow> string \<Rightarrow> net \<Rightarrow> bool \<times> string \<times> net" where
  "df_batch fatal s [] index str n = (False, str, n)"
| "df_batch fatal s (m # ms) index str n =
     (if 10 \<le> index then
        (case raw_net_send (str @ m) s n of
           (len, n') \<Rightarrow> if send_fails fatal len then (True, [], n') else df_batch fatal s ms 0 [] n')
      else df_batch fatal s ms (index + 1) (str @ m) n)"

text \<open>getCurrentTimeAsSeconds: zero on Linux.\<close>
definition seconds_now :: "platform \<Rightarrow> int \<Rightarrow> int" where
  "seconds_now p now = (case p of Windows \<Rightarrow> now | Linux \<Rightarrow> 0)"

definition df_handler ::
  "platform \<Rightarrow> nat \<Rightarrow> bool \<Rightarrow> int \<Rightarrow> nat \<Rightarrow> 'd data_forwarder \<Rightarrow> (bool \<times> 'd data_forwarder) option" where
  "df_handler p t fatal now s df =
     (case mutex_lock p t (df_mutex df) of
        None \<Rightarrow> None
      | Some mx \<Rightarrow>
          (case df_batch fatal s (df_messages df) 0 [] (df_net df) of
             (failed, str, n) \<Rightarrow>
               if failed then Some (False, df\<lparr>df_net := n, df_mutex := mx\<rparr>)
               else
                 (let df1 = df\<lparr>df_messages := [], df_net := n, df_mutex := mutex_unlock p t mx\<rparr>;
                      (len, n1) = (if str \<noteq> [] then raw_net_send str s n else (1, n));
                      df2 = df1\<lparr>df_net := n1\<rparr>
                  in if str \<noteq> [] \<and> send_fails fatal len then Some (False, df2)
                     else if 60 < seconds_now p now - df_lastHeartBeatTime df2 then
                       (case raw_net_send ''HeartBeat;'' s n1 of
                          (len2, n2) \<Rightarrow>
                            Some (\<not> send_fails fatal len2,
                                  df2\<lparr>df_net := n2, df_lastHeartBeatTime := seconds_now p now\<rparr>))
                     else Some (True, df2))))"

definition df_setHost :: "string \<Rightarrow> 'd data_forwarder \<Rightarrow> 'd data_forwarder" where
  "df_setHost host df = df\<lparr>df_host := host\<rparr>"

definition df_setPort :: "int \<Rightarrow> 'd data_forwarder \<Rightarrow> 'd data_forwarder" where
  "df_setPort port df = df\<lparr>df_port := port\<rparr>"

definition df_setServer :: "bool \<Rightarrow> 'd data_forwarder \<Rightarrow> 'd data_forwarder" where
  "df_setServer isServer df = df\<lparr>df_isClient := \<not> isServer\<rparr>"

definition df_setInterval :: "int \<Rightarrow> 'd data_forwarder \<Rightarrow> 'd data_forwarder" where
  "df_setInterval interval df = df\<lparr>df_interval := interval\<rparr>"

section \<open>Service forwarder\<close>

text \<open>The message loop of the client: as the service socket's, but the raw result of ::send is tested.\<close>
definition sf_message ::
  "nat \<Rightarrow> string \<Rightarrow> 'd service_socket \<Rightarrow> (outcome \<times> 'd service_socket) res" where
  "sf_message s msg st =
     bindR (split msg '':'') (\<lambda>tmp.
       if 2 < length tmp \<and> tmp ! 0 = ''RunService'' then
         (let objectName = tmp ! 1; serviceName = tmp ! 2;
              params = (if 3 < length tmp then tmp ! 3 else [])
          in case raw_net_send (''RunService:Success:'' @ objectName @ '':'' @ serviceName @ '';'') s (ss_net st) of
               (flag, n) \<Rightarrow>
                 (let st' = st\<lparr>ss_net := n\<rparr>
                  in if flag \<le> 0 then Inr (Break, st')
                     else (case getObject objectName (ss_mgr st') of
                         Some (CtrlRef c) \<Rightarrow>
                           Inr (Continue, st'\<lparr>ss_events := ss_events st' @
                             [CallService objectName serviceName params]\<rparr>)
                       | _ \<Rightarrow> Inr (Continue, st'))))
       else Inr (Continue, st))"

text \<open>The handler: \<open>final\<close> is the last result of recv; only an error that is not fatal lets it go on.\<close>
definition sf_handler ::
  "bool \<Rightarrow> nat \<Rightarrow> string list \<Rightarrow> int \<Rightarrow> 'd service_socket \<Rightarrow> (bool \<times> 'd service_socket) res" where
  "sf_handler fatal s chunks final st =
     (if ss_isClient st then
        mapR (\<lambda>(_, st'). (final = -1 \<and> \<not> fatal, st'))
          (server_receive (sf_message s) chunks final (rx_clear []) [] st)
      else Inr (True, st))"

section \<open>Debugger socket\<close>

text \<open>The client reads and splits, and does nothing with what it has read.\<close>
fun debugger_receive :: "string list \<Rightarrow> string \<Rightarrow> string \<Rightarrow> unit res" where
  "debugger_receive [] buf strTmp = Inr ()"
| "debugger_receive (c # cs) buf strTmp =
     bindR (client_pass (\<lambda>d s. mapR (\<lambda>_. s) (split d '':'')) c buf strTmp ())
       (\<lambda>(buf', strTmp', s). debugger_receive cs buf' strTmp')"

text \<open>The result, the network and the time of the last heartbeat.\<close>
definition debugger_handler ::
  "bool \<Rightarrow> bool \<Rightarrow> int \<Rightarrow> nat \<Rightarrow> string list \<Rightarrow> int \<Rightarrow> net \<times> int \<Rightarrow> (bool \<times> net \<times> int) res" where
  "debugger_handler isClient fatal now s chunks final st =
     (case st of
        (n, lastTime) \<Rightarrow>
          if \<not> isClient then Inr (True, n, lastTime)
          else
            bindR (debugger_receive chunks (rx_clear []) []) (\<lambda>_.
            if final \<noteq> -1 \<or> fatal then Inr (False, n, lastTime)
            else if 60 < now - lastTime then
              (case raw_net_send ''HeartBeat;'' s n of
                 (flag, n') \<Rightarrow>
                   if flag \<le> 0 \<and> (flag \<noteq> -1 \<or> fatal) then Inr (False, n', lastTime)
                   else Inr (True, n', now))
            else Inr (True, n, lastTime)))"

section \<open>Descriptions of values\<close>

text \<open>A field that a constructor leaves uninitialised is None.\<close>
record value_desc =
  vd_accessMode :: "access_mode option"
  vd_dataType :: "data_type option"
  vd_minValue :: "int option"
  vd_maxValue :: "int option"
  vd_unit :: string
  vd_description :: string
  vd_name :: string

definition ValueInfo :: "access_mode \<Rightarrow> data_type \<Rightarrow> access_mode option \<times> data_type option" where
  "ValueInfo accessMode dataType = (None, None)"

definition ValueInfo_remote :: "access_mode \<Rightarrow> data_type \<Rightarrow> access_mode option \<times> data_type option" where
  "ValueInfo_remote accessMode dataType = (Some accessMode, Some dataType)"

definition IntValueInfo :: "int \<Rightarrow> int \<Rightarrow> value_desc" where
  "IntValueInfo minValue maxValue =
     \<lparr> vd_accessMode = None, vd_dataType = None, vd_minValue = Some minValue, vd_maxValue = Some maxValue,
       vd_unit = [], vd_description = [], vd_name = [] \<rparr>"

definition IntValueInfo_typed :: "access_mode \<Rightarrow> data_type \<Rightarrow> value_desc" where
  "IntValueInfo_typed accessMode dataType =
     \<lparr> vd_accessMode = None, vd_dataType = None, vd_minValue = None, vd_maxValue = None,
       vd_unit = [], vd_description = [], vd_name = [] \<rparr>"

definition IntValueInfo_remote :: "access_mode \<Rightarrow> data_type \<Rightarrow> value_desc" where
  "IntValueInfo_remote accessMode dataType =
     \<lparr> vd_accessMode = Some accessMode, vd_dataType = Some dataType, vd_minValue = Some (- (2 ^ 31)),
       vd_maxValue = Some (2 ^ 31 - 1), vd_unit = [], vd_description = [], vd_name = [] \<rparr>"

definition TypeInfo :: "data_type \<Rightarrow> access_mode \<Rightarrow> data_type \<times> access_mode" where
  "TypeInfo dataType accessMode = (dataType, accessMode)"

section \<open>The remote subscriber\<close>

record storm_subscriber =
  st_channelName :: string
  st_channelIdentity :: string
  st_callback :: "nat option"

definition IckStormSubscriber :: "string \<Rightarrow> nat option \<Rightarrow> storm_subscriber" where
  "IckStormSubscriber channelName callback =
     \<lparr> st_channelName = channelName, st_channelIdentity = channelPath channelName, st_callback = callback \<rparr>"

text \<open>What a callback is given: the string is never filled in.\<close>
record 'd callback_value =
  cv_accessMode :: access_mode
  cv_dataType :: data_type
  cv_iValue :: int
  cv_dValue :: 'd
  cv_timeStamp :: int

datatype 'd remote_event =
    RemoteUpdate nat "'d any_data option"
  | RemoteCallback nat string "'d callback_value"

definition remote_data :: "'d \<Rightarrow> 'd value_info \<Rightarrow> 'd any_data option" where
  "remote_data zero v =
     (if vi_accessMode v = READONLY \<and> vi_dataType v = INTDATA then Some (ROI (ReadOnlyInt (vi_iValue v)))
      else if vi_accessMode v = READONLY \<and> vi_dataType v = DOUBLEDATA
      then Some (ROD (ReadOnlyDouble zero (vi_dValue v)))
      else None)"

definition storm_update ::
  "'d \<Rightarrow> string \<Rightarrow> 'd value_info \<Rightarrow> int \<Rightarrow> sub_lists \<Rightarrow> 'd remote_event list" where
  "storm_update zero channelName v timeStamp sl =
     map (\<lambda>s. RemoteUpdate s (remote_data zero v)) (getSubscriberList channelName sl)
     @ map (\<lambda>c. RemoteCallback c channelName
          \<lparr> cv_accessMode = vi_accessMode v, cv_dataType = vi_dataType v, cv_iValue = vi_iValue v,
            cv_dValue = vi_dValue v, cv_timeStamp = timeStamp \<rparr>)
        (getSubscriberCallBackList channelName sl)"

section \<open>Facts\<close>

text \<open>Without a colon in the string the forwarder sends what publish sends.\<close>
lemma df_text_eq:
  "vi_dataType v = STRINGDATA \<longrightarrow> CHR '':'' \<notin> set (vi_sValue v) \<Longrightarrow>
   df_text print now name v = update_text print now name v"
  by (cases "vi_dataType v") (simp_all add: df_text_def update_text_def encode_colon_id)

lemma raw_net_send_ok:
  "net_raw n = [] \<Longrightarrow> raw_net_send d s n = (int (length d), n\<lparr>net_sent := net_sent n @ [(s, d)]\<rparr>)"
  by (simp add: raw_net_send_def)

text \<open>When every send works, the queue goes out whole and in order.\<close>
lemma df_batch_sent:
  "net_raw n = [] \<Longrightarrow> \<forall>m \<in> set ms. m \<noteq> [] \<Longrightarrow>
   \<exists>rest n'. df_batch fatal s ms index str n = (False, rest, n') \<and> net_raw n' = [] \<and>
     concat (map snd (net_sent n')) @ rest = concat (map snd (net_sent n)) @ str @ concat ms"
proof (induction ms arbitrary: index str n)
  case (Cons m ms)
  show ?case
  proof (cases "10 \<le> index")
    case True
    have ne: "str @ m \<noteq> []" using Cons.prems(2) by simp
    then have pos: "int (length (str @ m)) \<noteq> 0"
      by (simp only: of_nat_eq_0_iff length_0_conv not_False_eq_True)
    then have f: "\<not> send_fails fatal (int (length (str @ m)))" by (simp add: send_fails_def)
    let ?n = "n\<lparr>net_sent := net_sent n @ [(s, str @ m)]\<rparr>"
    have sd: "raw_net_send (str @ m) s n = (int (length (str @ m)), ?n)"
      by (rule raw_net_send_ok [OF Cons.prems(1)])
    have "net_raw ?n = []" "\<forall>m \<in> set ms. m \<noteq> []" using Cons.prems by simp_all
    from Cons.IH [OF this, of 0 "[]"] obtain rest n' where
      q: "df_batch fatal s ms 0 [] ?n = (False, rest, n')" "net_raw n' = []"
        "concat (map snd (net_sent n')) @ rest = concat (map snd (net_sent ?n)) @ [] @ concat ms" by blast
    have "df_batch fatal s (m # ms) index str n = (False, rest, n')"
      using True sd f q(1) by (simp del: length_append)
    then show ?thesis using q(2,3) by simp
  next
    case False
    then show ?thesis using Cons.IH [OF Cons.prems(1), of "index + 1" "str @ m"] Cons.prems(2) by simp
  qed
qed simp

lemma df_text_nonempty: "df_text print now name v \<noteq> []"
  by (simp add: df_text_def)

lemma sf_handler_Linux: "ss_isClient st \<Longrightarrow> sf_handler True s chunks final st = Inr (r, st') \<Longrightarrow> \<not> r"
  by (auto simp: sf_handler_def res_simps)

end
