(* ===== verification/Socket_Life.thy ===== *)
theory Socket_Life
  imports Subscriber_Socket Mutex
begin

text \<open>
  The life of a socket in src/socket.cc: connect, the accept loop of execute, the thread that runs the
  message handler until it fails, and the reconnection.  The system calls are arguments: \<open>net_env\<close>
  holds their outcomes.  \<open>lv_started\<close> counts the calls of start, \<open>lv_handlers\<close> lists the sockets for
  which a handler thread was created.
\<close>

datatype socket_type = SOCKET_TCP | SOCKET_UDP

record net_env =
  ne_bind :: bool
  ne_listen :: bool
  ne_connect :: bool
  ne_gethostname :: bool
  ne_gethostbyname :: "string option"   \<comment> \<open>the first address of the host\<close>
  ne_error :: int

record live_socket =
  lv_isClient :: bool
  lv_type :: socket_type
  lv_host :: string
  lv_port :: int
  lv_udpClientHost :: string
  lv_isReconnect :: bool
  lv_reconnectTimeInterval :: int
  lv_isDataSimulated :: bool
  lv_recvBlockMode :: bool
  lv_started :: nat
  lv_clients :: client_map
  lv_alive :: "nat list"
  lv_handlers :: "nat list"

definition new_live_socket :: "bool \<Rightarrow> socket_type \<Rightarrow> string \<Rightarrow> int \<Rightarrow> live_socket" where
  "new_live_socket isClient type host port =
     \<lparr> lv_isClient = isClient, lv_type = type, lv_host = host, lv_port = port,
       lv_udpClientHost = ''127.0.0.1'', lv_isReconnect = True, lv_reconnectTimeInterval = 1000,
       lv_isDataSimulated = False, lv_recvBlockMode = True, lv_started = 0, lv_clients = [],
       lv_alive = [], lv_handlers = [] \<rparr>"

definition lv_start :: "live_socket \<Rightarrow> live_socket" where
  "lv_start s = s\<lparr>lv_started := lv_started s + 1\<rparr>"

section \<open>connect\<close>

definition socket_error :: "string \<Rightarrow> net_env \<Rightarrow> live_socket \<Rightarrow> err" where
  "socket_error what env s =
     Throw (''Socket '' @ what @ '' error: '' @ lv_host s @ '':'' @ convertToString (lv_port s) @
            '', error id: '' @ convertToString (ne_error env))"

text \<open>The server side; on Linux the branches for a failed bind or listen are empty.\<close>
definition connect_server :: "platform \<Rightarrow> net_env \<Rightarrow> live_socket \<Rightarrow> (bool \<times> live_socket) res" where
  "connect_server p env s =
     (case lv_type s of
        SOCKET_UDP \<Rightarrow> Inr (True, lv_start s)
      | SOCKET_TCP \<Rightarrow>
          if \<not> ne_bind env \<and> p = Windows then Inl (socket_error ''bind'' env s)
          else if \<not> ne_listen env \<and> p = Windows then Inl (socket_error ''listen'' env s)
          else Inr (True, lv_start s))"

text \<open>The client side.  The results -1 of the datagram branch are converted to bool, that is true.\<close>
definition connect_client :: "net_env \<Rightarrow> live_socket \<Rightarrow> (bool \<times> live_socket) res" where
  "connect_client env s =
     (case lv_type s of
        SOCKET_TCP \<Rightarrow> if ne_connect env then Inr (True, lv_start s) else Inr (False, s)
      | SOCKET_UDP \<Rightarrow>
          if \<not> ne_gethostname env then Inr (True, s)
          else (case ne_gethostbyname env of
                  None \<Rightarrow> Inr (True, s)
                | Some ip \<Rightarrow>
                    (let s1 = (if lv_udpClientHost s = ''127.0.0.1'' \<or> lv_udpClientHost s = ''localhost''
                               then s\<lparr>lv_udpClientHost := ip\<rparr> else s)
                     in if \<not> ne_bind env then Inr (False, s1)
                        else if \<not> ne_connect env then Inl (Throw ''Socket connet failed!'')
                        else Inr (True, lv_start s1))))"

definition socket_connect :: "platform \<Rightarrow> net_env \<Rightarrow> live_socket \<Rightarrow> (bool \<times> live_socket) res" where
  "socket_connect p env s = (if \<not> lv_isClient s then connect_server p env s else connect_client env s)"

section \<open>The accept loop\<close>

text \<open>One round of execute's loop for a server: \<open>accepted\<close> is the new socket, None an error.\<close>
definition accept_one :: "platform \<Rightarrow> int \<Rightarrow> nat option \<Rightarrow> live_socket \<Rightarrow> live_socket res" where
  "accept_one p errorId accepted s =
     (case accepted of
        Some c \<Rightarrow>
          Inr (s\<lparr>lv_clients := insertClientSocket (Some c) (lv_clients s), lv_alive := c # lv_alive s,
                 lv_handlers := (case p of Windows \<Rightarrow> lv_handlers s @ [c] | Linux \<Rightarrow> lv_handlers s)\<rparr>)
      | None \<Rightarrow>
          (case p of
             Windows \<Rightarrow> Inl (Throw (''Socket accept error! error id: '' @ convertToString errorId))
           | Linux \<Rightarrow> Inr s))"

fun accept_loop :: "platform \<Rightarrow> int \<Rightarrow> nat option list \<Rightarrow> live_socket \<Rightarrow> live_socket res" where
  "accept_loop p errorId [] s = Inr s"
| "accept_loop p errorId (a # as) s = bindR (accept_one p errorId a s) (accept_loop p errorId as)"

text \<open>execute of a client: the socket is alive and, on Windows, gets its handler thread.\<close>
definition execute_client :: "platform \<Rightarrow> nat \<Rightarrow> live_socket \<Rightarrow> live_socket" where
  "execute_client p self s =
     (let s1 = (case lv_type s of SOCKET_TCP \<Rightarrow> s\<lparr>lv_alive := self # lv_alive s\<rparr> | SOCKET_UDP \<Rightarrow> s)
      in case p of Windows \<Rightarrow> s1\<lparr>lv_handlers := lv_handlers s1 @ [self]\<rparr> | Linux \<Rightarrow> s1)"

section \<open>The handler thread\<close>

text \<open>The base class's handler: at most 1024 bytes are received into a buffer of 1024, and the text
  passed on ends at the first zero byte; None is a failed receive.\<close>
definition base_connect_handler :: "bool \<Rightarrow> string option \<Rightarrow> string option res" where
  "base_connect_handler isActiveMode received =
     (if isActiveMode then Inr None
      else case received of
             None \<Rightarrow> Inr None
           | Some chunk \<Rightarrow>
               if length chunk = 1024 \<and> CHR 0x00 \<notin> set chunk then Inl Undefined
               else Inr (Some (c_string chunk)))"

text \<open>The sleeps before a reconnection, and whether connect is called.\<close>
function reconnect_loop :: "int \<Rightarrow> int list \<times> bool" where
  "reconnect_loop t =
     (if t \<le> 0 then ([], False)
      else if 1000 < t then (case reconnect_loop (t - 1000) of (ss, c) \<Rightarrow> (1000 # ss, c))
      else ([t], True))"
  by pat_completeness auto
termination by (relation "measure nat") auto

declare reconnect_loop.simps [simp del]

text \<open>The handler is called until it returns false; None: it still runs after the calls of \<open>results\<close>.\<close>
fun handler_rounds :: "bool list \<Rightarrow> nat option" where
  "handler_rounds [] = None"
| "handler_rounds (r # rs) = (if r then map_option Suc (handler_rounds rs) else Some 1)"

text \<open>socketConnectProc after the handler has failed: the socket is removed from the clients and, for a
  reconnecting client, connect is tried once.\<close>
definition socketConnectProc ::
  "platform \<Rightarrow> net_env \<Rightarrow> bool list \<Rightarrow> nat \<Rightarrow> live_socket \<Rightarrow> (int list \<times> live_socket) res option" where
  "socketConnectProc p env results c s =
     map_option (\<lambda>_.
       let s1 = s\<lparr>lv_clients := removeClientSocket (Some c) (lv_clients s)\<rparr>
       in if lv_isClient s \<and> lv_isReconnect s then
            (case reconnect_loop (lv_reconnectTimeInterval s) of
               (ss, conn) \<Rightarrow>
                 if conn then mapR (\<lambda>(r, s2). (ss, s2)) (socket_connect p env s1) else Inr (ss, s1))
          else Inr ([], s1))
       (handler_rounds results)"

text \<open>The wait of socketClosedHandler: each element is what one look at the two flags reads.\<close>
fun closed_wait :: "(bool \<times> bool) list \<Rightarrow> nat option" where
  "closed_wait [] = None"
| "closed_wait ((recvAlive, sendAlive) # fs) =
     (if recvAlive \<or> sendAlive then map_option Suc (closed_wait fs) else Some 0)"

definition socketClosedHandler ::
  "platform \<Rightarrow> net_env \<Rightarrow> (bool \<times> bool) list \<Rightarrow> nat \<Rightarrow> live_socket \<Rightarrow> (int list \<times> live_socket) res option" where
  "socketClosedHandler p env flags c s =
     map_option (\<lambda>_.
       let s1 = s\<lparr>lv_clients := (if om_has (lv_clients s) c then om_erase c (lv_clients s) else lv_clients s)\<rparr>
       in if lv_isClient s \<and> lv_isReconnect s then
            (case reconnect_loop (lv_reconnectTimeInterval s) of
               (ss, conn) \<Rightarrow>
                 if conn then mapR (\<lambda>(r, s2). (ss, s2)) (socket_connect p env s1) else Inr (ss, s1))
          else Inr ([], s1))
       (closed_wait flags)"

text \<open>socketRecvProc sets its own flag, runs its handler, and calls socketClosedHandler before it clears
  the flag: \<open>sends\<close> is what the looks read for the other flag.\<close>
definition socketRecvProc ::
  "platform \<Rightarrow> net_env \<Rightarrow> bool list \<Rightarrow> bool list \<Rightarrow> nat \<Rightarrow> live_socket \<Rightarrow> (int list \<times> live_socket) res option" where
  "socketRecvProc p env results sends c s =
     (case handler_rounds results of
        None \<Rightarrow> None
      | Some _ \<Rightarrow> socketClosedHandler p env (map (\<lambda>b. (True, b)) sends) c s)"

section \<open>Subscriptions by name, setters\<close>

definition insertSubscribeByName ::
  "int \<Rightarrow> nat option \<Rightarrow> string \<Rightarrow> 'd manager \<Rightarrow> client_map \<Rightarrow> client_map" where
  "insertSubscribeByName now sock channelName mgr m =
     (case sock of
        None \<Rightarrow> m
      | Some s \<Rightarrow>
          (case data_ref (getObject channelName mgr) of
             None \<Rightarrow> m
           | Some d \<Rightarrow> insertSubscribeChannel now (Some s) (Some (d, channelName)) m))"

definition setDataSimulated :: "bool \<Rightarrow> live_socket \<Rightarrow> live_socket" where
  "setDataSimulated simulated s = s\<lparr>lv_isDataSimulated := simulated\<rparr>"

definition setRecvBlockMode :: "bool \<Rightarrow> live_socket \<Rightarrow> live_socket" where
  "setRecvBlockMode isBlock s = s\<lparr>lv_recvBlockMode := isBlock\<rparr>"

section \<open>Facts\<close>

lemma reconnect_loop_result:
  "reconnect_loop t = (ss, conn) \<Longrightarrow>
   sum_list ss = max 0 t \<and> (conn \<longleftrightarrow> 0 < t) \<and> (\<forall>x \<in> set ss. 0 < x \<and> x \<le> 1000)"
proof (induction t arbitrary: ss conn rule: reconnect_loop.induct)
  case (1 t)
  show ?case
  proof (cases "0 < t \<and> 1000 < t")
    case True
    then obtain ss' where r: "reconnect_loop (t - 1000) = (ss', conn)" "ss = 1000 # ss'"
      using 1(2) by (cases "reconnect_loop (t - 1000)") (simp add: reconnect_loop.simps [of t])
    have "sum_list ss' = max 0 (t - 1000) \<and> (conn \<longleftrightarrow> 0 < t - 1000) \<and> (\<forall>x \<in> set ss'. 0 < x \<and> x \<le> 1000)"
      using True r(1) by (intro 1(1)) auto
    then show ?thesis using True r(2) by auto
  next
    case False
    then show ?thesis using 1(2) by (auto simp: reconnect_loop.simps [of t] split: if_splits)
  qed
qed

lemma closed_wait_own: "closed_wait (map (\<lambda>b. (True, b)) bs) = None"
  by (induction bs) auto

lemma accept_loop_Linux:
  "\<exists>s'. accept_loop Linux e as s = Inr s' \<and> lv_handlers s' = lv_handlers s"
proof (induction "as" arbitrary: s)
  case (Cons a as)
  obtain s1 where a: "accept_one Linux e a s = Inr s1" "lv_handlers s1 = lv_handlers s"
    by (cases a) (simp_all add: accept_one_def)
  then show ?case using Cons [of s1] by simp
qed simp

lemma accept_loop_Windows:
  "accept_loop Windows e (map Some cs) s = Inr s' \<Longrightarrow> clients_ok (lv_clients s) \<Longrightarrow>
   lv_handlers s' = lv_handlers s @ cs \<and> clients_ok (lv_clients s') \<and>
   (\<forall>c. om_has (lv_clients s') c \<longleftrightarrow> om_has (lv_clients s) c \<or> c \<in> set cs)"
proof (induction cs arbitrary: s)
  case (Cons c cs)
  let ?s = "s\<lparr>lv_clients := insertClientSocket (Some c) (lv_clients s), lv_alive := c # lv_alive s,
      lv_handlers := lv_handlers s @ [c]\<rparr>"
  have "accept_loop Windows e (map Some cs) ?s = Inr s'" using Cons.prems(1) by (simp add: accept_one_def)
  moreover have "clients_ok (lv_clients ?s)" using Cons.prems(2) by (simp add: clients_ok_insertClientSocket)
  ultimately have IH: "lv_handlers s' = lv_handlers ?s @ cs \<and> clients_ok (lv_clients s') \<and>
     (\<forall>c. om_has (lv_clients s') c \<longleftrightarrow> om_has (lv_clients ?s) c \<or> c \<in> set cs)" by (rule Cons.IH)
  have "om_ok (lv_clients s)" using Cons.prems(2) by (simp add: clients_ok_def)
  then have "om_has (lv_clients ?s) x \<longleftrightarrow> om_has (lv_clients s) x \<or> x = c" for x
    by (auto simp: insertClientSocket_def om_has_def om_find_insert)
  then show ?case using IH by auto
qed simp

end
