(* ===== verification/Configure.thy ===== *)
theory Configure
  imports Storm_Lists
begin

text \<open>
  The configuration file reader (src/configure.cc).  The file is the text it holds; an
  \<open>ifstream\<close> is the text still to be read with its eof and fail bits, and \<open>getline\<close> is the member
  of the C++ library with the 512-byte buffer of the source.  The read loop takes fuel, because it
  never ends when a line does not fit the buffer.
\<close>

record istream =
  is_rest :: string
  is_eof :: bool
  is_fail :: bool

definition open_file :: "string \<Rightarrow> istream" where
  "open_file content = \<lparr> is_rest = content, is_eof = False, is_fail = False \<rparr>"

definition LINE_BUFF :: nat where "LINE_BUFF = 512"

text \<open>\<open>getline(buff, 512)\<close>: the stored line and the stream after it.  A line that does not fit is cut
  and sets the fail bit; a stream that is not good stores nothing.\<close>
definition getline :: "istream \<Rightarrow> string \<times> istream" where
  "getline st =
     (if is_eof st \<or> is_fail st then ([], st\<lparr>is_fail := True\<rparr>)
      else
        (let line = takeWhile (\<lambda>c. c \<noteq> CHR 0x0A) (is_rest st);
             after = drop (length line) (is_rest st)
         in if length line < LINE_BUFF then
              (if after = [] then (line, st\<lparr>is_rest := [], is_eof := True, is_fail := (line = [])\<rparr>)
               else (line, st\<lparr>is_rest := tl after\<rparr>))
            else (take (LINE_BUFF - 1) line,
                  st\<lparr>is_rest := drop (LINE_BUFF - 1) (is_rest st), is_fail := True\<rparr>)))"

type_synonym configures = "(string, (string, string) omap) omap"

text \<open>The loop that takes the dots out of a key, one at a time.\<close>
function remove_dots :: "string \<Rightarrow> string" where
  "remove_dots keyName =
     (case str_find keyName ''.'' of
        None \<Rightarrow> keyName
      | Some index \<Rightarrow>
          remove_dots (take index keyName @ take (length keyName - index - 1) (drop (index + 1) keyName)))"
  by pat_completeness auto
termination
proof (relation "measure length", goal_cases)
  case (2 k index)
  then have "index + 1 \<le> length k" using str_find_SomeD [of k "''.''" index] by simp
  then show ?case by simp
qed simp

declare remove_dots.simps [simp del]

text \<open>One line: the section after it, and the table.\<close>
definition config_line :: "string \<Rightarrow> string \<times> configures \<Rightarrow> string \<times> configures" where
  "config_line s sc =
     (let (section, conf) = sc;
          is_section = (hd s = CHR ''['' \<and> last s = CHR '']'');
          index = str_find s ''=''
      in if \<not> is_section \<and> index = None then (section, conf)
         else
           (let section' = (if is_section then take (length s - 2) (drop 1 s) else section);
                (key, val) = (if is_section then ([], [])
                              else case index of None \<Rightarrow> ([], [])
                                   | Some k \<Rightarrow> (take k s, drop (k + 1) s));
                conf1 = (if section' \<noteq> [] \<and> om_find conf section' = None
                         then om_insert section' [] conf else conf)
            in if key = [] then (section', conf1)
               else
                 (case om_find conf1 section' of
                    None \<Rightarrow> (section', conf1)
                  | Some values \<Rightarrow>
                      (let keyName = remove_dots key
                       in if om_find values keyName = None
                          then (section', om_put section' (om_insert keyName val values) conf1)
                          else (section', om_put section' (om_put keyName val values) conf1)))))"

fun config_loop :: "nat \<Rightarrow> istream \<Rightarrow> string \<times> configures \<Rightarrow> configures option" where
  "config_loop 0 st sc = None"
| "config_loop (Suc fuel) st sc =
     (if is_eof st then Some (snd sc)
      else (case getline st of
              (line, st') \<Rightarrow>
                let s = c_string line
                in if s = [] \<or> hd s = CHR ''#'' then config_loop fuel st' sc
                   else config_loop fuel st' (config_line s sc)))"

text \<open>loadConfigFile: \<open>content\<close> is None when the file cannot be opened.  An empty name returns a string
  literal, which is true.  The outer None: the loop has not ended.\<close>
definition loadConfigFile ::
  "nat \<Rightarrow> string \<Rightarrow> string option \<Rightarrow> configures \<Rightarrow> (bool \<times> configures) option" where
  "loadConfigFile fuel fileName content conf =
     (if fileName = [] then Some (True, conf)
      else case content of
             None \<Rightarrow> Some (False, conf)
           | Some text \<Rightarrow>
               map_option (\<lambda>c. (True, c)) (config_loop fuel (open_file text) ([], conf)))"

definition getValueByKey :: "string \<Rightarrow> string \<Rightarrow> configures \<Rightarrow> string" where
  "getValueByKey section key conf =
     (case om_find conf section of
        None \<Rightarrow> []
      | Some values \<Rightarrow> (case om_find values key of None \<Rightarrow> [] | Some v \<Rightarrow> v))"

section \<open>Facts\<close>

lemma drop_Suc_tl: "drop i k = c # r \<Longrightarrow> drop (Suc i) k = r"
  by (metis drop_Suc list.sel(3) tl_drop)

lemma remove_dots_eq: "remove_dots k = filter (\<lambda>c. c \<noteq> CHR ''.'') k"
proof (induction k rule: remove_dots.induct)
  case (1 k)
  show ?case
  proof (cases "str_find k ''.''")
    case None
    then have "CHR ''.'' \<notin> set k" by (simp add: str_simps)
    then have "filter (\<lambda>c. c \<noteq> CHR ''.'') k = k" by (intro filter_True) auto
    then show ?thesis using None by (subst remove_dots.simps) simp
  next
    case (Some i)
    let ?k = "take i k @ take (length k - i - 1) (drop (i + 1) k)"
    from str_find_SomeD [OF Some] have sw: "starts_with ''.'' (drop i k)" "i + 1 \<le> length k" by auto
    then have "drop i k = CHR ''.'' # drop (i + 1) k"
      by (cases "drop i k") (auto simp: drop_Suc_tl)
    then have keq: "k = take i k @ CHR ''.'' # drop (i + 1) k" by (metis append_take_drop_id)
    have d: "filter (\<lambda>c. c \<noteq> CHR ''.'') k = filter (\<lambda>c. c \<noteq> CHR ''.'') (take i k @ drop (i + 1) k)"
      using arg_cong [OF keq, of "filter (\<lambda>c. c \<noteq> CHR ''.'')"] by simp
    have c: "?k = take i k @ drop (i + 1) k" by simp
    have "remove_dots k = remove_dots ?k" by (subst remove_dots.simps) (simp add: Some)
    also have "\<dots> = filter (\<lambda>c. c \<noteq> CHR ''.'') ?k" by (rule 1 [OF Some])
    also have "\<dots> = filter (\<lambda>c. c \<noteq> CHR ''.'') k" by (simp only: c d)
    finally show ?thesis .
  qed
qed

definition conf_ok :: "configures \<Rightarrow> bool" where
  "conf_ok c = (om_ok c \<and> (\<forall>e \<in> set c. om_ok (snd e)))"

lemma conf_ok_find: "conf_ok c \<Longrightarrow> om_find c s = Some v \<Longrightarrow> om_ok v"
  using om_find_in_set [of c s v] by (force simp: conf_ok_def)

lemma conf_ok_put: "conf_ok c \<Longrightarrow> om_ok v \<Longrightarrow> conf_ok (om_put s v c)"
  by (auto simp: conf_ok_def om_ok_put set_om_put_pairs)

lemma conf_ok_insert: "conf_ok c \<Longrightarrow> om_ok v \<Longrightarrow> conf_ok (om_insert s v c)"
  by (simp add: om_insert_def conf_ok_put)

text \<open>A section header and a setting, as the loop treats them.\<close>
lemma config_line_section:
  "s \<noteq> [] \<Longrightarrow> config_line (''['' @ s @ '']'') (sec, conf) = (s, om_insert s [] conf)"
  by (auto simp: config_line_def Let_def om_insert_def om_has_def)

lemma config_line_setting:
  assumes "k \<noteq> []" "CHR ''='' \<notin> set k" "hd k \<noteq> CHR ''[''" "om_find conf sec = Some values" "sec \<noteq> []"
  shows "config_line (k @ ''='' @ v) (sec, conf) =
     (sec, om_put sec (om_put (remove_dots k) v values) conf)"
proof -
  have f: "str_find (k @ CHR ''='' # v) ''='' = Some (length k)"
    by (rule str_find_single [OF assms(2)])
  have h: "hd (k @ ''='' @ v) \<noteq> CHR ''[''" using assms(1,3) by simp
  show ?thesis
    using assms(1,4,5) h by (simp add: config_line_def Let_def f om_insert_def om_has_def)
qed

text \<open>A stream that has failed without reaching the end never ends.\<close>
lemma config_loop_stuck: "is_fail st \<Longrightarrow> \<not> is_eof st \<Longrightarrow> config_loop fuel st sc = None"
proof (induction fuel arbitrary: st)
  case (Suc fuel)
  have "getline st = ([], st\<lparr>is_fail := True\<rparr>)" using Suc.prems by (simp add: getline_def)
  moreover have "config_loop fuel (st\<lparr>is_fail := True\<rparr>) sc = None" using Suc.prems by (intro Suc.IH) auto
  ultimately show ?case using Suc.prems by (simp add: c_string_def)
qed simp

text \<open>Otherwise every line read shortens what is left, or reaches the end.\<close>
definition lines_fit :: "string \<Rightarrow> bool" where
  "lines_fit s = (\<forall>a b c. s = a @ b @ c \<and> CHR 0x0A \<notin> set b \<longrightarrow> length b < LINE_BUFF)"

lemma lines_fit_tail: "lines_fit (a @ s) \<Longrightarrow> lines_fit s"
  unfolding lines_fit_def by (metis append.assoc)

lemma lines_fit_line: "lines_fit s \<Longrightarrow> length (takeWhile (\<lambda>c. c \<noteq> CHR 0x0A) s) < LINE_BUFF"
proof -
  assume f: "lines_fit s"
  let ?P = "\<lambda>c. c \<noteq> CHR 0x0A"
  have "s = [] @ takeWhile ?P s @ dropWhile ?P s" by simp
  moreover have "CHR 0x0A \<notin> set (takeWhile ?P s)" by (metis (full_types) set_takeWhileD)
  ultimately show ?thesis using f unfolding lines_fit_def by blast
qed

lemma config_loop_ends:
  "lines_fit (is_rest st) \<Longrightarrow> \<not> is_fail st \<or> is_eof st \<Longrightarrow> length (is_rest st) + 1 < fuel \<Longrightarrow>
   \<exists>c. config_loop fuel st sc = Some c"
proof (induction fuel arbitrary: st sc)
  case (Suc fuel)
  show ?case
  proof (cases "is_eof st")
    case False
    let ?line = "takeWhile (\<lambda>c. c \<noteq> CHR 0x0A) (is_rest st)"
    let ?after = "drop (length ?line) (is_rest st)"
    have good: "\<not> is_fail st" using False Suc.prems(2) by simp
    note fit = lines_fit_line [OF Suc.prems(1)]
    have run: "\<exists>c. config_loop fuel st' sc' = Some c"
      if "snd (getline st) = st'" for st' sc'
    proof (cases "?after = []")
      case True
      then have e: "is_eof st'" using that good False fit by (auto simp: getline_def Let_def)
      obtain f where "fuel = Suc f" using Suc.prems(3) by (cases fuel) auto
      then show ?thesis using e by simp
    next
      case ne: False
      then have st': "st' = st\<lparr>is_rest := tl ?after\<rparr>"
        using that good False fit by (simp add: getline_def Let_def)
      have s: "is_rest st = (?line @ [hd ?after]) @ tl ?after"
        using ne by (metis append.assoc append_Cons append_Nil append_take_drop_id hd_Cons_tl takeWhile_eq_take)
      have "lines_fit ((?line @ [hd ?after]) @ tl ?after)"
        using Suc.prems(1) by (simp only: s [symmetric])
      then have "lines_fit (tl ?after)" by (rule lines_fit_tail)
      then have "lines_fit (is_rest st')" using st' by simp
      moreover have "length (is_rest st') + 1 < fuel"
        using arg_cong [OF s, of length] Suc.prems(3) st' by simp
      ultimately show ?thesis using good st' by (intro Suc.IH) auto
    qed
    obtain line st' where g: "getline st = (line, st')" by force
    show ?thesis using run [of st'] g False by (simp add: Let_def)
  qed simp
qed simp

section \<open>The table a file stands for\<close>

text \<open>A file of blocks: a section header and the settings below it.\<close>
type_synonym conf_block = "string \<times> (string \<times> string) list"

definition setting_line :: "string \<times> string \<Rightarrow> string" where
  "setting_line kv = fst kv @ ''='' @ snd kv"

definition block_lines :: "conf_block \<Rightarrow> string list" where
  "block_lines b = (''['' @ fst b @ '']'') # map setting_line (snd b)"

definition file_text :: "string list \<Rightarrow> string" where
  "file_text ls = concat (map (\<lambda>l. l @ [CHR 0x0A]) ls)"

text \<open>The last setting of a key wins; dots in a key do not count.\<close>
definition block_value :: "conf_block list \<Rightarrow> string \<Rightarrow> string \<Rightarrow> string option" where
  "block_value bs s k =
     map_of (rev (concat (map (\<lambda>b. if fst b = s then map (\<lambda>(j, v). (remove_dots j, v)) (snd b) else []) bs))) k"

definition line_ok :: "string \<Rightarrow> bool" where
  "line_ok l = (CHR 0x0A \<notin> set l \<and> CHR 0x00 \<notin> set l \<and> l \<noteq> [] \<and> hd l \<noteq> CHR ''#'' \<and> length l < LINE_BUFF)"

definition setting_ok :: "string \<times> string \<Rightarrow> bool" where
  "setting_ok kv = (fst kv \<noteq> [] \<and> CHR ''='' \<notin> set (fst kv) \<and> hd (fst kv) \<noteq> CHR ''['' \<and> line_ok (setting_line kv))"

definition block_ok :: "conf_block \<Rightarrow> bool" where
  "block_ok b = (fst b \<noteq> [] \<and> line_ok (''['' @ fst b @ '']'') \<and> (\<forall>kv \<in> set (snd b). setting_ok kv))"

lemma config_loop_lines:
  "\<forall>l \<in> set ls. line_ok l \<Longrightarrow> length ls + 1 < fuel \<Longrightarrow>
   config_loop fuel \<lparr> is_rest = file_text ls, is_eof = False, is_fail = False \<rparr> sc =
     Some (snd (fold config_line ls sc))"
proof (induction ls arbitrary: fuel sc)
  case Nil
  then obtain f where "fuel = Suc (Suc f)" by (cases fuel rule: nat.exhaust; cases "fuel - 1") auto
  then show ?case by (simp add: file_text_def getline_def c_string_def LINE_BUFF_def)
next
  case (Cons l ls)
  then obtain f where f: "fuel = Suc f" by (cases fuel) auto
  have l: "line_ok l" using Cons.prems(1) by simp
  then have tw: "takeWhile (\<lambda>c. c \<noteq> CHR 0x0A) (l @ CHR 0x0A # file_text ls) = l"
    by (subst takeWhile_append2) (auto simp: line_ok_def)
  have "\<forall>c \<in> set l. c \<noteq> CHR 0x00" using l by (auto simp: line_ok_def)
  then have c: "c_string l = l" by (simp only: c_string_def takeWhile_eq_all_conv)
  have g: "getline \<lparr> is_rest = file_text (l # ls), is_eof = False, is_fail = False \<rparr> =
      (l, \<lparr> is_rest = file_text ls, is_eof = False, is_fail = False \<rparr>)"
    using l tw by (simp add: file_text_def getline_def line_ok_def)
  show ?case using Cons.IH [of f "config_line l sc"] Cons.prems l by (simp add: f g c line_ok_def)
qed

definition entry :: "configures \<Rightarrow> string \<Rightarrow> string \<Rightarrow> string option" where
  "entry conf s k = (case om_find conf s of None \<Rightarrow> None | Some vs \<Rightarrow> om_find vs k)"

lemma getValueByKey_entry: "getValueByKey s k conf = (case entry conf s k of None \<Rightarrow> [] | Some v \<Rightarrow> v)"
  by (simp add: getValueByKey_def entry_def split: option.split)

lemma settings_fold:
  "\<forall>kv \<in> set kvs. setting_ok kv \<Longrightarrow> conf_ok conf \<Longrightarrow> s \<noteq> [] \<Longrightarrow> om_find conf s \<noteq> None \<Longrightarrow>
   \<exists>conf'. fold config_line (map setting_line kvs) (s, conf) = (s, conf') \<and> conf_ok conf' \<and>
     (\<forall>k. entry conf' s k = (case map_of (rev (map (\<lambda>(j, v). (remove_dots j, v)) kvs)) k of
            Some v \<Rightarrow> Some v | None \<Rightarrow> entry conf s k)) \<and>
     (\<forall>r k. r \<noteq> s \<longrightarrow> entry conf' r k = entry conf r k)"
proof (induction kvs arbitrary: conf)
  case (Cons kv kvs)
  obtain j v where kv: "kv = (j, v)" by force
  obtain vs where vs: "om_find conf s = Some vs" using Cons.prems(4) by auto
  let ?c = "om_put s (om_put (remove_dots j) v vs) conf"
  have ok: "om_ok conf" "om_ok vs" "conf_ok ?c"
    using Cons.prems(2) conf_ok_find [OF Cons.prems(2) vs] by (simp_all add: conf_ok_def om_ok_put conf_ok_put)
       (auto simp: conf_ok_def set_om_put_pairs om_ok_put)
  have step: "config_line (setting_line kv) (s, conf) = (s, ?c)"
    using Cons.prems(1,3) vs unfolding kv setting_line_def fst_conv snd_conv
    by (intro config_line_setting) (auto simp: setting_ok_def)
  have "\<forall>kv \<in> set kvs. setting_ok kv" "om_find ?c s \<noteq> None"
    using Cons.prems(1) by (simp_all add: om_find_put ok)
  from Cons.IH [OF this(1) ok(3) Cons.prems(3) this(2)] obtain conf' where
    IH: "fold config_line (map setting_line kvs) (s, ?c) = (s, conf')" "conf_ok conf'"
      "\<And>k. entry conf' s k = (case map_of (rev (map (\<lambda>(j, v). (remove_dots j, v)) kvs)) k of
            Some v \<Rightarrow> Some v | None \<Rightarrow> entry ?c s k)"
      "\<And>r k. r \<noteq> s \<Longrightarrow> entry conf' r k = entry ?c r k" by blast
  have "entry ?c s k = (if k = remove_dots j then Some v else entry conf s k)" for k
    by (simp add: entry_def om_find_put ok vs)
  moreover have "entry ?c r k = entry conf r k" if "r \<noteq> s" for r k
    using that by (simp add: entry_def om_find_put ok)
  ultimately show ?case using IH step
    by (auto simp: kv map_add_def split: option.split)
qed simp

lemma block_fold:
  assumes "block_ok b" "conf_ok conf"
  shows "\<exists>conf'. fold config_line (block_lines b) (s0, conf) = (fst b, conf') \<and> conf_ok conf' \<and>
     (\<forall>s k. entry conf' s k = (case block_value [b] s k of Some v \<Rightarrow> Some v | None \<Rightarrow> entry conf s k))"
proof -
  obtain s kvs where b: "b = (s, kvs)" by force
  let ?c = "om_insert s [] conf"
  have s: "s \<noteq> []" "\<forall>kv \<in> set kvs. setting_ok kv" using assms(1) by (simp_all add: block_ok_def b)
  have ok: "om_ok conf" using assms(2) by (simp add: conf_ok_def)
  have ent: "entry ?c r k = entry conf r k" for r k
    by (simp add: entry_def om_find_insert ok split: option.split)
  have "conf_ok ?c" "om_find ?c s \<noteq> None"
    using assms(2) by (simp_all add: conf_ok_insert om_find_insert ok split: option.split)
  from settings_fold [OF s(2) this(1) s(1) this(2)] obtain conf' where
    "fold config_line (map setting_line kvs) (s, ?c) = (s, conf')" "conf_ok conf'"
    "\<And>k. entry conf' s k = (case map_of (rev (map (\<lambda>(j, v). (remove_dots j, v)) kvs)) k of
            Some v \<Rightarrow> Some v | None \<Rightarrow> entry ?c s k)"
    "\<And>r k. r \<noteq> s \<Longrightarrow> entry conf' r k = entry ?c r k" by blast
  then show ?thesis using config_line_section [OF s(1), of s0 conf]
    by (auto simp: b block_lines_def block_value_def ent split: option.split)
qed

lemma block_value_Cons:
  "block_value (b # bs) s k = (case block_value bs s k of Some v \<Rightarrow> Some v | None \<Rightarrow> block_value [b] s k)"
  by (auto simp: block_value_def map_add_def split: option.split)

lemma blocks_fold:
  "\<forall>b \<in> set bs. block_ok b \<Longrightarrow> conf_ok conf \<Longrightarrow>
   \<exists>sec conf'. fold config_line (concat (map block_lines bs)) (s0, conf) = (sec, conf') \<and>
     (\<forall>s k. entry conf' s k = (case block_value bs s k of Some v \<Rightarrow> Some v | None \<Rightarrow> entry conf s k))"
proof (induction bs arbitrary: s0 conf)
  case Nil
  then show ?case by (simp add: block_value_def)
next
  case (Cons b bs)
  obtain c1 where c1: "fold config_line (block_lines b) (s0, conf) = (fst b, c1)" "conf_ok c1"
    "\<And>s k. entry c1 s k = (case block_value [b] s k of Some v \<Rightarrow> Some v | None \<Rightarrow> entry conf s k)"
    using block_fold [of b conf s0] Cons.prems by auto
  obtain sec c2 where "fold config_line (concat (map block_lines bs)) (fst b, c1) = (sec, c2)"
    "\<And>s k. entry c2 s k = (case block_value bs s k of Some v \<Rightarrow> Some v | None \<Rightarrow> entry c1 s k)"
    using Cons.IH [of c1 "fst b"] Cons.prems c1(2) by auto
  then show ?case using c1(1,3) by (auto simp: block_value_Cons [of b bs] split: option.split)
qed

lemma block_lines_ok: "block_ok b \<Longrightarrow> \<forall>l \<in> set (block_lines b). line_ok l"
  by (auto simp: block_ok_def block_lines_def setting_ok_def)

lemma load_blocks:
  assumes "\<forall>b \<in> set bs. block_ok b" "fileName \<noteq> []" "length (concat (map block_lines bs)) + 1 < fuel"
  shows "\<exists>conf. loadConfigFile fuel fileName (Some (file_text (concat (map block_lines bs)))) [] = Some (True, conf) \<and>
     (\<forall>s k. getValueByKey s k conf = (case block_value bs s k of None \<Rightarrow> [] | Some v \<Rightarrow> v))"
proof -
  obtain sec conf where f: "fold config_line (concat (map block_lines bs)) ([], []) = (sec, conf)"
    "\<And>s k. entry conf s k = (case block_value bs s k of Some v \<Rightarrow> Some v | None \<Rightarrow> entry [] s k)"
    using blocks_fold [OF assms(1), of "[]" "[]"] by (auto simp: conf_ok_def)
  have "\<forall>l \<in> set (concat (map block_lines bs)). line_ok l" using assms(1) block_lines_ok by auto
  from config_loop_lines [OF this assms(3), of "([], [])"] show ?thesis
    using assms(2) f by (auto simp: loadConfigFile_def open_file_def getValueByKey_entry entry_def split: option.split)
qed

end
