(* ===== verification/Application.thy ===== *)
theory Application
  imports Configure Converter
begin

text \<open>
  The start of the application (src/application.cc) on Linux: from the command line flags and the
  configuration to the list of actions it takes, which sockets it opens with which host and port, and
  what happens when one of them throws.  The actions themselves are the operations of the other
  components; here they are performed by an argument \<open>perform\<close>.  The logger's and the pool manager's
  startup, which come first, are left out.
\<close>

record application =
  ap_isServer :: bool
  ap_isNetworkLan :: bool
  ap_isLoadIniConfig :: bool
  ap_isLoadXmlConfig :: bool
  ap_isSubscriberEnable :: bool
  ap_isServiceEnable :: bool
  ap_isDebuggerEnable :: bool
  ap_subscriberListenHost :: string
  ap_subscriberListenPort :: int
  ap_serviceListenHost :: string
  ap_serviceListenPort :: int
  ap_serviceEndPoint :: string
  ap_topicManagerEndPoint :: string
  ap_subscriberEndpoint :: string

definition new_application :: "bool \<Rightarrow> bool \<Rightarrow> bool \<Rightarrow> application" where
  "new_application isServer isLoadIniConfig isLoadXmlConfig =
     \<lparr> ap_isServer = isServer, ap_isNetworkLan = True, ap_isLoadIniConfig = isLoadIniConfig,
       ap_isLoadXmlConfig = isLoadXmlConfig, ap_isSubscriberEnable = True, ap_isServiceEnable = True,
       ap_isDebuggerEnable = True, ap_subscriberListenHost = [], ap_subscriberListenPort = 0,
       ap_serviceListenHost = [], ap_serviceListenPort = 0, ap_serviceEndPoint = [],
       ap_topicManagerEndPoint = [], ap_subscriberEndpoint = [] \<rparr>"

section \<open>Setters\<close>

definition setNetworkType :: "bool \<Rightarrow> application \<Rightarrow> application" where
  "setNetworkType isLAN ap = ap\<lparr>ap_isNetworkLan := isLAN\<rparr>"

definition setSubscriberListener :: "string \<Rightarrow> int \<Rightarrow> application \<Rightarrow> application" where
  "setSubscriberListener host port ap = ap\<lparr>ap_subscriberListenHost := host, ap_subscriberListenPort := port\<rparr>"

definition setServiceListener :: "string \<Rightarrow> int \<Rightarrow> application \<Rightarrow> application" where
  "setServiceListener host port ap = ap\<lparr>ap_serviceListenHost := host, ap_serviceListenPort := port\<rparr>"

definition setServiceEndPoint :: "string \<Rightarrow> application \<Rightarrow> application" where
  "setServiceEndPoint e ap = ap\<lparr>ap_serviceEndPoint := e\<rparr>"

definition setTopicManagerEndPoint :: "string \<Rightarrow> application \<Rightarrow> application" where
  "setTopicManagerEndPoint e ap = ap\<lparr>ap_topicManagerEndPoint := e\<rparr>"

definition setSubscriberEndpoint :: "string \<Rightarrow> application \<Rightarrow> application" where
  "setSubscriberEndpoint e ap = ap\<lparr>ap_subscriberEndpoint := e\<rparr>"

definition setSubscriberEnable :: "bool \<Rightarrow> application \<Rightarrow> application" where
  "setSubscriberEnable enable ap = ap\<lparr>ap_isSubscriberEnable := enable\<rparr>"

definition setServiceEnable :: "bool \<Rightarrow> application \<Rightarrow> application" where
  "setServiceEnable enable ap = ap\<lparr>ap_isServiceEnable := enable\<rparr>"

definition setDebuggerEnable :: "bool \<Rightarrow> application \<Rightarrow> application" where
  "setDebuggerEnable enable ap = ap\<lparr>ap_isDebuggerEnable := enable\<rparr>"

section \<open>The actions of run\<close>

datatype which_socket = SubscriberSocket | ServiceSocket | DebuggerSocket

datatype app_action =
    SetNamespaceInterval int
  | UseSubscriberSocket                          \<comment> \<open>given to the subscriber manager\<close>
  | UseStormSocket which_socket                  \<comment> \<open>given to the storm manager\<close>
  | OpenSocket which_socket string int bool      \<comment> \<open>host, port, as a server; connect\<close>
  | LoadXml string
  | StartNamespace
  | StartGrpc string

definition enabled :: "string \<Rightarrow> bool" where
  "enabled s = (s = ''1'' \<or> s = ''true'')"

definition server_actions :: "configures \<Rightarrow> app_action list" where
  "server_actions conf =
     (let k = (\<lambda>key. getValueByKey ''ICK_SERVER'' key conf)
      in (if k ''IckSubscriberInterval'' \<noteq> [] then [SetNamespaceInterval (atoi (k ''IckSubscriberInterval''))] else [])
         @ (if k ''IckNetworkType'' = ''WAN'' then
              (if enabled (k ''IckSubscriberEnable'') then
                 [UseSubscriberSocket,
                  OpenSocket SubscriberSocket (k ''IckSubscriberListenHost'') (atoi (k ''IckSubscriberListenPort'')) True]
               else [])
              @ (if enabled (k ''IckServiceEnable'') then
                   [OpenSocket ServiceSocket (k ''IckServicerListenHost'') (atoi (k ''IckServiceListenPort'')) True]
                 else [])
              @ (if enabled (k ''IckDebuggerEnable'') then
                   [OpenSocket DebuggerSocket (k ''IckDebuggerListenHost'') (atoi (k ''IckDebuggerListenPort'')) True]
                 else [])
            else []))"

definition client_network :: "configures \<Rightarrow> application \<Rightarrow> string" where
  "client_network conf ap =
     (if ap_isLoadIniConfig ap then getValueByKey ''ICK_CLIENT'' ''IckNetworkType'' conf
      else if ap_isNetworkLan ap then ''LAN'' else ''WAN'')"

definition bool_text :: "bool \<Rightarrow> string" where
  "bool_text b = (if b then ''true'' else ''false'')"

text \<open>The hosts and ports of a client come from its own section; whether a socket is enabled from the
  server's.\<close>
definition client_actions :: "configures \<Rightarrow> application \<Rightarrow> app_action list" where
  "client_actions conf ap =
     (let ini = ap_isLoadIniConfig ap;
          k = (\<lambda>key. getValueByKey ''ICK_CLIENT'' key conf);
          s = (\<lambda>key. getValueByKey ''ICK_SERVER'' key conf);
          subscriberHost = (if ini then k ''IckSubscriberListenHost'' else ap_subscriberListenHost ap);
          subscriberPort = (if ini then atoi (k ''IckSubscriberListenPort'') else ap_subscriberListenPort ap);
          serviceHost = (if ini then k ''IckServiceListenHost'' else ap_serviceListenHost ap);
          servicePort = (if ini then atoi (k ''IckServiceListenPort'') else ap_serviceListenPort ap);
          serviceEnable = (if ini then s ''IckServicerEnable'' else bool_text (ap_isServiceEnable ap));
          subscriberEnable = (if ini then s ''IckSubscriberEnable'' else bool_text (ap_isSubscriberEnable ap))
      in if client_network conf ap = ''WAN'' then
           (if enabled subscriberEnable then
              [UseSubscriberSocket, UseStormSocket SubscriberSocket,
               OpenSocket SubscriberSocket subscriberHost subscriberPort False] else [])
           @ (if enabled serviceEnable then
                [UseStormSocket ServiceSocket, OpenSocket ServiceSocket serviceHost servicePort False] else [])
         else [])"

record flags =
  fl_config :: string
  fl_enable_grpc_remote_service :: bool
  fl_grpc_remote_service_port :: string

text \<open>The directory of the configuration; None when the replacement of the backslashes has run out of
  fuel.\<close>
definition config_directory :: "nat \<Rightarrow> string \<Rightarrow> string \<Rightarrow> string option" where
  "config_directory fuel cwd config =
     (if config = [] \<or> hd config \<noteq> CHR ''/'' then replace fuel (cwd @ ''/'' @ config) [CHR 92] ''/''
      else if last config \<noteq> CHR ''/'' then Some (config @ ''/'') else Some config)"

definition app_network_lan :: "configures \<Rightarrow> application \<Rightarrow> bool" where
  "app_network_lan conf ap =
     (if ap_isServer ap then getValueByKey ''ICK_SERVER'' ''IckNetworkType'' conf = ''LAN''
      else client_network conf ap = ''LAN'')"

text \<open>The actions in order; None when the configuration is never read to its end.\<close>
definition app_actions ::
  "nat \<Rightarrow> string \<Rightarrow> flags \<Rightarrow> (string \<Rightarrow> string option) \<Rightarrow> application \<Rightarrow> (app_action list \<times> application) option" where
  "app_actions fuel cwd fl file ap =
     (case config_directory fuel cwd (fl_config fl) of
        None \<Rightarrow> None
      | Some dir \<Rightarrow>
          (case (if ap_isLoadIniConfig ap
                 then map_option snd (loadConfigFile fuel (dir @ ''icklib.conf'') (file (dir @ ''icklib.conf'')) [])
                 else Some []) of
             None \<Rightarrow> None
           | Some conf \<Rightarrow>
               Some ((if ap_isServer ap then server_actions conf else client_actions conf ap)
                     @ (if ap_isLoadXmlConfig ap then [LoadXml dir, StartNamespace] else [])
                     @ (if fl_enable_grpc_remote_service fl \<and> fl_grpc_remote_service_port fl \<noteq> []
                        then [StartGrpc (fl_grpc_remote_service_port fl)] else []),
                     ap\<lparr>ap_isNetworkLan := app_network_lan conf ap\<rparr>)))"

text \<open>Performing them: the first exception ends the run.\<close>
fun run_actions :: "(app_action \<Rightarrow> 's \<Rightarrow> 's res) \<Rightarrow> app_action list \<Rightarrow> 's \<Rightarrow> err option \<times> 's" where
  "run_actions perform [] st = (None, st)"
| "run_actions perform (a # as) st =
     (case perform a st of
        Inl e \<Rightarrow> (Some e, st)
      | Inr st' \<Rightarrow> run_actions perform as st')"

datatype exit_kind = Status int | Terminated err

text \<open>An exception with a text gives the status 1; every other one is not caught.\<close>
definition app_run ::
  "nat \<Rightarrow> string \<Rightarrow> flags \<Rightarrow> (string \<Rightarrow> string option) \<Rightarrow> (app_action \<Rightarrow> 's \<Rightarrow> 's res) \<Rightarrow> application \<Rightarrow> 's \<Rightarrow>
     (exit_kind \<times> 's) option" where
  "app_run fuel cwd fl file perform ap st =
     map_option (\<lambda>(as, _).
       (case run_actions perform as st of
          (None, st') \<Rightarrow> (Status 0, st')
        | (Some (Throw msg), st') \<Rightarrow> (Status 1, st')
        | (Some e, st') \<Rightarrow> (Terminated e, st')))
       (app_actions fuel cwd fl file ap)"

section \<open>Facts\<close>

fun opened :: "app_action list \<Rightarrow> which_socket list" where
  "opened [] = []"
| "opened (OpenSocket w h p s # as) = w # opened as"
| "opened (_ # as) = opened as"

lemma opened_append [simp]: "opened (xs @ ys) = opened xs @ opened ys"
  by (induction xs rule: opened.induct) auto

lemma server_opened:
  "opened (server_actions conf) =
     (if getValueByKey ''ICK_SERVER'' ''IckNetworkType'' conf = ''WAN'' then
        (if enabled (getValueByKey ''ICK_SERVER'' ''IckSubscriberEnable'' conf) then [SubscriberSocket] else [])
        @ (if enabled (getValueByKey ''ICK_SERVER'' ''IckServiceEnable'' conf) then [ServiceSocket] else [])
        @ (if enabled (getValueByKey ''ICK_SERVER'' ''IckDebuggerEnable'' conf) then [DebuggerSocket] else [])
      else [])"
  by (simp add: server_actions_def Let_def)

lemma client_opened_ini:
  "ap_isLoadIniConfig ap \<Longrightarrow> opened (client_actions conf ap) =
     (if getValueByKey ''ICK_CLIENT'' ''IckNetworkType'' conf = ''WAN'' then
        (if enabled (getValueByKey ''ICK_SERVER'' ''IckSubscriberEnable'' conf) then [SubscriberSocket] else [])
        @ (if enabled (getValueByKey ''ICK_SERVER'' ''IckServicerEnable'' conf) then [ServiceSocket] else [])
      else [])"
  by (simp add: client_actions_def client_network_def Let_def)

text \<open>What has been done when an exception comes is what comes before it.\<close>
lemma run_actions_prefix:
  "run_actions perform as st = (Some e, st') \<Longrightarrow>
   \<exists>pre a post. as = pre @ a # post \<and> run_actions perform pre st = (None, st') \<and> perform a st' = Inl e"
proof (induction "as" arbitrary: st)
  case (Cons b bs)
  show ?case
  proof (cases "perform b st")
    case (Inl x)
    then show ?thesis using Cons.prems by (intro exI [of _ "[]"]) auto
  next
    case (Inr st1)
    then have "run_actions perform bs st1 = (Some e, st')" using Cons.prems by simp
    from Cons.IH [OF this] obtain pre a post where
      "bs = pre @ a # post" "run_actions perform pre st1 = (None, st')" "perform a st' = Inl e" by blast
    then have "b # bs = (b # pre) @ a # post \<and> run_actions perform (b # pre) st = (None, st') \<and> perform a st' = Inl e"
      using Inr by simp
    then show ?thesis by blast
  qed
qed simp

end
