(* ===== verification/Connection_Pool.thy ===== *)
theory Connection_Pool
  imports Std_Map
begin

text \<open>
  The database connection pool (src/connection_pool.cc, src/connection_pool.h) and the pools'
  manager (src/connection_pool_manager.cc).  A connection is a number; \<open>closed c\<close> is what its
  isClosed returns and \<open>fresh\<close> the next connection a MySql pool would create.  A thread that waits
  for a free slot sleeps and calls getConnection again; what the other threads do to the pool
  meanwhile is a list of functions, one per wait, and None is a call that still waits when the list
  is used up.
\<close>

datatype db_type = MySql | Oracle | SqlServer

record pool =
  po_free :: "nat list"
  po_active :: "nat list"
  po_countActive :: int
  po_maxActive :: int
  po_initConnections :: int
  po_dbType :: db_type
  po_next :: nat                 \<comment> \<open>the next connection to be created\<close>
  po_poolName :: string

definition newConnection :: "pool \<Rightarrow> nat option \<times> pool" where
  "newConnection p =
     (case po_dbType p of
        MySql \<Rightarrow> (Some (po_next p), p\<lparr>po_next := po_next p + 1\<rparr>)
      | _ \<Rightarrow> (None, p))"

definition isValid :: "(nat \<Rightarrow> bool) \<Rightarrow> nat option \<Rightarrow> bool" where
  "isValid closed conn = (case conn of None \<Rightarrow> False | Some c \<Rightarrow> \<not> closed c)"

text \<open>make opens the initial connections; one that is not valid stops it with an exception.\<close>
fun make_loop :: "(nat \<Rightarrow> bool) \<Rightarrow> nat \<Rightarrow> pool \<Rightarrow> pool res" where
  "make_loop closed 0 p = Inr p"
| "make_loop closed (Suc n) p =
     (case newConnection p of
        (None, p') \<Rightarrow> make_loop closed n p'
      | (Some c, p') \<Rightarrow>
          if isValid closed (Some c) then make_loop closed n (p'\<lparr>po_free := po_free p' @ [c]\<rparr>)
          else Inl (Throw ''DataBase connection is not valid, conn: ''))"

text \<open>The end of getConnection: a valid connection is counted as active.\<close>
definition count_active :: "(nat \<Rightarrow> bool) \<Rightarrow> nat option \<Rightarrow> pool \<Rightarrow> pool" where
  "count_active closed conn p =
     (case conn of
        None \<Rightarrow> p
      | Some c \<Rightarrow> if isValid closed conn
                  then p\<lparr>po_active := po_active p @ [c], po_countActive := po_countActive p + 1\<rparr>
                  else p)"

fun getConnection ::
  "(nat \<Rightarrow> bool) \<Rightarrow> (pool \<Rightarrow> pool) list \<Rightarrow> pool \<Rightarrow> (nat option \<times> pool) option" where
  "getConnection closed env p =
     (if po_countActive p < po_maxActive p then
        (case po_free p of
           c # free \<Rightarrow> Some (Some c, count_active closed (Some c) (p\<lparr>po_free := free\<rparr>))
         | [] \<Rightarrow> (case newConnection p of
                    (conn, p') \<Rightarrow> Some (conn, count_active closed conn p')))
      else
        (case env of
           [] \<Rightarrow> None
         | e # es \<Rightarrow>
             (case getConnection closed es (e p) of
                None \<Rightarrow> None
              | Some (conn, p') \<Rightarrow> Some (conn, count_active closed conn p'))))"

declare getConnection.simps [simp del]

text \<open>The loop variable hides the parameter: the first active connection is released, whichever one
  the caller gives back; \<open>list::remove\<close> removes all its occurrences.\<close>
definition releaseConnection :: "nat option \<Rightarrow> pool \<Rightarrow> pool" where
  "releaseConnection conn p =
     (case po_active p of
        [] \<Rightarrow> p
      | c # _ \<Rightarrow> p\<lparr>po_active := filter (\<lambda>x. x \<noteq> c) (po_active p), po_free := po_free p @ [c],
                    po_countActive := po_countActive p - 1\<rparr>)"

definition setDataBaseType :: "string \<Rightarrow> pool \<Rightarrow> pool" where
  "setDataBaseType dbType p = (if dbType = ''MySql'' then p\<lparr>po_dbType := MySql\<rparr> else p)"

text \<open>getDriverName calls itself as long as the name is empty: fuel bounds the depth.\<close>
fun getDriverName :: "nat \<Rightarrow> string \<Rightarrow> string \<Rightarrow> string option" where
  "getDriverName 0 url driverName = None"
| "getDriverName (Suc fuel) url driverName =
     (if driverName = [] then map_option (\<lambda>d. d @ ''_'' @ url) (getDriverName fuel url driverName)
      else Some driverName)"

section \<open>The manager of pools\<close>

type_synonym pools = "(string, nat) omap"

definition getPool :: "nat option \<Rightarrow> string \<Rightarrow> pools \<Rightarrow> nat option" where
  "getPool default_pool poolName ps =
     (if poolName = [] then
        (case default_pool of
           Some d \<Rightarrow> Some d
         | None \<Rightarrow> (case ps of [(_, p)] \<Rightarrow> Some p | _ \<Rightarrow> None))
      else om_find ps poolName)"

definition addPool :: "string \<Rightarrow> nat \<Rightarrow> pools \<Rightarrow> pools res" where
  "addPool poolName p ps =
     (if om_find ps poolName = None then Inr (om_put poolName p ps)
      else Inl (Throw ([CHR 0x0A] @ ''Connection pool named '' @ [CHR 0x27] @ poolName @ [CHR 0x27] @
             '' has been existed, error in ConnectionPoolManager::addPool().'')))"

definition make_pool :: "(nat \<Rightarrow> bool) \<Rightarrow> nat \<Rightarrow> pool \<Rightarrow> pools \<Rightarrow> (pool \<times> pools) res" where
  "make_pool closed addr p ps =
     bindR (make_loop closed (nat (po_initConnections p)) p) (\<lambda>p'.
     mapR (\<lambda>ps'. (p', ps')) (addPool (po_poolName p') addr ps))"

section \<open>Runs without waiting\<close>

text \<open>An acquisition that finds a slot, and a release.\<close>
inductive pool_step :: "(nat \<Rightarrow> bool) \<Rightarrow> pool \<Rightarrow> pool \<Rightarrow> bool" for closed where
  acquire: "po_countActive p < po_maxActive p \<Longrightarrow> getConnection closed [] p = Some (conn, p') \<Longrightarrow>
            pool_step closed p p'"
| release: "pool_step closed p (releaseConnection conn p)"

inductive_cases pool_stepE: "pool_step closed p p'"

inductive pool_reach :: "(nat \<Rightarrow> bool) \<Rightarrow> pool \<Rightarrow> pool \<Rightarrow> bool" for closed p0 where
  start: "pool_reach closed p0 p0"
| step: "pool_reach closed p0 p \<Longrightarrow> pool_step closed p p' \<Longrightarrow> pool_reach closed p0 p'"

text \<open>The count is the number of active connections, every connection is in one place, and numbers not
  yet used are above them.\<close>
definition pool_ok :: "pool \<Rightarrow> bool" where
  "pool_ok p =
     (po_countActive p = int (length (po_active p)) \<and> distinct (po_free p @ po_active p) \<and>
      (\<forall>c \<in> set (po_free p) \<union> set (po_active p). c < po_next p) \<and>
      po_countActive p \<le> max 0 (po_maxActive p))"

lemma pool_ok_release: "pool_ok p \<Longrightarrow> pool_ok (releaseConnection conn p)"
proof (cases "po_active p")
  case (Cons c cs)
  assume ok: "pool_ok p"
  then have d: "c \<notin> set cs" "distinct cs" "c \<notin> set (po_free p)"
    using Cons by (auto simp: pool_ok_def)
  then have "filter (\<lambda>x. x \<noteq> c) cs = cs" by (auto simp: filter_id_conv)
  then show ?thesis using ok d Cons
    by (auto simp: pool_ok_def releaseConnection_def)
qed (simp add: releaseConnection_def)

lemma pool_ok_count_active:
  assumes "po_countActive p = int (length (po_active p))" "distinct (c # po_free p @ po_active p)"
    "\<forall>x \<in> insert c (set (po_free p) \<union> set (po_active p)). x < po_next p"
    "po_countActive p < po_maxActive p"
  shows "pool_ok (count_active closed (Some c) p)"
  using assms by (auto simp: count_active_def pool_ok_def)

lemma getConnection_free:
  "po_countActive p < po_maxActive p \<Longrightarrow> po_free p = c # cs \<Longrightarrow>
   getConnection closed env p = Some (Some c, count_active closed (Some c) (p\<lparr>po_free := cs\<rparr>))"
  by (simp add: getConnection.simps)

lemma getConnection_new:
  "po_countActive p < po_maxActive p \<Longrightarrow> po_free p = [] \<Longrightarrow> newConnection p = (conn, p') \<Longrightarrow>
   getConnection closed env p = Some (conn, count_active closed conn p')"
  by (simp add: getConnection.simps)

lemma getConnection_wait:
  "\<not> po_countActive p < po_maxActive p \<Longrightarrow> getConnection closed (e # es) p =
     map_option (\<lambda>(conn, p'). (conn, count_active closed conn p')) (getConnection closed es (e p))"
  by (subst getConnection.simps) (simp split: option.split prod.split)

lemma pool_ok_acquire:
  assumes ok: "pool_ok p" and room: "po_countActive p < po_maxActive p"
    and g: "getConnection closed env p = Some (conn, p')"
  shows "pool_ok p'"
proof (cases "po_free p")
  case (Cons c cs)
  have "p' = count_active closed (Some c) (p\<lparr>po_free := cs\<rparr>)"
    using getConnection_free [OF room Cons, of closed env] unfolding g by (simp only: option.inject prod.inject)
  moreover have "pool_ok (count_active closed (Some c) (p\<lparr>po_free := cs\<rparr>))"
    using ok room Cons by (intro pool_ok_count_active) (auto simp: pool_ok_def)
  ultimately show ?thesis by (simp only:)
next
  case Nil
  show ?thesis
  proof (cases "po_dbType p")
    case MySql
    then have n: "newConnection p = (Some (po_next p), p\<lparr>po_next := po_next p + 1\<rparr>)"
      by (simp add: newConnection_def)
    have "p' = count_active closed (Some (po_next p)) (p\<lparr>po_next := po_next p + 1\<rparr>)"
      using getConnection_new [OF room Nil n, of closed env] unfolding g by (simp only: option.inject prod.inject)
    moreover have "pool_ok (count_active closed (Some (po_next p)) (p\<lparr>po_next := po_next p + 1\<rparr>))"
      using ok room Nil by (intro pool_ok_count_active) (auto simp: pool_ok_def)
    ultimately show ?thesis by (simp only:)
  next
    case Oracle
    then have n: "newConnection p = (None, p)" by (simp add: newConnection_def)
    then show ?thesis using g getConnection_new [OF room Nil n] ok by (simp add: count_active_def)
  next
    case SqlServer
    then have n: "newConnection p = (None, p)" by (simp add: newConnection_def)
    then show ?thesis using g getConnection_new [OF room Nil n] ok by (simp add: count_active_def)
  qed
qed

lemma pool_ok_step: "pool_ok p \<Longrightarrow> pool_step closed p p' \<Longrightarrow> pool_ok p'"
  by (erule pool_stepE) (auto intro: pool_ok_acquire pool_ok_release)

lemma pool_ok_reach: "pool_reach closed p0 p \<Longrightarrow> pool_ok p0 \<Longrightarrow> pool_ok p"
  by (induction rule: pool_reach.induct) (auto intro: pool_ok_step)

text \<open>A getConnection that had to wait once counts its connection twice.\<close>
lemma getConnection_waited:
  assumes full: "\<not> po_countActive p < po_maxActive p" and room: "po_countActive (e p) < po_maxActive (e p)"
    and free: "po_free (e p) = c # cs" and valid: "\<not> closed c"
  shows "getConnection closed (e # es) p = Some (Some c,
     (e p)\<lparr>po_free := cs, po_active := po_active (e p) @ [c, c],
           po_countActive := po_countActive (e p) + 2\<rparr>)"
  using valid by (simp add: getConnection_wait [OF full] getConnection_free [OF room free]
      count_active_def isValid_def)

section \<open>The pool as an interface\<close>

text \<open>What a client of the pool relies on in runs without waiting.\<close>
locale resource_pool =
  fixes in_use :: "'p \<Rightarrow> 'c list"
    and idle :: "'p \<Rightarrow> 'c list"
    and inv :: "'p \<Rightarrow> bool"
    and move :: "'p \<Rightarrow> 'p \<Rightarrow> bool"
  assumes inv_move: "inv p \<Longrightarrow> move p p' \<Longrightarrow> inv p'"
    and inv_distinct: "inv p \<Longrightarrow> distinct (idle p @ in_use p)"
begin

inductive moves :: "'p \<Rightarrow> 'p \<Rightarrow> bool" where
  moves_refl: "moves p p"
| moves_step: "moves p p' \<Longrightarrow> move p' p'' \<Longrightarrow> moves p p''"

lemma inv_moves: "moves p p' \<Longrightarrow> inv p \<Longrightarrow> inv p'"
  by (induction rule: moves.induct) (auto intro: inv_move)

lemma not_idle_in_use: "moves p p' \<Longrightarrow> inv p \<Longrightarrow> c \<in> set (in_use p') \<Longrightarrow> c \<notin> set (idle p')"
  using inv_moves inv_distinct [of p'] by (auto simp: disjoint_iff)

end

interpretation db_pool: resource_pool po_active po_free pool_ok "pool_step closed" for closed
proof (unfold_locales, goal_cases)
  case 1
  then show ?case by (rule pool_ok_step)
qed (simp add: pool_ok_def)


section \<open>The end of a pool\<close>

text \<open>The loop of the destructor over the free connections: each is closed and erased, a null pointer is left
  where it is and the iterator with it.  The result lists the connections closed.\<close>
partial_function (option) destroy_loop :: "nat option list \<Rightarrow> nat list \<Rightarrow> nat list option" where
  "destroy_loop free closed =
     (case free of
        [] \<Rightarrow> Some closed
      | None # _ \<Rightarrow> destroy_loop free closed
      | Some c # rest \<Rightarrow> destroy_loop rest (closed @ [c]))"

definition destroy_pool :: "pool \<Rightarrow> nat list option" where
  "destroy_pool p = destroy_loop (map Some (po_free p)) []"

lemma destroy_loop_Some: "destroy_loop (map Some cs) closed = Some (closed @ cs)"
  by (induction cs arbitrary: closed) (simp_all add: destroy_loop.simps)

text \<open>The destructor of a pool always ends, and closes the free connections; those in use stay open.\<close>
lemma destroy_pool_closes: "destroy_pool p = Some (po_free p)"
  by (simp add: destroy_pool_def destroy_loop_Some)

text \<open>With a null pointer in the list it would never end.\<close>
lemma destroy_loop_null: "destroy_loop (map Some cs @ None # fs) closed = None"
proof -
  have head: "\<not> (free \<noteq> [] \<and> hd free = None)" if "destroy_loop free closed = Some r" for free closed r
    by (rule destroy_loop.raw_induct [where P = "\<lambda>free _ _. \<not> (free \<noteq> [] \<and> hd free = None)", OF _ that])
      (fastforce split: list.splits option.splits)
  show ?thesis
  proof (induction cs arbitrary: closed)
    case Nil
    show ?case using head [of "None # fs" closed] by (cases "destroy_loop (None # fs) closed") auto
  qed (simp add: destroy_loop.simps)
qed

end
