(* ===== verification/Data_Base.thy ===== *)
theory Data_Base
  imports Connection_Pool
begin

text \<open>
  The database object of src/data_base.cc on top of the connection pools.  The pools are in a store by
  address; \<open>query c sql\<close> is what a connection returns for a query, its code and its record set, and
  \<open>command c sql\<close> the result of a command.  A call that waits in the pool gives None.
\<close>

record 'r database =
  db_pool_name :: string
  db_pool :: "nat option"
  db_sql :: string
  db_rs :: "'r list"
  db_pools :: pools
  db_store :: "(nat, pool) omap"

definition setConnectionPoolName :: "string \<Rightarrow> 'r database \<Rightarrow> 'r database" where
  "setConnectionPoolName n db = db\<lparr>db_pool_name := n\<rparr>"

text \<open>With no pool found the null pointer is used after the error has been logged.\<close>
definition executeQuery ::
  "(nat \<Rightarrow> bool) \<Rightarrow> (pool \<Rightarrow> pool) list \<Rightarrow> (nat \<Rightarrow> string \<Rightarrow> int \<times> 'r list) \<Rightarrow> nat option \<Rightarrow> string \<Rightarrow>
     'r database \<Rightarrow> (int \<times> 'r database) option res" where
  "executeQuery closed env query default_pool sql db =
     (let s = (if sql = [] then db_sql db else sql);
          db1 = (if db_pool db = None then db\<lparr>db_pool := getPool default_pool (db_pool_name db) (db_pools db)\<rparr> else db)
      in case db_pool db1 of
           None \<Rightarrow> Inl Null_Deref
         | Some a \<Rightarrow>
             (case om_find (db_store db1) a of
                None \<Rightarrow> Inl Undefined
              | Some p \<Rightarrow>
                  (case getConnection closed env p of
                     None \<Rightarrow> Inr None
                   | Some (conn, p') \<Rightarrow>
                       (case conn of
                          None \<Rightarrow> Inr (Some (-1, db1\<lparr>db_store := om_put a p' (db_store db1)\<rparr>))
                        | Some c \<Rightarrow>
                            (case query c s of
                               (ret, rs) \<Rightarrow>
                                 Inr (Some (ret, db1\<lparr>db_rs := rs,
                                   db_store := om_put a (releaseConnection conn p') (db_store db1)\<rparr>)))))))"

text \<open>A missing connection returns -1 from a function of type bool, that is true.\<close>
definition executeCommand ::
  "(nat \<Rightarrow> bool) \<Rightarrow> (pool \<Rightarrow> pool) list \<Rightarrow> (nat \<Rightarrow> string \<Rightarrow> bool) \<Rightarrow> string \<Rightarrow>
     'r database \<Rightarrow> (bool \<times> 'r database) option res" where
  "executeCommand closed env command sql db =
     (let s = (if sql = [] then db_sql db else sql)
      in case db_pool db of
           None \<Rightarrow> Inl Null_Deref
         | Some a \<Rightarrow>
             (case om_find (db_store db) a of
                None \<Rightarrow> Inl Undefined
              | Some p \<Rightarrow>
                  (case getConnection closed env p of
                     None \<Rightarrow> Inr None
                   | Some (conn, p') \<Rightarrow>
                       (case conn of
                          None \<Rightarrow> Inr (Some (True, db\<lparr>db_store := om_put a p' (db_store db)\<rparr>))
                        | Some c \<Rightarrow>
                            Inr (Some (command c s,
                              db\<lparr>db_store := om_put a (releaseConnection conn p') (db_store db)\<rparr>))))))"

definition clear_rs :: "'r database \<Rightarrow> 'r database" where
  "clear_rs db = db\<lparr>db_rs := []\<rparr>"

section \<open>Facts\<close>

definition db_ok :: "'r database \<Rightarrow> bool" where
  "db_ok db = (om_ok (db_store db) \<and> (\<forall>e \<in> set (db_store db). pool_ok (snd e)))"

lemma db_ok_find: "db_ok db \<Longrightarrow> om_find (db_store db) a = Some p \<Longrightarrow> pool_ok p"
  using om_find_in_set [of "db_store db" a p] by (force simp: db_ok_def)

lemma getConnection_SomeE:
  assumes "getConnection closed env p = Some (Some c, p')" "po_countActive p < po_maxActive p"
    "\<not> closed c" "po_active p = []"
  shows "po_active p' = [c]"
proof (cases "po_free p")
  case (Cons d cs)
  have "Some (Some c, p') = Some (Some d, count_active closed (Some d) (p\<lparr>po_free := cs\<rparr>))"
    using getConnection_free [OF assms(2) Cons, of closed env] unfolding assms(1) .
  then have "c = d" "p' = count_active closed (Some d) (p\<lparr>po_free := cs\<rparr>)"
    by (simp_all only: option.inject prod.inject)
  then show ?thesis using assms(3,4) by (simp add: count_active_def isValid_def)
next
  case Nil
  obtain conn q where n: "newConnection p = (conn, q)" by force
  have "Some (Some c, p') = Some (conn, count_active closed conn q)"
    using getConnection_new [OF assms(2) Nil n, of closed env] unfolding assms(1) .
  then have e: "conn = Some c" "p' = count_active closed conn q"
    by (simp_all only: option.inject prod.inject)
  have "po_active q = po_active p" using n by (auto simp: newConnection_def split: db_type.splits)
  then show ?thesis using e assms(3,4) by (simp add: count_active_def isValid_def)
qed

text \<open>Alone on its pool, a query gives its connection back.\<close>
lemma query_gives_back:
  assumes "pool_ok p" "po_active p = []" "po_countActive p < po_maxActive p" "po_free p = c # cs" "\<not> closed c"
  shows "\<exists>p'. getConnection closed env p = Some (Some c, p') \<and>
     po_active (releaseConnection (Some c) p') = [] \<and>
     set (po_free (releaseConnection (Some c) p')) = set (po_free p) \<and>
     po_countActive (releaseConnection (Some c) p') = po_countActive p"
proof -
  have g: "getConnection closed env p = Some (Some c, count_active closed (Some c) (p\<lparr>po_free := cs\<rparr>))"
    by (rule getConnection_free [OF assms(3,4)])
  then show ?thesis using assms(2,4,5)
    by (simp add: count_active_def isValid_def releaseConnection_def insert_commute)
qed

lemma db_ok_put: "db_ok db \<Longrightarrow> pool_ok p \<Longrightarrow> db_ok (db\<lparr>db_store := om_put a p (db_store db)\<rparr>)"
  by (auto simp: db_ok_def om_ok_put set_om_put_pairs)

lemma getConnection_nowait: "getConnection closed [] p = Some r \<Longrightarrow> po_countActive p < po_maxActive p"
  by (subst (asm) getConnection.simps) (auto split: if_splits)

lemma pool_ok_nowait: "pool_ok p \<Longrightarrow> getConnection closed [] p = Some (conn, p') \<Longrightarrow> pool_ok p'"
  using getConnection_nowait pool_ok_acquire by blast

definition db_result_ok :: "('x \<times> 'r database) option res \<Rightarrow> bool" where
  "db_result_ok r = (case r of Inr (Some (_, db)) \<Rightarrow> db_ok db | _ \<Rightarrow> True)"

lemma db_ok_cong [simp]:
  "db_ok (db\<lparr>db_pool := x\<rparr>) = db_ok db" "db_ok (db\<lparr>db_rs := rs\<rparr>) = db_ok db"
  by (simp_all add: db_ok_def)

lemma db_ok_put_rs:
  "db_ok db \<Longrightarrow> pool_ok p \<Longrightarrow> db_ok (db\<lparr>db_rs := rs, db_store := om_put a p (db_store db)\<rparr>)"
  using db_ok_put [of "db\<lparr>db_rs := rs\<rparr>" p a] by simp

lemma executeCommand_ok: "db_ok db \<Longrightarrow> db_result_ok (executeCommand closed [] command sql db)"
  by (auto simp: executeCommand_def db_result_ok_def Let_def split: option.split
      intro: db_ok_put pool_ok_release pool_ok_nowait db_ok_find)

lemma executeQuery_ok: "db_ok db \<Longrightarrow> db_result_ok (executeQuery closed [] query d sql db)"
proof -
  assume ok: "db_ok db"
  define db1 where "db1 = (if db_pool db = None then db\<lparr>db_pool := getPool d (db_pool_name db) (db_pools db)\<rparr> else db)"
  have ok1: "db_ok db1" using ok by (simp add: db1_def)
  show ?thesis
    unfolding executeQuery_def Let_def db1_def [symmetric]
    using ok1 by (auto simp: db_result_ok_def split: option.split prod.split
        intro: db_ok_put db_ok_put_rs pool_ok_release pool_ok_nowait db_ok_find)
qed

text \<open>A query alone on its pool that finds a free connection.\<close>
lemma executeQuery_alone:
  assumes "db_ok db" "db_pool db = Some a" "om_find (db_store db) a = Some p" "po_active p = []"
    and "po_countActive p < po_maxActive p" "po_free p = c # cs" "\<not> closed c"
  shows "\<exists>db1 p1. executeQuery closed [] query d sql db =
       Inr (Some (fst (query c (if sql = [] then db_sql db else sql)), db1)) \<and>
     db_rs db1 = snd (query c (if sql = [] then db_sql db else sql)) \<and> om_find (db_store db1) a = Some p1 \<and>
     po_active p1 = [] \<and> set (po_free p1) = set (po_free p) \<and> po_countActive p1 = po_countActive p"
proof -
  let ?s = "if sql = [] then db_sql db else sql"
  have "pool_ok p" by (rule db_ok_find [OF assms(1,3)])
  from query_gives_back [of p c cs closed "[]", OF this assms(4-7)] obtain p' where
    g: "getConnection closed [] p = Some (Some c, p')" "po_active (releaseConnection (Some c) p') = []"
      "set (po_free (releaseConnection (Some c) p')) = set (po_free p)"
      "po_countActive (releaseConnection (Some c) p') = po_countActive p" by blast
  obtain ret rs where q: "query c ?s = (ret, rs)" by force
  have "executeQuery closed [] query d sql db = Inr (Some (ret, db\<lparr>db_rs := rs,
      db_store := om_put a (releaseConnection (Some c) p') (db_store db)\<rparr>))"
    using assms(2,3) g(1) q by (simp add: executeQuery_def)
  moreover have "om_find (om_put a (releaseConnection (Some c) p') (db_store db)) a = Some (releaseConnection (Some c) p')"
    using assms(1) by (simp add: om_find_put db_ok_def)
  ultimately show ?thesis using g(2-4) q by simp
qed

end
