(* ===== verification/File_Io.thy ===== *)
theory File_Io
  imports Std_Map
begin

text \<open>
  The file helpers of src/file.cc.  The file system is a map from paths to contents, which the
  calls only read; an argument that is a null pointer is None.  \<open>std::getline\<close> reads up to the next
  newline and does not deliver an empty line after the last one.
\<close>

type_synonym file_system = "(string, string) omap"

function lines_of :: "string \<Rightarrow> string list" where
  "lines_of s =
     (if s = [] then []
      else takeWhile (\<lambda>c. c \<noteq> CHR 0x0A) s
           # lines_of (drop (Suc (length (takeWhile (\<lambda>c. c \<noteq> CHR 0x0A) s))) s))"
  by pat_completeness auto
termination by (relation "measure length") auto

declare lines_of.simps [simp del]

definition exist :: "file_system \<Rightarrow> string \<Rightarrow> bool" where
  "exist fs path = (path \<noteq> [] \<and> om_has fs path)"

text \<open>The loop of readFile over the lines: those before \<open>start_line\<close> are counted and skipped.\<close>
fun read_lines :: "int \<Rightarrow> int \<Rightarrow> string list \<Rightarrow> string list \<Rightarrow> string list" where
  "read_lines line start_line [] lst = lst"
| "read_lines line start_line (s # ss) lst =
     (if line < start_line then read_lines (line + 1) start_line ss lst
      else read_lines (line + 1) start_line ss (lst @ [s]))"

text \<open>None: the call returns false.\<close>
definition readFile :: "file_system \<Rightarrow> string \<Rightarrow> string list option \<Rightarrow> int \<Rightarrow> string list option" where
  "readFile fs path lst start_line =
     (case lst of
        None \<Rightarrow> None
      | Some l \<Rightarrow>
          if path = [] \<or> \<not> exist fs path then None
          else map_option (\<lambda>content. read_lines 0 start_line (lines_of content) l) (om_find fs path))"

fun join_lines :: "string list \<Rightarrow> string" where
  "join_lines [] = []"
| "join_lines (s # ss) = s @ [CHR 0x0A] @ join_lines ss"

text \<open>The whole file as text: the given string keeps its value when the file is empty.\<close>
definition ReadFile :: "file_system \<Rightarrow> string \<Rightarrow> string option \<Rightarrow> string option" where
  "ReadFile fs path str =
     (case str of
        None \<Rightarrow> None
      | Some old \<Rightarrow>
          if path = [] \<or> \<not> exist fs path then None
          else map_option (\<lambda>content. let t = join_lines (lines_of content) in if t \<noteq> [] then t else old)
                 (om_find fs path))"

definition ReadFileAsBinary :: "file_system \<Rightarrow> string \<Rightarrow> string option \<Rightarrow> string option" where
  "ReadFileAsBinary fs path str =
     (case str of
        None \<Rightarrow> None
      | Some old \<Rightarrow>
          if path = [] \<or> \<not> exist fs path then None
          else map_option (\<lambda>content. if 0 < length content then content else old) (om_find fs path))"

definition GetFileSuffixName :: "string \<Rightarrow> string" where
  "GetFileSuffixName file_name =
     (if CHR ''.'' \<notin> set file_name then []
      else CHR ''.'' # rev (takeWhile (\<lambda>c. c \<noteq> CHR ''.'') (rev file_name)))"

section \<open>Directories\<close>

text \<open>What readdir gives for the directory opened, on Linux; \<open>opendir\<close> is None when it cannot be opened.\<close>
datatype dirent = Regular string | Directory string | Other_Entry string

definition is_dot :: "string \<Rightarrow> bool" where
  "is_dot d_name = (d_name = ''.'' \<or> d_name = ''..'')"

definition dir_path :: "string \<Rightarrow> string \<Rightarrow> string" where
  "dir_path cwd path = (if hd path \<noteq> CHR ''/'' then cwd @ ''/'' @ path else path)"

definition file_in :: "string \<Rightarrow> string \<Rightarrow> string" where
  "file_in path d_name = (if last path = CHR ''/'' then path @ d_name else path @ ''/'' @ d_name)"

text \<open>The loop over the entries; \<open>nested\<close> is what the call for a subdirectory adds.\<close>
fun dir_loop :: "(string \<Rightarrow> string list) \<Rightarrow> bool \<Rightarrow> string \<Rightarrow> dirent list \<Rightarrow> string list \<Rightarrow> string list" where
  "dir_loop nested sub_dir path [] res = res"
| "dir_loop nested sub_dir path (Regular d # es) res =
     dir_loop nested sub_dir path es (if is_dot d then res else res @ [file_in path d])"
| "dir_loop nested sub_dir path (Directory d # es) res =
     dir_loop nested sub_dir path es (if is_dot d \<or> \<not> sub_dir then res else res @ nested (path @ ''/'' @ d))"
| "dir_loop nested sub_dir path (Other_Entry d # es) res = dir_loop nested sub_dir path es res"

text \<open>The call with the default for \<open>sub_dir\<close>, which is false.\<close>
definition files_flat ::
  "string \<Rightarrow> (string \<Rightarrow> dirent list option) \<Rightarrow> string \<Rightarrow> string list \<Rightarrow> string list option" where
  "files_flat cwd opendir path res =
     (if path = [] then None
      else map_option (\<lambda>es. dir_loop (\<lambda>_. []) False path es res) (opendir (dir_path cwd path)))"

text \<open>The call for a subdirectory leaves \<open>sub_dir\<close> to its default.\<close>
definition GetFilesInDir ::
  "string \<Rightarrow> (string \<Rightarrow> dirent list option) \<Rightarrow> string \<Rightarrow> string list option \<Rightarrow> bool \<Rightarrow> string list option" where
  "GetFilesInDir cwd opendir path res sub_dir =
     (case res of
        None \<Rightarrow> None
      | Some r \<Rightarrow>
          if path = [] then None
          else map_option (\<lambda>es. dir_loop
                 (\<lambda>p. case files_flat cwd opendir p [] of None \<Rightarrow> [] | Some fs \<Rightarrow> fs) sub_dir path es r)
               (opendir (dir_path cwd path)))"

definition IsDir :: "string \<Rightarrow> (string \<Rightarrow> bool) \<Rightarrow> string \<Rightarrow> bool" where
  "IsDir cwd stat_dir path = (path \<noteq> [] \<and> stat_dir (dir_path cwd path))"

section \<open>Facts\<close>

text \<open>The files of a directory, in the order of its entries.\<close>
lemma dir_loop_files:
  "dir_loop nested False path es res =
     res @ map (file_in path) (filter (\<lambda>d. \<not> is_dot d) (List.map_filter (\<lambda>e. case e of Regular d \<Rightarrow> Some d | _ \<Rightarrow> None) es))"
  by (induction nested "False" path es res rule: dir_loop.induct) (auto simp: List.map_filter_simps)

lemma lines_of_Nil [simp]: "lines_of [] = []"
  by (simp add: lines_of.simps)

lemma lines_of_line:
  "CHR 0x0A \<notin> set l \<Longrightarrow> lines_of (l @ CHR 0x0A # s) = l # lines_of s"
proof -
  assume a: "CHR 0x0A \<notin> set l"
  have "takeWhile (\<lambda>c. c \<noteq> CHR 0x0A) (l @ CHR 0x0A # s) = l"
    using a by (subst takeWhile_append2) auto
  then show ?thesis by (subst lines_of.simps) simp
qed

lemma lines_of_join:
  "\<forall>l \<in> set ls. CHR 0x0A \<notin> set l \<Longrightarrow> lines_of (join_lines ls @ s) = ls @ lines_of s"
  by (induction ls) (auto simp: lines_of_line)

lemma read_lines_drop:
  "read_lines line start ls acc = acc @ drop (nat (start - line)) ls"
proof (induction ls arbitrary: line acc)
  case (Cons s ls)
  have "line < start \<Longrightarrow> nat (start - line) = Suc (nat (start - (line + 1)))" by simp
  then show ?case using Cons [of "line + 1"] by auto
qed simp

lemma readFile_drop:
  "path \<noteq> [] \<Longrightarrow> om_find fs path = Some content \<Longrightarrow>
   readFile fs path (Some l) start = Some (l @ drop (nat start) (lines_of content))"
  by (simp add: readFile_def exist_def om_has_def read_lines_drop)

lemma lines_of_last: "CHR 0x0A \<notin> set s \<Longrightarrow> s \<noteq> [] \<Longrightarrow> lines_of s = [s]"
proof -
  assume a: "CHR 0x0A \<notin> set s" "s \<noteq> []"
  then have t: "takeWhile (\<lambda>c. c \<noteq> CHR 0x0A) s = s" by (subst takeWhile_eq_all_conv) auto
  show ?thesis by (subst lines_of.simps) (simp only: t a(2) if_False drop_Suc, simp)
qed

definition ended :: "string \<Rightarrow> string" where
  "ended s = (if s = [] \<or> last s = CHR 0x0A then s else s @ [CHR 0x0A])"

lemma ended_line: "ended (l @ CHR 0x0A # r) = l @ CHR 0x0A # ended r"
  by (simp add: ended_def)

lemma join_lines_of: "join_lines (lines_of s) = ended s"
proof (induction "length s" arbitrary: s rule: less_induct)
  case less
  show ?case
  proof (cases "CHR 0x0A \<in> set s")
    case True
    then obtain l r where s: "s = l @ CHR 0x0A # r" "CHR 0x0A \<notin> set l"
      by (metis split_list_first)
    then have "join_lines (lines_of r) = ended r" by (intro less) simp
    then show ?thesis unfolding s(1) lines_of_line [OF s(2)] ended_line by simp
  next
    case False
    show ?thesis
    proof (cases "s = []")
      case ne: False
      have "last s \<noteq> CHR 0x0A" using last_in_set [OF ne] False by metis
      then show ?thesis unfolding lines_of_last [OF False ne] using ne by (simp add: ended_def)
    qed (simp add: ended_def)
  qed
qed

end
