(* ===== verification/Logger.thy ===== *)
theory Logger
  imports File_Io Mutex Converter
begin

text \<open>
  The logger (src/logger.h, src/logger.cc): messages by level and type, the queue, one round of the
  writer thread with the change of file at one megabyte, and the history that is read back from the
  files.  The time is an argument; \<open>fmt\<close> is absl::FormatTime at the moment of the round, and
  \<open>writable\<close> says which files open.  The two mutexes are balanced on every path and are left out,
  except in Fatal, where the writer runs while the caller sleeps.
\<close>

datatype logger_type = RecordAndPrint | Record | Print

datatype logger_level = LV_ALL | LV_DEBUG | LV_INFO | LV_WARN | LV_ERROR | LV_FATAL | LV_OFF

fun level_code :: "logger_level \<Rightarrow> nat" where
  "level_code LV_ALL = 0"
| "level_code LV_DEBUG = 1"
| "level_code LV_INFO = 2"
| "level_code LV_WARN = 3"
| "level_code LV_ERROR = 4"
| "level_code LV_FATAL = 5"
| "level_code LV_OFF = 6"

instantiation logger_level :: linorder
begin

definition less_eq_logger_level :: "logger_level \<Rightarrow> logger_level \<Rightarrow> bool" where
  "less_eq_logger_level a b = (level_code a \<le> level_code b)"

definition less_logger_level :: "logger_level \<Rightarrow> logger_level \<Rightarrow> bool" where
  "less_logger_level a b = (level_code a < level_code b)"

instance
proof
  fix a b :: logger_level
  show "a \<le> b \<Longrightarrow> b \<le> a \<Longrightarrow> a = b"
    by (cases a; cases b) (simp_all add: less_eq_logger_level_def)
qed (auto simp: less_eq_logger_level_def less_logger_level_def)

end

fun level_name :: "logger_level \<Rightarrow> string" where
  "level_name LV_ALL = ''ALL''"
| "level_name LV_DEBUG = ''DEBUG''"
| "level_name LV_INFO = ''INFO''"
| "level_name LV_WARN = ''WARN''"
| "level_name LV_ERROR = ''ERROR''"
| "level_name LV_FATAL = ''FATAL''"
| "level_name LV_OFF = ''OFF''"

record logger_message =
  lm_time :: string
  lm_message :: string
  lm_level :: logger_level
  lm_type :: logger_type
  lm_strLevel :: string
  lm_pos :: string

definition new_logger_message :: "string \<Rightarrow> string \<Rightarrow> string \<Rightarrow> logger_level \<Rightarrow> logger_type \<Rightarrow> logger_message" where
  "new_logger_message now msg pos level type =
     \<lparr> lm_time = now, lm_message = msg, lm_level = level, lm_type = type,
       lm_strLevel = level_name level, lm_pos = pos \<rparr>"

definition serious :: "logger_level \<Rightarrow> bool" where
  "serious l = (l = LV_WARN \<or> l = LV_ERROR \<or> l = LV_FATAL)"

definition lm_toString :: "bool \<Rightarrow> logger_message \<Rightarrow> string" where
  "lm_toString crlf m =
     (if serious (lm_level m)
      then ''!! '' @ lm_time m @ '' '' @ lm_strLevel m @ ''    '' @ lm_message m @ (if crlf then [CHR 0x0A] else [])
      else lm_time m @ ''    '' @ lm_strLevel m @ ''    '' @ lm_message m @ (if crlf then [CHR 0x0A] else []))"

definition toPrintString :: "logger_message \<Rightarrow> string" where
  "toPrintString m = lm_time m @ '': '' @ lm_message m @ [CHR 0x0A]"

definition lm_print :: "logger_message \<Rightarrow> string" where
  "lm_print m =
     (if serious (lm_level m) then ''!! '' @ lm_time m @ '': '' @ lm_message m @ [CHR 0x0A]
      else lm_time m @ '': '' @ lm_message m @ [CHR 0x0A])"

record history_info =
  hi_file_name :: string
  hi_line_count :: int
  hi_file_size :: int

record logger =
  lg_filePath :: string
  lg_logLevel :: logger_level
  lg_messages :: "logger_message list"
  lg_file_name :: string
  lg_file_index :: nat
  lg_history :: "history_info list"
  lg_subscribers :: "nat list"
  lg_files :: file_system
  lg_out :: "string list"                                \<comment> \<open>what was printed\<close>
  lg_updates :: "(nat \<times> logger_message list) list"  \<comment> \<open>the calls of LoggerSubscriber::update\<close>

definition new_logger :: logger where
  "new_logger = \<lparr> lg_filePath = ''/tmp/'', lg_logLevel = LV_ALL, lg_messages = [], lg_file_name = [],
     lg_file_index = 0, lg_history = [], lg_subscribers = [], lg_files = [], lg_out = [], lg_updates = [] \<rparr>"

definition lg_setFilePath :: "(string \<Rightarrow> bool) \<Rightarrow> string \<Rightarrow> logger \<Rightarrow> logger res" where
  "lg_setFilePath access path lg =
     (if path = [] then Inl Out_Of_Range
      else
        (let p = (if last path \<noteq> CHR ''/'' then path @ ''/'' else path)
         in if access p then Inr (lg\<lparr>lg_filePath := p\<rparr>)
            else Inr (lg\<lparr>lg_out := lg_out lg @ [''Logerr path not exist!'']\<rparr>)))"

section \<open>Logging\<close>

text \<open>The common body of Log, Debug, Info, Warn, Error and Fatal.\<close>
definition log_at :: "string \<Rightarrow> string \<Rightarrow> logger_level \<Rightarrow> logger_type \<Rightarrow> logger \<Rightarrow> logger" where
  "log_at now message level type lg =
     (if message = [] then lg
      else
        (let m = new_logger_message now message [] level type;
             lg1 = (if type \<noteq> Record then lg\<lparr>lg_out := lg_out lg @ [lm_print m]\<rparr> else lg)
         in if type \<noteq> Print \<and> lg_logLevel lg \<le> level
            then lg1\<lparr>lg_messages := lg_messages lg1 @ [m]\<rparr> else lg1))"

definition Log :: "string \<Rightarrow> string \<Rightarrow> logger_level \<Rightarrow> logger_type \<Rightarrow> logger \<Rightarrow> logger" where
  "Log now message level type lg = log_at now message level type lg"

definition Debug :: "string \<Rightarrow> string \<Rightarrow> logger_type \<Rightarrow> logger \<Rightarrow> logger" where
  "Debug now message type lg = log_at now message LV_DEBUG type lg"

definition Info :: "string \<Rightarrow> string \<Rightarrow> logger_type \<Rightarrow> logger \<Rightarrow> logger" where
  "Info now message type lg = log_at now message LV_INFO type lg"

definition Warn :: "string \<Rightarrow> string \<Rightarrow> logger_type \<Rightarrow> logger \<Rightarrow> logger" where
  "Warn now message type lg = log_at now message LV_WARN type lg"

definition Error :: "string \<Rightarrow> string \<Rightarrow> logger_type \<Rightarrow> logger \<Rightarrow> logger" where
  "Error now message type lg = log_at now message LV_ERROR type lg"

text \<open>Fatal waits until the queue is empty, sleeping between its looks; each element of \<open>env\<close> is what the
  writer does during one sleep.  Some: the process exits in that state; None: it still waits.\<close>
fun fatal_wait :: "bool \<Rightarrow> (logger \<Rightarrow> logger) list \<Rightarrow> logger \<Rightarrow> logger option" where
  "fatal_wait write_done env lg =
     (if write_done then Some lg
      else case env of
             [] \<Rightarrow> None
           | e # es \<Rightarrow> fatal_wait (lg_messages lg = []) es (e lg))"

declare fatal_wait.simps [simp del]

text \<open>The result Inl is the process's exit, in the state it carries; an empty message returns.\<close>
definition Fatal ::
  "(logger \<Rightarrow> logger) list \<Rightarrow> string \<Rightarrow> string \<Rightarrow> logger_type \<Rightarrow> logger \<Rightarrow> (logger + logger) option" where
  "Fatal env now message type lg =
     (if message = [] then Some (Inr lg)
      else
        (let lg1 = log_at now message LV_FATAL type lg
         in map_option Inl (fatal_wait (lg_messages lg1 = []) env lg1)))"

section \<open>The writer\<close>

definition file_pattern :: "string \<Rightarrow> nat \<Rightarrow> string" where
  "file_pattern path index =
     path @ ''log%Y%m%dT%H%M%E9S'' @ (if 0 < index then ''_'' @ show_nat index else []) @ ''.txt''"

definition MAX_FILE :: nat where "MAX_FILE = 1048576"

text \<open>A file not in the map is created by the append.\<close>
definition append_file :: "string \<Rightarrow> string \<Rightarrow> file_system \<Rightarrow> file_system" where
  "append_file name s fs =
     om_put name ((case om_find fs name of None \<Rightarrow> [] | Some c \<Rightarrow> c) @ s) fs"

definition add_lines :: "int \<Rightarrow> int \<Rightarrow> history_info list \<Rightarrow> history_info list" where
  "add_lines n fsize h =
     butlast h @ [(last h)\<lparr>hi_line_count := hi_line_count (last h) + n, hi_file_size := fsize\<rparr>]"

text \<open>One round of execute with messages in the queue.  When the file does not open, tellp gives -1: as a
  \<open>size_t\<close> that is above the limit, as an \<open>int\<close> it is -1.\<close>
definition writer_round :: "(string \<Rightarrow> string) \<Rightarrow> (string \<Rightarrow> bool) \<Rightarrow> logger \<Rightarrow> logger res" where
  "writer_round fmt writable lg =
     (let msgs = lg_messages lg; lg0 = lg\<lparr>lg_messages := []\<rparr>
      in if msgs = [] then Inr lg0
         else
           (let lg1 =
              (if lg_file_name lg0 = [] then
                 (let n = fmt (file_pattern (lg_filePath lg0) (lg_file_index lg0))
                  in lg0\<lparr>lg_file_name := n,
                       lg_history := lg_history lg0 @ [\<lparr> hi_file_name = n, hi_line_count = 0, hi_file_size = 0 \<rparr>]\<rparr>)
               else lg0);
                opened = writable (lg_file_name lg1);
                fs = (if opened
                      then append_file (lg_file_name lg1) (concat (map (lm_toString True) msgs)) (lg_files lg1)
                      else lg_files lg1);
                fsize = (if opened
                         then (case om_find fs (lg_file_name lg1) of None \<Rightarrow> 0 | Some c \<Rightarrow> int (length c))
                         else -1);
                full = (fsize < 0 \<or> int MAX_FILE \<le> fsize)
            in if lg_history lg1 = [] then Inl Undefined
               else Inr (lg1\<lparr>lg_files := fs,
                      lg_file_name := (if full then [] else lg_file_name lg1),
                      lg_file_index := (if full then lg_file_index lg1 + 1 else lg_file_index lg1),
                      lg_history := add_lines (int (length msgs)) fsize (lg_history lg1),
                      lg_updates := lg_updates lg1 @ map (\<lambda>s. (s, msgs)) (lg_subscribers lg1)\<rparr>)))"

section \<open>Subscribers and history\<close>

definition setLoggerSubscriber :: "nat option \<Rightarrow> logger \<Rightarrow> logger" where
  "setLoggerSubscriber s lg =
     (case s of None \<Rightarrow> lg | Some x \<Rightarrow> lg\<lparr>lg_subscribers := lg_subscribers lg @ [x]\<rparr>)"

text \<open>The loop removes the first entry of the subscriber only.\<close>
definition cancelLoggerSubscriber :: "nat option \<Rightarrow> logger \<Rightarrow> logger" where
  "cancelLoggerSubscriber s lg =
     (case s of None \<Rightarrow> lg | Some x \<Rightarrow> lg\<lparr>lg_subscribers := remove1 x (lg_subscribers lg)\<rparr>)"

text \<open>The loop over the files: the index of the first line wanted is taken relative to the number of lines
  counted so far, and a file that was read counts with the lines that were delivered.\<close>
fun history_loop ::
  "string \<Rightarrow> int \<Rightarrow> history_info list \<Rightarrow> int \<Rightarrow> string list \<Rightarrow> logger \<Rightarrow> string list \<times> logger" where
  "history_loop now start [] seen data lg = (data, lg)"
| "history_loop now start (h # hs) seen data lg =
     (if hi_file_name h = [] then history_loop now start hs seen data lg
      else if seen + hi_line_count h < start then
        history_loop now start hs (seen + hi_line_count h) data lg
      else
        (case readFile (lg_files lg) (hi_file_name h) (Some []) (start - seen) of
           Some lst \<Rightarrow>
             if lst \<noteq> [] then history_loop now start hs (seen + int (length lst)) (data @ lst) lg
             else history_loop now start hs seen data
                    (Error now ''get history log error: unknown error'' RecordAndPrint lg)
         | None \<Rightarrow> history_loop now start hs seen data
                    (Warn now (''get history log error: '' @ hi_file_name h) RecordAndPrint lg)))"

definition total_lines :: "history_info list \<Rightarrow> int" where
  "total_lines hs = sum_list (map hi_line_count hs)"

definition getHistoryLog ::
  "string \<Rightarrow> string list option \<Rightarrow> int \<Rightarrow> nat option \<Rightarrow> logger \<Rightarrow> string list option \<times> logger" where
  "getHistoryLog now data count subscriber lg =
     (case data of
        None \<Rightarrow> (None, lg)
      | Some d \<Rightarrow>
          (let seen = total_lines (lg_history lg)
           in if seen \<le> 0 then
                (Some d, Error now (''get history log error: total line count: '' @ show_int seen) RecordAndPrint lg)
              else
                (let start = (if 0 < count \<and> count < seen then seen - count else 0)
                 in case history_loop now start (lg_history lg) 0 d lg of
                      (d', lg') \<Rightarrow> (Some d', setLoggerSubscriber subscriber lg'))))"

section \<open>Facts\<close>

lemma log_at_queue:
  "lg_messages (log_at now msg level type lg) = lg_messages lg @
     (if msg \<noteq> [] \<and> type \<noteq> Print \<and> lg_logLevel lg \<le> level
      then [new_logger_message now msg [] level type] else [])"
  by (simp add: log_at_def Let_def)

lemma log_at_out:
  "lg_out (log_at now msg level type lg) = lg_out lg @
     (if msg \<noteq> [] \<and> type \<noteq> Record then [lm_print (new_logger_message now msg [] level type)] else [])"
  by (simp add: log_at_def Let_def)

text \<open>A message on one line.\<close>
definition one_line :: "logger_message \<Rightarrow> bool" where
  "one_line m = (CHR 0x0A \<notin> set (lm_toString False m))"

lemma lm_toString_line: "lm_toString True m = lm_toString False m @ [CHR 0x0A]"
  by (simp add: lm_toString_def)

lemma messages_text: "concat (map (lm_toString True) ms) = join_lines (map (lm_toString False) ms)"
  by (induction ms) (simp_all add: lm_toString_line)

text \<open>The files hold, file by file, the lines counted in the history.\<close>
definition file_lines :: "file_system \<Rightarrow> history_info \<Rightarrow> string list" where
  "file_lines fs h = (case om_find fs (hi_file_name h) of None \<Rightarrow> [] | Some c \<Rightarrow> lines_of c)"

definition entry_ok :: "file_system \<Rightarrow> history_info \<Rightarrow> bool" where
  "entry_ok fs h =
     (hi_file_name h \<noteq> [] \<and>
      (\<exists>ls. om_find fs (hi_file_name h) = Some (join_lines ls) \<and> (\<forall>l \<in> set ls. CHR 0x0A \<notin> set l) \<and>
            hi_line_count h = int (length ls) \<and> ls \<noteq> []))"

definition history_ok :: "logger \<Rightarrow> bool" where
  "history_ok lg =
     (om_ok (lg_files lg) \<and> distinct (map hi_file_name (lg_history lg)) \<and>
      (\<forall>h \<in> set (lg_history lg). entry_ok (lg_files lg) h) \<and>
      (lg_file_name lg \<noteq> [] \<longrightarrow> lg_history lg \<noteq> [] \<and> hi_file_name (last (lg_history lg)) = lg_file_name lg))"

definition all_lines :: "logger \<Rightarrow> string list" where
  "all_lines lg = concat (map (file_lines (lg_files lg)) (lg_history lg))"

lemma lines_of_join_id: "\<forall>l \<in> set ls. CHR 0x0A \<notin> set l \<Longrightarrow> lines_of (join_lines ls) = ls"
  using lines_of_join [of ls "[]"] by simp

lemma join_lines_append [simp]: "join_lines (xs @ ys) = join_lines xs @ join_lines ys"
  by (induction xs) auto

lemma entry_okE:
  assumes "entry_ok fs h"
  obtains ls where "hi_file_name h \<noteq> []" "om_find fs (hi_file_name h) = Some (join_lines ls)"
    "\<forall>l \<in> set ls. CHR 0x0A \<notin> set l" "hi_line_count h = int (length ls)" "ls \<noteq> []" "file_lines fs h = ls"
  using assms by (auto simp: entry_ok_def file_lines_def lines_of_join_id)

lemma history_read_all:
  assumes "\<forall>h \<in> set hs. entry_ok (lg_files lg) h"
  shows "0 \<le> seen \<Longrightarrow> history_loop now 0 hs seen data lg =
     (data @ concat (map (file_lines (lg_files lg)) hs), lg)"
  using assms
proof (induction hs arbitrary: seen data)
  case (Cons h hs)
  have "entry_ok (lg_files lg) h" using Cons.prems(2) by simp
  then obtain ls where h: "hi_file_name h \<noteq> []" "om_find (lg_files lg) (hi_file_name h) = Some (join_lines ls)"
    "\<forall>l \<in> set ls. CHR 0x0A \<notin> set l" "hi_line_count h = int (length ls)" "ls \<noteq> []"
    "file_lines (lg_files lg) h = ls" by (rule entry_okE)
  have r: "readFile (lg_files lg) (hi_file_name h) (Some []) (0 - seen) = Some ls"
    using readFile_drop [OF h(1,2), of "[]" "0 - seen"] Cons.prems(1) by (simp add: lines_of_join_id [OF h(3)])
  then show ?case using Cons h by simp
qed simp

text \<open>With one file the lines from any point on are delivered.\<close>
lemma history_read_one:
  assumes "entry_ok (lg_files lg) h" "0 \<le> start" "start < hi_line_count h"
  shows "history_loop now start [h] 0 data lg = (data @ drop (nat start) (file_lines (lg_files lg) h), lg)"
proof -
  from assms(1) obtain ls where h: "hi_file_name h \<noteq> []" "om_find (lg_files lg) (hi_file_name h) = Some (join_lines ls)"
    "\<forall>l \<in> set ls. CHR 0x0A \<notin> set l" "hi_line_count h = int (length ls)" "file_lines (lg_files lg) h = ls"
    by (rule entry_okE)
  have "readFile (lg_files lg) (hi_file_name h) (Some []) start = Some (drop (nat start) ls)"
    using readFile_drop [OF h(1,2), of "[]" start] by (simp add: lines_of_join_id [OF h(3)])
  moreover have "drop (nat start) ls \<noteq> []" using assms(2,3) h(4) by simp
  ultimately show ?thesis using h assms by simp
qed

lemma find_append:
  "om_ok fs \<Longrightarrow> om_find (append_file n s fs) j =
     (if j = n then Some ((case om_find fs n of None \<Rightarrow> [] | Some c \<Rightarrow> c) @ s) else om_find fs j)"
  by (simp add: append_file_def om_find_put)

text \<open>Lines appended to the last file of the history.\<close>
lemma append_last:
  assumes ok: "om_ok fs" and d: "distinct (map hi_file_name (hs @ [h]))"
    and old: "\<forall>e \<in> set hs. entry_ok fs e" and n: "hi_file_name h \<noteq> []"
    and h: "(case om_find fs (hi_file_name h) of None \<Rightarrow> [] | Some c \<Rightarrow> c) = join_lines ls"
      "\<forall>l \<in> set ls. CHR 0x0A \<notin> set l" "hi_line_count h = int (length ls)"
    and new: "\<forall>l \<in> set ns. CHR 0x0A \<notin> set l" "ns \<noteq> []"
  defines "fs' \<equiv> append_file (hi_file_name h) (join_lines ns) fs"
  shows "om_ok fs'" "\<forall>e \<in> set (add_lines (int (length ns)) z (hs @ [h])). entry_ok fs' e"
    "map hi_file_name (add_lines (int (length ns)) z (hs @ [h])) = map hi_file_name (hs @ [h])"
    "concat (map (file_lines fs') (add_lines (int (length ns)) z (hs @ [h]))) =
     concat (map (file_lines fs) hs) @ ls @ ns"
proof -
  show "om_ok fs'" by (simp add: fs'_def append_file_def om_ok_put ok)
  let ?h = "h\<lparr>hi_line_count := hi_line_count h + int (length ns), hi_file_size := z\<rparr>"
  have add: "add_lines (int (length ns)) z (hs @ [h]) = hs @ [?h]" by (simp add: add_lines_def)
  show "map hi_file_name (add_lines (int (length ns)) z (hs @ [h])) = map hi_file_name (hs @ [h])"
    by (simp add: add)
  have same: "om_find fs' (hi_file_name e) = om_find fs (hi_file_name e)" if "e \<in> set hs" for e
  proof -
    have "hi_file_name e \<noteq> hi_file_name h" using d imageI [OF that, of hi_file_name] by auto
    then show ?thesis using ok by (simp add: fs'_def find_append)
  qed
  have at: "om_find fs' (hi_file_name h) = Some (join_lines (ls @ ns))"
    using h(1) ok by (simp add: fs'_def find_append)
  have all: "\<forall>l \<in> set (ls @ ns). CHR 0x0A \<notin> set l" using h(2) new(1) by auto
  have e1: "entry_ok fs' e" if "e \<in> set hs" for e
    using old same [OF that] that by (simp add: entry_ok_def)
  have e2: "entry_ok fs' ?h"
    unfolding entry_ok_def using n at all h(3) new(2) by (intro conjI exI [of _ "ls @ ns"]) auto
  show "\<forall>e \<in> set (add_lines (int (length ns)) z (hs @ [h])). entry_ok fs' e"
    using e1 e2 by (simp add: add)
  have "concat (map (file_lines fs') hs) = concat (map (file_lines fs) hs)"
    by (intro arg_cong [of _ _ concat] map_cong) (simp_all add: file_lines_def same)
  moreover have "file_lines fs' ?h = ls @ ns"
    using at lines_of_join_id [OF all] by (simp add: file_lines_def)
  ultimately show "concat (map (file_lines fs') (add_lines (int (length ns)) z (hs @ [h]))) =
     concat (map (file_lines fs) hs) @ ls @ ns" by (simp add: add)
qed

text \<open>The name of the file a round writes to.\<close>
definition round_name :: "(string \<Rightarrow> string) \<Rightarrow> logger \<Rightarrow> string" where
  "round_name fmt lg =
     (if lg_file_name lg = [] then fmt (file_pattern (lg_filePath lg) (lg_file_index lg)) else lg_file_name lg)"

definition fresh_file :: "logger \<Rightarrow> string \<Rightarrow> bool" where
  "fresh_file lg n = (n \<noteq> [] \<and> om_find (lg_files lg) n = None \<and> n \<notin> hi_file_name ` set (lg_history lg))"

text \<open>The history with the file of the round as its last entry.\<close>
definition round_history :: "(string \<Rightarrow> string) \<Rightarrow> logger \<Rightarrow> history_info list" where
  "round_history fmt lg =
     (if lg_file_name lg = []
      then lg_history lg @ [\<lparr> hi_file_name = round_name fmt lg, hi_line_count = 0, hi_file_size = 0 \<rparr>]
      else lg_history lg)"

lemma writer_round_eq:
  assumes "lg_messages lg \<noteq> []" "writable (round_name fmt lg)" "round_history fmt lg \<noteq> []"
  shows "\<exists>lg' z. writer_round fmt writable lg = Inr lg' \<and> lg_messages lg' = [] \<and>
     lg_files lg' = append_file (round_name fmt lg) (join_lines (map (lm_toString False) (lg_messages lg))) (lg_files lg) \<and>
     lg_history lg' = add_lines (int (length (lg_messages lg))) z (round_history fmt lg) \<and>
     (lg_file_name lg' = [] \<or> lg_file_name lg' = round_name fmt lg) \<and>
     lg_updates lg' = lg_updates lg @ map (\<lambda>s. (s, lg_messages lg)) (lg_subscribers lg)"
  using assms unfolding writer_round_def Let_def round_name_def round_history_def
  by (cases "lg_file_name lg = []") (simp_all add: messages_text, blast+)

lemma writer_round_ok:
  assumes ok: "history_ok lg" and ms: "lg_messages lg \<noteq> []" "\<forall>m \<in> set (lg_messages lg). one_line m"
    and w: "writable (round_name fmt lg)"
    and fresh: "lg_file_name lg = [] \<Longrightarrow> fresh_file lg (round_name fmt lg)"
  shows "\<exists>lg'. writer_round fmt writable lg = Inr lg' \<and> history_ok lg' \<and> lg_messages lg' = [] \<and>
     all_lines lg' = all_lines lg @ map (lm_toString False) (lg_messages lg)"
proof -
  let ?ns = "map (lm_toString False) (lg_messages lg)"
  have new: "\<forall>l \<in> set ?ns. CHR 0x0A \<notin> set l" "?ns \<noteq> []" using ms by (auto simp: one_line_def)
  have fs: "om_ok (lg_files lg)" using ok by (simp add: history_ok_def)
  have "\<exists>hs h ls. round_history fmt lg = hs @ [h] \<and> hi_file_name h = round_name fmt lg \<and> hi_file_name h \<noteq> [] \<and>
      (case om_find (lg_files lg) (hi_file_name h) of None \<Rightarrow> [] | Some c \<Rightarrow> c) = join_lines ls \<and>
      (\<forall>l \<in> set ls. CHR 0x0A \<notin> set l) \<and> hi_line_count h = int (length ls) \<and>
      (\<forall>e \<in> set hs. entry_ok (lg_files lg) e) \<and> distinct (map hi_file_name (hs @ [h])) \<and>
      all_lines lg = concat (map (file_lines (lg_files lg)) hs) @ ls"
  proof (cases "lg_file_name lg = []")
    case True
    then have f: "fresh_file lg (round_name fmt lg)" by (rule fresh)
    show ?thesis
      using True f ok
      by (intro exI [of _ "lg_history lg"] exI [of _ "\<lparr> hi_file_name = round_name fmt lg, hi_line_count = 0,
            hi_file_size = 0 \<rparr>"] exI [of _ "[]"])
        (auto simp: round_history_def fresh_file_def history_ok_def all_lines_def)
  next
    case False
    have ne: "lg_history lg \<noteq> []" and nm: "hi_file_name (last (lg_history lg)) = lg_file_name lg"
      using ok False by (simp_all add: history_ok_def)
    have H: "lg_history lg = butlast (lg_history lg) @ [last (lg_history lg)]" using ne by simp
    have "entry_ok (lg_files lg) (last (lg_history lg))" using ok ne by (simp add: history_ok_def)
    then obtain ls where ls: "hi_file_name (last (lg_history lg)) \<noteq> []"
      "om_find (lg_files lg) (hi_file_name (last (lg_history lg))) = Some (join_lines ls)"
      "\<forall>l \<in> set ls. CHR 0x0A \<notin> set l" "hi_line_count (last (lg_history lg)) = int (length ls)"
      "file_lines (lg_files lg) (last (lg_history lg)) = ls" by (rule entry_okE)
    have al: "all_lines lg = concat (map (file_lines (lg_files lg)) (butlast (lg_history lg))) @ ls"
      unfolding all_lines_def by (subst H) (simp add: ls(5))
    have d: "distinct (map hi_file_name (butlast (lg_history lg) @ [last (lg_history lg)]))"
      using ok H by (simp only: history_ok_def)
    have old: "\<forall>e \<in> set (butlast (lg_history lg)). entry_ok (lg_files lg) e"
      using ok by (auto simp: history_ok_def dest: in_set_butlastD)
    show ?thesis
      by (rule exI [of _ "butlast (lg_history lg)"], rule exI [of _ "last (lg_history lg)"], rule exI [of _ ls])
        (use False ls nm al d old H in \<open>auto simp: round_history_def round_name_def\<close>)
  qed
  then obtain hs h ls where h: "round_history fmt lg = hs @ [h]" "hi_file_name h = round_name fmt lg"
      "hi_file_name h \<noteq> []"
      "(case om_find (lg_files lg) (hi_file_name h) of None \<Rightarrow> [] | Some c \<Rightarrow> c) = join_lines ls"
      "\<forall>l \<in> set ls. CHR 0x0A \<notin> set l" "hi_line_count h = int (length ls)"
      "\<forall>e \<in> set hs. entry_ok (lg_files lg) e" "distinct (map hi_file_name (hs @ [h]))"
      "all_lines lg = concat (map (file_lines (lg_files lg)) hs) @ ls" by blast
  have "round_history fmt lg \<noteq> []" using h(1) by simp
  from writer_round_eq [of lg writable fmt, OF ms(1) w this] obtain lg' z where
    r: "writer_round fmt writable lg = Inr lg'" "lg_messages lg' = []"
      "lg_files lg' = append_file (round_name fmt lg) (join_lines ?ns) (lg_files lg)"
      "lg_history lg' = add_lines (int (length (lg_messages lg))) z (round_history fmt lg)"
      "lg_file_name lg' = [] \<or> lg_file_name lg' = round_name fmt lg" by blast
  note prem = fs h(8) h(7) h(3) h(4) h(5) h(6) new
  note a = append_last(1) [OF prem] append_last(2-4) [OF prem, where z = z]
  have files: "lg_files lg' = append_file (hi_file_name h) (join_lines ?ns) (lg_files lg)"
    using r(3) h(2) by simp
  have hist: "lg_history lg' = add_lines (int (length ?ns)) z (hs @ [h])" using r(4) h(1) by simp
  have names: "map hi_file_name (lg_history lg') = map hi_file_name (hs @ [h])" using a(3) hist by simp
  have last: "lg_history lg' \<noteq> [] \<and> hi_file_name (last (lg_history lg')) = hi_file_name h"
    unfolding hist by (simp add: add_lines_def)
  have "history_ok lg'"
    unfolding history_ok_def names unfolding files hist
    using a(1,2) h(8) last r(5) h(2) unfolding hist by metis
  moreover have "all_lines lg' = all_lines lg @ ?ns"
    unfolding all_lines_def [of lg'] files hist using a(4) h(9) by simp
  ultimately show ?thesis using r(1,2) by blast
qed

lemma history_ok_new: "history_ok new_logger"
  by (simp add: history_ok_def new_logger_def)

lemma total_lines_all: "\<forall>h \<in> set hs. entry_ok fs h \<Longrightarrow>
   total_lines hs = int (length (concat (map (file_lines fs) hs)))"
  by (induction hs) (auto simp: total_lines_def elim!: entry_okE)

end
