(* ===== verification/Time_Converter.thy ===== *)
theory Time_Converter
  imports Converter Mutex
begin

text \<open>
  The calendar and time-text routines of src/time_converter.cc.  The system clock, \<open>localtime\<close> and
  \<open>mktime\<close> are arguments.  A buffer filled by sprintf has 64 bytes: a longer text is undefined.
\<close>

record time_item =
  ti_year :: int
  ti_month :: int
  ti_dayOfWeek :: int
  ti_day :: int
  ti_hour :: int
  ti_minute :: int
  ti_sec :: int
  ti_msec :: int

definition new_time_item :: time_item where
  "new_time_item = \<lparr> ti_year = 0, ti_month = 0, ti_dayOfWeek = 0, ti_day = 0, ti_hour = 0,
     ti_minute = 0, ti_sec = 0, ti_msec = 0 \<rparr>"

section \<open>sprintf with a width\<close>

definition pad_spaces :: "nat \<Rightarrow> int \<Rightarrow> string" where
  "pad_spaces w v = replicate (w - length (show_int v)) (CHR '' '') @ show_int v"

text \<open>\<open>%0<w>d\<close>: the zeros come after the sign.\<close>
definition pad_zeros :: "nat \<Rightarrow> int \<Rightarrow> string" where
  "pad_zeros w v =
     (if v < 0 then CHR ''-'' # replicate (w - 1 - length (show_nat (nat (- v)))) (CHR ''0'') @ show_nat (nat (- v))
      else replicate (w - length (show_nat (nat v))) (CHR ''0'') @ show_nat (nat v))"

definition TMP_SIZE :: nat where "TMP_SIZE = 64"

definition sprintf_tmp :: "string \<Rightarrow> string res" where
  "sprintf_tmp s = (if length s < TMP_SIZE then Inr s else Inl Undefined)"

definition date_text :: "char \<Rightarrow> int \<Rightarrow> int \<Rightarrow> int \<Rightarrow> string" where
  "date_text sep y m d = pad_spaces 4 y @ sep # pad_zeros 2 m @ sep # pad_zeros 2 d"

definition clock_text :: "int \<Rightarrow> int \<Rightarrow> int \<Rightarrow> string" where
  "clock_text h m s = pad_zeros 2 h @ CHR '':'' # pad_zeros 2 m @ CHR '':'' # pad_zeros 2 s"

section \<open>Texts of a time\<close>

definition getCurrentTimeAsStr :: "platform \<Rightarrow> time_item \<Rightarrow> string res" where
  "getCurrentTimeAsStr p t =
     (case p of
        Windows \<Rightarrow> sprintf_tmp (date_text (CHR ''/'') (ti_year t) (ti_month t) (ti_day t) @ '' '' @
                     clock_text (ti_hour t) (ti_minute t) (ti_sec t) @ ''.'' @ pad_zeros 3 (ti_msec t))
      | Linux \<Rightarrow> sprintf_tmp (date_text (CHR ''-'') (ti_year t) (ti_month t) (ti_day t) @ '' '' @
                     clock_text (ti_hour t) (ti_minute t) (ti_sec t) @ ''.'' @ pad_zeros 3 (ti_msec t)))"

text \<open>The overload with a format takes \<open>days\<close> off the day of the month.\<close>
definition getCurrentTimeAsStr_format ::
  "platform \<Rightarrow> string \<Rightarrow> int \<Rightarrow> time_item \<Rightarrow> string res" where
  "getCurrentTimeAsStr_format p format days t =
     (case p of
        Linux \<Rightarrow> Inr []
      | Windows \<Rightarrow>
          (let date = date_text (CHR ''-'') (ti_year t) (ti_month t) (ti_day t - days);
               clock = clock_text (ti_hour t) (ti_minute t) (ti_sec t)
           in if format = ''yyyy-mm-dd hh:mm:ss'' then sprintf_tmp (date @ '' '' @ clock)
              else if format = ''yyyy-mm-dd 00:00:00'' then sprintf_tmp (date @ '' 00:00:00'')
              else if format = ''yyyy-MM-dd'' \<or> format = ''yyyy-mm-dd'' then sprintf_tmp date
              else if format = ''yyyyMMdd'' \<or> format = ''yyyymmdd'' then
                sprintf_tmp (pad_spaces 4 (ti_year t) @ pad_zeros 2 (ti_month t) @
                             pad_zeros 2 (ti_day t - days))
              else sprintf_tmp (date @ '' '' @ clock)))"

definition getTimeFromTimeStamp :: "platform \<Rightarrow> (int \<Rightarrow> time_item) \<Rightarrow> int \<Rightarrow> string res" where
  "getTimeFromTimeStamp p localtime timeStamp =
     (case p of
        Linux \<Rightarrow> Inr []
      | Windows \<Rightarrow>
          (let t = localtime timeStamp
           in sprintf_tmp (date_text (CHR ''/'') (ti_year t) (ti_month t) (ti_day t) @ '' '' @
                clock_text (ti_hour t) (ti_minute t) (ti_sec t))))"

definition getTimeFromTimeItem :: "time_item \<Rightarrow> string res" where
  "getTimeFromTimeItem t =
     sprintf_tmp (date_text (CHR ''/'') (ti_year t) (ti_month t) (ti_day t) @ '' '' @
       clock_text (ti_hour t) (ti_minute t) (ti_sec t))"

text \<open>Milliseconds from seconds and microseconds, computed in \<open>unsigned long long\<close> and returned as
  \<open>long long\<close>.\<close>
definition getCurrentTimeAsMilliseconds :: "int \<Rightarrow> int \<Rightarrow> int" where
  "getCurrentTimeAsMilliseconds tv_sec tv_usec =
     sint (word_of_int tv_sec * 1000 + (word_of_int tv_usec :: 64 word) div 1000)"

definition getCurrentTimeAsMicroseconds :: "int \<Rightarrow> int \<Rightarrow> int" where
  "getCurrentTimeAsMicroseconds tv_sec tv_usec =
     sint (word_of_int tv_sec * 1000000 + (word_of_int tv_usec :: 64 word))"

section \<open>Reading a time\<close>

text \<open>\<open>*pDate\<close>: the terminator is readable, what lies behind it is not.\<close>
definition cstr_at :: "string \<Rightarrow> nat \<Rightarrow> char res" where
  "cstr_at s i = (if i < length s then Inr (s ! i) else if i = length s then Inr (CHR 0x00) else Inl Undefined)"

fun cstr_read :: "string \<Rightarrow> nat list \<Rightarrow> string res" where
  "cstr_read s [] = Inr []"
| "cstr_read s (i # is) = bindR (cstr_at s i) (\<lambda>c. mapR ((#) c) (cstr_read s is))"

text \<open>A copied field as atoi sees it: up to the first zero byte.\<close>
definition field_value :: "string \<Rightarrow> int" where
  "field_value cs = atoi (takeWhile (\<lambda>c. c \<noteq> CHR 0x00) cs)"

text \<open>The \<open>tm\<close> given to mktime has the year less 1900 and the month less 1; here they are kept as
  written, and \<open>mktime\<close> takes the item.\<close>
definition read_time :: "string \<Rightarrow> time_item res" where
  "read_time str =
     bindR (cstr_read str [0, 1, 2, 3]) (\<lambda>y.
     bindR (cstr_read str [5, 6]) (\<lambda>m.
     bindR (cstr_read str [8, 9]) (\<lambda>d.
     bindR (cstr_read str [11, 12]) (\<lambda>h.
     bindR (cstr_read str [14, 15]) (\<lambda>mi.
     bindR (cstr_read str [17, 18]) (\<lambda>s.
     Inr (new_time_item\<lparr>ti_year := field_value y, ti_month := field_value m, ti_day := field_value d,
            ti_hour := field_value h, ti_minute := field_value mi, ti_sec := field_value s\<rparr>)))))))"

definition getTimeFromStringAsSeconds :: "platform \<Rightarrow> (time_item \<Rightarrow> int) \<Rightarrow> string \<Rightarrow> int res" where
  "getTimeFromStringAsSeconds p mktime str =
     mapR (\<lambda>t. case p of Windows \<Rightarrow> mktime t | Linux \<Rightarrow> 0) (read_time str)"

definition getTimeStampFromTimeItem :: "platform \<Rightarrow> (time_item \<Rightarrow> int) \<Rightarrow> time_item \<Rightarrow> int res" where
  "getTimeStampFromTimeItem p mktime t =
     bindR (getTimeFromTimeItem t) (getTimeFromStringAsSeconds p mktime)"

section \<open>Days of a month\<close>

definition month_days :: "int list" where
  "month_days = [31, 28, 31, 30, 31, 30, 31, 31, 30, 31, 30, 31]"

definition getDaysOfMonth :: "int \<Rightarrow> int \<Rightarrow> int" where
  "getDaysOfMonth year month =
     (if month \<le> 0 \<or> 12 < month then 0
      else if month = 2 then
        (if (year mod 4 = 0 \<and> year mod 100 \<noteq> 0) \<or> year mod 400 = 0 then 29 else 28)
      else month_days ! nat (month - 1))"

section \<open>Facts\<close>

lemma length_two: "length s = 2 \<Longrightarrow> s = [s ! 0, s ! 1]"
  by (cases s; cases "tl s") auto

lemma show_nat_step: "show_nat n = (if n < 10 then [digit_char n] else show_nat (n div 10) @ [digit_char (n mod 10)])"
  by (subst show_nat.simps) simp

lemma show_nat_1: "n < 10 \<Longrightarrow> show_nat n = [digit_char n]"
  by (simp add: show_nat_step [of n])

lemma show_nat_2: "10 \<le> n \<Longrightarrow> n < 100 \<Longrightarrow> show_nat n = [digit_char (n div 10), digit_char (n mod 10)]"
  by (simp add: show_nat_step [of n] show_nat_1)

lemma show_nat_3: "100 \<le> n \<Longrightarrow> n < 1000 \<Longrightarrow>
   show_nat n = [digit_char (n div 100), digit_char (n div 10 mod 10), digit_char (n mod 10)]"
  by (simp add: show_nat_step [of n] show_nat_2 div_mult2_eq [symmetric])

lemma show_nat_4: "1000 \<le> n \<Longrightarrow> n < 10000 \<Longrightarrow> show_nat n =
   [digit_char (n div 1000), digit_char (n div 100 mod 10), digit_char (n div 10 mod 10), digit_char (n mod 10)]"
  by (simp add: show_nat_step [of n] show_nat_3 div_mult2_eq [symmetric])

text \<open>A two-digit field and its value.\<close>
lemma pad2: "0 \<le> v \<Longrightarrow> v < 100 \<Longrightarrow> pad_zeros 2 v = [digit_char (nat v div 10), digit_char (nat v mod 10)]"
proof -
  assume v: "0 \<le> v" "v < 100"
  have "(of_char (CHR ''0'') :: nat) = 48" by simp
  then have "char_of (48 :: nat) = CHR ''0''" by (metis char_of_char)
  then have z: "CHR ''0'' = digit_char 0" by (simp add: digit_char_def)
  show ?thesis
  proof (cases "nat v < 10")
    case True
    then show ?thesis using v by (simp add: pad_zeros_def show_nat_1 z)
  next
    case False
    then show ?thesis using v by (simp add: pad_zeros_def show_nat_2)
  qed
qed

lemma digit_char_nonzero: "d < 10 \<Longrightarrow> digit_char d \<noteq> CHR 0x00"
proof
  assume "d < 10" "digit_char d = CHR 0x00"
  then have "(of_char (CHR 0x00) :: nat) = 48 + d" by (metis of_char_digit)
  then show False by simp
qed

lemma digits_value:
  "\<forall>d \<in> set ds. d < 10 \<Longrightarrow> ds \<noteq> [] \<Longrightarrow> int32 (int (read_digits 0 (map digit_char ds))) \<Longrightarrow>
   field_value (map digit_char ds) = int (read_digits 0 (map digit_char ds))"
proof -
  assume a: "\<forall>d \<in> set ds. d < 10" "ds \<noteq> []" "int32 (int (read_digits 0 (map digit_char ds)))"
  obtain d es where ds: "ds = d # es" using a(2) by (cases ds) auto
  have tw: "takeWhile (\<lambda>c. c \<noteq> CHR 0x00) (map digit_char ds) = map digit_char ds"
    using a(1) by (subst takeWhile_eq_all_conv) (auto simp: digit_char_nonzero)
  have "is_digit (digit_char d)" using a(1) ds by simp
  then have st: "strtol (map digit_char ds) = max long_min (min long_max (int (read_digits 0 (map digit_char ds))))"
    using ds by (simp add: strtol_def Let_def is_digit_facts)
  have mx: "max long_min (min long_max (int (read_digits 0 (map digit_char ds)))) =
      int (read_digits 0 (map digit_char ds))"
    using a(3) by (simp add: long_min_def long_max_def int32_def)
  show ?thesis
    unfolding field_value_def atoi_def tw st mx using a(3) by (rule wrap32_id)
qed

lemma field2: "0 \<le> v \<Longrightarrow> v < 100 \<Longrightarrow>
   field_value [digit_char (nat v div 10), digit_char (nat v mod 10)] = v"
  using digits_value [of "[nat v div 10, nat v mod 10]"] by (simp add: int32_def)

lemma year_digits: "1000 \<le> n \<Longrightarrow> n < 10000 \<Longrightarrow>
   ((n div 1000 * 10 + n div 100 mod 10) * 10 + n div 10 mod 10) * 10 + n mod 10 = (n :: nat)"
proof -
  have "n div 1000 = n div 10 div 10 div 10" "n div 100 = n div 10 div 10"
    by (simp_all add: div_mult2_eq [symmetric])
  then show ?thesis by (simp only: div_mult_mod_eq)
qed

lemma field4: "1000 \<le> v \<Longrightarrow> v < 10000 \<Longrightarrow> field_value (pad_spaces 4 v) = v"
proof -
  assume v: "1000 \<le> v" "v < 10000"
  let ?n = "nat v"
  have s: "pad_spaces 4 v = map digit_char [?n div 1000, ?n div 100 mod 10, ?n div 10 mod 10, ?n mod 10]"
    using v by (simp add: pad_spaces_def show_int_def show_nat_4)
  have r: "read_digits 0 (map digit_char [?n div 1000, ?n div 100 mod 10, ?n div 10 mod 10, ?n mod 10]) = ?n"
    using v year_digits [of ?n] by (simp add: algebra_simps)
  have "?n div 1000 < 10" using v by simp
  moreover have "int32 (int ?n)" using v by (simp add: int32_def)
  ultimately have "field_value (map digit_char [?n div 1000, ?n div 100 mod 10, ?n div 10 mod 10, ?n mod 10]) =
      int (read_digits 0 (map digit_char [?n div 1000, ?n div 100 mod 10, ?n div 10 mod 10, ?n mod 10]))"
    by (intro digits_value) (simp_all only: r, simp_all)
  then show ?thesis using v unfolding s r by simp
qed

lemma length_pad4: "1000 \<le> v \<Longrightarrow> v < 10000 \<Longrightarrow> length (pad_spaces 4 v) = 4"
  by (simp add: pad_spaces_def show_int_def show_nat_4)

lemma length_four: "length s = 4 \<Longrightarrow> \<exists>a b c d. s = [a, b, c, d]"
  by (auto simp: length_Suc_conv numeral_eq_Suc)

text \<open>The items whose text has the fixed layout.\<close>
definition four_digit_time :: "time_item \<Rightarrow> bool" where
  "four_digit_time t =
     (1000 \<le> ti_year t \<and> ti_year t < 10000 \<and> (\<forall>v \<in> {ti_month t, ti_day t, ti_hour t, ti_minute t, ti_sec t}.
        0 \<le> v \<and> v < 100))"

lemma read_time_text:
  assumes "four_digit_time t"
  shows "\<exists>s. getTimeFromTimeItem t = Inr s \<and>
     read_time s = Inr (new_time_item\<lparr>ti_year := ti_year t, ti_month := ti_month t, ti_day := ti_day t,
       ti_hour := ti_hour t, ti_minute := ti_minute t, ti_sec := ti_sec t\<rparr>)"
proof -
  let ?p = "\<lambda>v. [digit_char (nat v div 10), digit_char (nat v mod 10)]"
  let ?s = "date_text (CHR ''/'') (ti_year t) (ti_month t) (ti_day t) @ '' '' @
       clock_text (ti_hour t) (ti_minute t) (ti_sec t)"
  have r: "0 \<le> ti_month t" "ti_month t < 100" "0 \<le> ti_day t" "ti_day t < 100" "0 \<le> ti_hour t" "ti_hour t < 100"
    "0 \<le> ti_minute t" "ti_minute t < 100" "0 \<le> ti_sec t" "ti_sec t < 100" "1000 \<le> ti_year t" "ti_year t < 10000"
    using assms by (simp_all add: four_digit_time_def)
  obtain a b c d where y: "pad_spaces 4 (ti_year t) = [a, b, c, d]"
    using length_four [OF length_pad4 [OF r(11,12)]] by blast
  have s: "?s = [a, b, c, d] @ [CHR ''/''] @ ?p (ti_month t) @ [CHR ''/''] @ ?p (ti_day t) @ '' '' @
      ?p (ti_hour t) @ '':'' @ ?p (ti_minute t) @ '':'' @ ?p (ti_sec t)"
    using r by (simp add: date_text_def clock_text_def pad2 y)
  have "length ?s = 19" unfolding s by simp
  then have t: "getTimeFromTimeItem t = Inr ?s"
    by (simp only: getTimeFromTimeItem_def sprintf_tmp_def TMP_SIZE_def) simp
  have fy: "field_value [a, b, c, d] = ti_year t" using field4 [OF r(11,12)] y by simp
  have "read_time ?s = Inr (new_time_item\<lparr>ti_year := ti_year t, ti_month := ti_month t, ti_day := ti_day t,
       ti_hour := ti_hour t, ti_minute := ti_minute t, ti_sec := ti_sec t\<rparr>)"
    unfolding s using r by (simp add: read_time_def cstr_at_def fy field2)
  with t show ?thesis by blast
qed

lemma year_days_sum: "sum_list (map (getDaysOfMonth y) [1, 2, 3, 4, 5, 6, 7, 8, 9, 10, 11, 12]) =
   337 + getDaysOfMonth y 2"
  by (simp add: getDaysOfMonth_def month_days_def)

end
