(* ===== verification/Timer.thy ===== *)
theory Timer
  imports Mutex
begin

text \<open>
  The timer of src/timer.cc and the thread base class of src/thread.cc.  The timer's thread is a
  loop that reads the exit flag again and again: what it reads is a list of booleans, and a run that
  uses the list up is still going on.  Starting, stopping and leaving are steps on the timer's
  state; on Linux their bodies are empty.
\<close>

section \<open>The loop of the timer thread\<close>

datatype timer_event = OnTimer | Sleep_ms int

datatype timer_run = Ended | Running

text \<open>The inner loop: sleeps of at most ten milliseconds, the exit flag read after each.  The result: the
  events, the flags left, and None when the loop is over, else how the thread is.\<close>
fun timer_wait :: "int \<Rightarrow> bool list \<Rightarrow> timer_event list \<times> bool list \<times> timer_run option" where
  "timer_wait t [] =
     (if t \<le> 0 then ([], [], None) else ([Sleep_ms (if 10 < t then 10 else t)], [], Some Running))"
| "timer_wait t (f # fs) =
     (if t \<le> 0 then ([], f # fs, None)
      else
        (let e = Sleep_ms (if 10 < t then 10 else t)
         in if f then ([e], fs, Some Ended)
            else (case timer_wait (t - 10) fs of (es, r) \<Rightarrow> (e # es, r))))"

declare timer_wait.simps [simp del]

lemma timer_wait_flags: "length (fst (snd (timer_wait t flags))) \<le> length flags"
proof (induction flags arbitrary: t)
  case (Cons f fs)
  show ?case using Cons [of "t - 10"]
    by (cases "timer_wait (t - 10) fs") (auto simp: timer_wait.simps Let_def)
qed (simp add: timer_wait.simps)

lemma timer_wait_left: "timer_wait t flags = (es, fs, r) \<Longrightarrow> length fs \<le> length flags"
  using timer_wait_flags [of t flags] by simp

text \<open>The outer loop; \<open>parent\<close> says whether m_parent is not null.\<close>
function timer_execute :: "int \<Rightarrow> bool \<Rightarrow> bool list \<Rightarrow> timer_event list \<times> timer_run" where
  "timer_execute interval parent flags =
     (case flags of
        [] \<Rightarrow> ([], Running)
      | f # fs \<Rightarrow>
          if f then ([], Ended)
          else
            (let tick = (if parent then [OnTimer] else [])
             in case timer_wait interval fs of
                  (es, fs', r) \<Rightarrow>
                    (case r of
                       Some q \<Rightarrow> (tick @ es, q)
                     | None \<Rightarrow>
                         (case timer_execute interval parent fs' of
                            (es', q) \<Rightarrow> (tick @ es @ es', q)))))"
  by pat_completeness auto
termination
  by (relation "measure (\<lambda>(i, p, flags). length flags)")
    (auto simp: less_Suc_eq_le dest: timer_wait_left [OF sym])

declare timer_execute.simps [simp del]

section \<open>The timer object\<close>

datatype timer_state = TIMER_STATE_IDLE | TIMER_STATE_RUNNING | TIMER_STATE_STOPPED

record timer =
  tm_interval :: int
  tm_state :: timer_state
  tm_thread :: bool             \<comment> \<open>m_thread is not null\<close>
  tm_suspended :: nat           \<comment> \<open>the suspend count of the thread\<close>
  tm_exitFlag :: bool
  tm_timerId :: int

text \<open>The constructor takes the next value of the static counter.\<close>
definition new_timer :: "int \<Rightarrow> timer \<times> int" where
  "new_timer counter =
     (\<lparr> tm_interval = 1000, tm_state = TIMER_STATE_IDLE, tm_thread = False, tm_suspended = 0,
        tm_exitFlag = False, tm_timerId = counter \<rparr>, counter + 1)"

definition timer_setInterval :: "int \<Rightarrow> timer \<Rightarrow> timer" where
  "timer_setInterval millisecond tm = (if 0 \<le> millisecond then tm\<lparr>tm_interval := millisecond\<rparr> else tm)"

definition setTimerId :: "int \<Rightarrow> timer \<Rightarrow> timer" where
  "setTimerId timerId tm = tm\<lparr>tm_timerId := timerId\<rparr>"

text \<open>start: a resumed thread leaves the state STOPPED.\<close>
definition timer_start :: "platform \<Rightarrow> bool \<Rightarrow> timer \<Rightarrow> timer" where
  "timer_start p created tm =
     (case p of
        Linux \<Rightarrow> tm
      | Windows \<Rightarrow>
          (case tm_state tm of
             TIMER_STATE_IDLE \<Rightarrow>
               if created then tm\<lparr>tm_thread := True, tm_suspended := 0, tm_state := TIMER_STATE_RUNNING\<rparr>
               else tm\<lparr>tm_thread := False, tm_state := TIMER_STATE_IDLE\<rparr>
           | TIMER_STATE_STOPPED \<Rightarrow>
               if tm_thread tm then tm\<lparr>tm_suspended := tm_suspended tm - 1\<rparr> else tm
           | TIMER_STATE_RUNNING \<Rightarrow> tm))"

definition timer_stop :: "platform \<Rightarrow> bool \<Rightarrow> timer \<Rightarrow> timer" where
  "timer_stop p suspend_ok tm =
     (case p of
        Linux \<Rightarrow> tm
      | Windows \<Rightarrow>
          if tm_state tm = TIMER_STATE_RUNNING \<and> tm_thread tm \<and> suspend_ok
          then tm\<lparr>tm_suspended := tm_suspended tm + 1, tm_state := TIMER_STATE_STOPPED\<rparr>
          else tm)"

text \<open>One round of the loop of exit, which waits for the thread to set the state to IDLE.\<close>
definition exit_round :: "timer \<Rightarrow> timer" where
  "exit_round tm =
     (case tm_state tm of
        TIMER_STATE_RUNNING \<Rightarrow> tm\<lparr>tm_exitFlag := True\<rparr>
      | TIMER_STATE_STOPPED \<Rightarrow>
          (if tm_thread tm then tm\<lparr>tm_exitFlag := True, tm_suspended := tm_suspended tm - 1\<rparr>
           else tm\<lparr>tm_exitFlag := True\<rparr>)
      | TIMER_STATE_IDLE \<Rightarrow> tm)"

text \<open>The thread's last act, possible when it is not suspended and has seen the flag.\<close>
definition thread_end :: "timer \<Rightarrow> timer" where
  "thread_end tm =
     (if tm_thread tm \<and> tm_suspended tm = 0 \<and> tm_exitFlag tm then tm\<lparr>tm_state := TIMER_STATE_IDLE\<rparr> else tm)"

text \<open>exit as the rounds of its loop alternating with the thread, and the handle closed at the end;
  None: it is still waiting after \<open>n\<close> rounds.\<close>
fun timer_exit :: "nat \<Rightarrow> timer \<Rightarrow> timer option" where
  "timer_exit n tm =
     (if tm_state tm = TIMER_STATE_IDLE then Some (tm\<lparr>tm_thread := False\<rparr>)
      else case n of 0 \<Rightarrow> None | Suc k \<Rightarrow> timer_exit k (thread_end (exit_round tm)))"

declare timer_exit.simps [simp del]

text \<open>The whole exit: nothing to do when the timer is idle.\<close>
definition timer_exit_call :: "platform \<Rightarrow> nat \<Rightarrow> timer \<Rightarrow> timer option" where
  "timer_exit_call p n tm =
     (if tm_state tm = TIMER_STATE_IDLE then Some tm
      else case p of Linux \<Rightarrow> Some tm | Windows \<Rightarrow> timer_exit n tm)"

section \<open>IThread\<close>

datatype thread_state = THREAD_NONE | THREAD_RUNNING | THREAD_FINISHED

record thread =
  th_handle :: "nat option"
  th_exit_flag :: bool
  th_state :: "thread_state option"  \<comment> \<open>None: not initialised\<close>

definition new_thread :: thread where
  "new_thread = \<lparr> th_handle = None, th_exit_flag = False, th_state = None \<rparr>"

text \<open>start; on Linux a failed pthread_create is fatal (Inl).\<close>
definition thread_start :: "platform \<Rightarrow> nat option \<Rightarrow> thread \<Rightarrow> thread res" where
  "thread_start p created th =
     (case p of
        Windows \<Rightarrow> Inr (th\<lparr>th_exit_flag := False, th_handle := created\<rparr>)
      | Linux \<Rightarrow>
          (case created of
             Some h \<Rightarrow> Inr (th\<lparr>th_exit_flag := False, th_handle := Some h\<rparr>)
           | None \<Rightarrow> Inl (Throw ''pthread_create failure!!!'')))"

text \<open>The thread function up to execute.\<close>
definition ThreadHandler :: "thread \<Rightarrow> thread" where
  "ThreadHandler th = th\<lparr>th_state := Some THREAD_RUNNING\<rparr>"

definition thread_join :: "platform \<Rightarrow> bool \<Rightarrow> thread \<Rightarrow> thread res" where
  "thread_join p joined th =
     (case p of
        Windows \<Rightarrow> Inr th
      | Linux \<Rightarrow> if joined then Inr th else Inl (Throw ''pthread_join failure!!!''))"

definition thread_stop :: "platform \<Rightarrow> bool \<Rightarrow> thread \<Rightarrow> thread res" where
  "thread_stop p joined th = thread_join p joined (th\<lparr>th_exit_flag := True\<rparr>)"

section \<open>Facts\<close>

fun slept :: "timer_event list \<Rightarrow> int" where
  "slept [] = 0"
| "slept (OnTimer # es) = slept es"
| "slept (Sleep_ms t # es) = t + slept es"

lemma slept_append [simp]: "slept (es @ fs) = slept es + slept fs"
  by (induction es rule: slept.induct) auto

text \<open>A wait that is not interrupted sleeps for the interval, in steps of at most ten milliseconds.\<close>
lemma timer_wait_full:
  "timer_wait t flags = (es, fs, None) \<Longrightarrow> slept es = max 0 t \<and>
     (\<forall>e \<in> set es. \<exists>s. e = Sleep_ms s \<and> 0 < s \<and> s \<le> 10) \<and>
     flags = replicate (length es) False @ fs"
proof (induction flags arbitrary: t es)
  case Nil
  then show ?case by (auto simp: timer_wait.simps split: if_splits)
next
  case (Cons f gs)
  show ?case
  proof (cases "t \<le> 0")
    case True
    then show ?thesis using Cons.prems by (simp add: timer_wait.simps)
  next
    case False
    have nf: "\<not> f" using Cons.prems False by (auto simp: timer_wait.simps Let_def)
    obtain es' where w: "timer_wait (t - 10) gs = (es', fs, None)"
        "es = Sleep_ms (if 10 < t then 10 else t) # es'"
      using Cons.prems False nf by (cases "timer_wait (t - 10) gs") (auto simp: timer_wait.simps Let_def)
    from Cons.IH [OF w(1)] show ?thesis using False w(2) nf by auto
  qed
qed

text \<open>An interrupted wait sleeps at most one step after the flag is set.\<close>
lemma timer_wait_true: "0 < t \<Longrightarrow> \<exists>s. timer_wait t (True # fs) = ([Sleep_ms s], fs, Some Ended) \<and> 0 < s \<and> s \<le> 10"
  by (simp add: timer_wait.simps Let_def)

lemma timer_execute_exit: "timer_execute i p (True # fs) = ([], Ended)"
  by (subst timer_execute.simps) simp

lemma timer_execute_period:
  assumes "timer_wait i gs = (es, fs, None)"
  shows "timer_execute i True (False # gs) =
     (case timer_execute i True fs of (es', q) \<Rightarrow> (OnTimer # es @ es', q))"
  using assms by (subst timer_execute.simps) (simp add: Let_def split: prod.split)

text \<open>The events of a wait: no call of the handler, and a wait that is cut off is shorter or equal.\<close>
lemma timer_wait_part:
  "timer_wait t flags = (es, fs, Some q) \<Longrightarrow> 0 < t \<and> 0 \<le> slept es \<and> slept es \<le> t \<and>
     count_list es OnTimer = 0 \<and> (q = Ended \<longleftrightarrow> True \<in> set flags)"
proof (induction flags arbitrary: t es)
  case Nil
  then show ?case by (auto simp: timer_wait.simps split: if_splits)
next
  case (Cons f gs)
  have t: "0 < t" using Cons.prems by (auto simp: timer_wait.simps split: if_splits)
  show ?case
  proof (cases f)
    case True
    then show ?thesis using Cons.prems t by (auto simp: timer_wait.simps Let_def)
  next
    case False
    obtain es' where w: "timer_wait (t - 10) gs = (es', fs, Some q)"
        "es = Sleep_ms (if 10 < t then 10 else t) # es'"
      using Cons.prems t False by (cases "timer_wait (t - 10) gs") (auto simp: timer_wait.simps Let_def)
    from Cons.IH [OF w(1)] show ?thesis using t w(2) False by auto
  qed
qed

lemma timer_wait_ticks: "timer_wait t flags = (es, fs, None) \<Longrightarrow> count_list es OnTimer = 0"
  using timer_wait_full [of t flags es fs] by (auto simp: count_list_0_iff)

lemma timer_execute_run:
  "timer_execute i True flags = (es, q) \<Longrightarrow> 0 \<le> i \<Longrightarrow>
   (q = Ended \<longleftrightarrow> True \<in> set flags) \<and>
   (int (count_list es OnTimer) - 1) * i \<le> slept es \<and> slept es \<le> int (count_list es OnTimer) * i"
proof (induction i "True" flags arbitrary: es rule: timer_execute.induct)
  case (1 i flags)
  show ?case
  proof (cases flags)
    case Nil
    then show ?thesis using "1.prems" by (simp add: timer_execute.simps [of i])
  next
    case (Cons f gs)
    show ?thesis
    proof (cases f)
      case True
      then show ?thesis using "1.prems" Cons by (auto simp: timer_execute_exit)
    next
      case False
      obtain ws fs r where w: "timer_wait i gs = (ws, fs, r)" by (cases "timer_wait i gs") auto
      show ?thesis
      proof (cases r)
        case (Some x)
        then have "es = OnTimer # ws" "q = x"
          using "1.prems" Cons False w by (simp_all add: timer_execute.simps [of i])
        then show ?thesis using timer_wait_part [of i gs ws fs x] w Some Cons False by auto
      next
        case None
        obtain es' where e: "timer_execute i True fs = (es', q)" "es = OnTimer # ws @ es'"
          using "1.prems" timer_execute_period [of i gs ws fs] Cons False w None
          by (cases "timer_execute i True fs") auto
        have IH: "(q = Ended \<longleftrightarrow> True \<in> set fs) \<and>
            (int (count_list es' OnTimer) - 1) * i \<le> slept es' \<and> slept es' \<le> int (count_list es' OnTimer) * i"
          using "1.hyps" [OF Cons _ refl w [symmetric] refl None e(1) "1.prems"(2)] False by simp
        have f: "slept ws = i" "gs = replicate (length ws) False @ fs"
          using timer_wait_full [of i gs ws fs] w None "1.prems"(2) by auto
        have "True \<in> set flags \<longleftrightarrow> True \<in> set fs" using f(2) Cons False by auto
        then show ?thesis
          using IH f(1) e(2) timer_wait_ticks [of i gs ws fs] w None by (simp add: algebra_simps)
      qed
    qed
  qed
qed

definition timer_ok :: "timer \<Rightarrow> bool" where
  "timer_ok tm =
     (case tm_state tm of
        TIMER_STATE_IDLE \<Rightarrow> True
      | TIMER_STATE_RUNNING \<Rightarrow> tm_thread tm \<and> tm_suspended tm = 0
      | TIMER_STATE_STOPPED \<Rightarrow> tm_thread tm \<and> tm_suspended tm \<le> 1)"

lemma timer_ok_new: "timer_ok (fst (new_timer c))"
  by (simp add: new_timer_def timer_ok_def)

lemma timer_ok_start: "timer_ok tm \<Longrightarrow> timer_ok (timer_start p created tm)"
  by (cases "tm_state tm"; cases p) (auto simp: timer_start_def timer_ok_def)

lemma timer_ok_stop: "timer_ok tm \<Longrightarrow> timer_ok (timer_stop p s tm)"
  by (cases "tm_state tm"; cases p) (auto simp: timer_stop_def timer_ok_def)

lemma exit_one_round:
  "timer_ok tm \<Longrightarrow> tm_state tm \<noteq> TIMER_STATE_IDLE \<Longrightarrow>
   tm_state (thread_end (exit_round tm)) = TIMER_STATE_IDLE"
  by (cases "tm_state tm") (auto simp: timer_ok_def exit_round_def thread_end_def)

lemma timer_exit_ends: "timer_ok tm \<Longrightarrow> \<exists>tm'. timer_exit (Suc n) tm = Some tm' \<and> \<not> tm_thread tm' \<and>
    tm_state tm' = TIMER_STATE_IDLE"
proof (cases "tm_state tm = TIMER_STATE_IDLE")
  case True
  then show ?thesis by (simp add: timer_exit.simps [of "Suc n"])
next
  case False
  assume ok: "timer_ok tm"
  have "tm_state (thread_end (exit_round tm)) = TIMER_STATE_IDLE"
    by (rule exit_one_round [OF ok False])
  then show ?thesis using False
    by (simp add: timer_exit.simps [of "Suc n"] timer_exit.simps [of n])
qed

end
