(* ===== verification/Xml_Parser.thy ===== *)
theory Xml_Parser
  imports Object_Manager Mutex
begin

text \<open>
  The loader of the XML configuration (src/xml_parser.cc).  The document is what the parser of the
  XML library returns for a file: an element with its name, attributes, text content and child
  elements; the walk up to \<open>#document\<close> is the list of the names of the enclosing elements, the
  nearest first.  Where the source compares \<open>*a == *b\<close> on two pointers to text it compares first
  characters only.  The methods of user classes, reached through dispatchMsg, are arguments.
\<close>

datatype dom_element =
  Elem (de_name: string) (de_attrs: "(string \<times> string) list") (de_text: string) (de_children: "dom_element list")

definition getAttribute :: "string \<Rightarrow> dom_element \<Rightarrow> string" where
  "getAttribute k e = (case map_of (de_attrs e) k of None \<Rightarrow> [] | Some v \<Rightarrow> v)"

text \<open>The character a pointer to text refers to.\<close>
definition deref :: "string \<Rightarrow> char" where
  "deref s = (case s of [] \<Rightarrow> CHR 0x00 | c # _ \<Rightarrow> c)"

definition has_attr :: "string \<Rightarrow> dom_element \<Rightarrow> bool" where
  "has_attr k e = (deref (getAttribute k e) \<noteq> deref [])"

text \<open>The loop that puts the names of the enclosing elements in front.\<close>
fun path_loop :: "string list \<Rightarrow> string \<Rightarrow> string" where
  "path_loop [] path = path"
| "path_loop (p # ps) path = path_loop ps (''/'' @ p @ path)"

definition element_path :: "string list \<Rightarrow> string \<Rightarrow> string" where
  "element_path parents name = path_loop parents (''/'' @ name)"

section \<open>Data objects\<close>

definition new_io_data :: "'d \<Rightarrow> string \<Rightarrow> string \<Rightarrow> 'd any_data option" where
  "new_io_data zero dataType accessMode =
     (if dataType = ''I'' \<and> accessMode = ''RW'' then Some (RWI (ReadWriteInt (- (2 ^ 31)) (2 ^ 31 - 1)))
      else if dataType = ''D'' \<and> accessMode = ''RW'' then Some (RWD (ReadWriteDouble zero zero))
      else if dataType = ''S'' \<and> accessMode = ''RW'' then Some (RWS (ReadWriteString []))
      else if dataType = ''I'' \<and> accessMode = ''R'' then Some (ROI (ReadOnlyInt 0))
      else if dataType = ''D'' \<and> accessMode = ''R'' then Some (ROD (ReadOnlyDouble zero zero))
      else if dataType = ''S'' \<and> accessMode = ''R'' then Some (ROS (ReadOnlyString []))
      else None)"

definition set_if :: "string \<Rightarrow> (string \<Rightarrow> untyped_data \<Rightarrow> untyped_data) \<Rightarrow> dom_element \<Rightarrow>
     'd any_data option \<Rightarrow> 'd any_data option" where
  "set_if k f e d = (if has_attr k e then map_option (on_ud (f (getAttribute k e))) d else d)"

definition io_attributes :: "dom_element \<Rightarrow> 'd any_data option \<Rightarrow> 'd any_data option" where
  "io_attributes e d =
     set_if ''description'' setDescription e
    (set_if ''wparam'' setSecondParamValue e
    (set_if ''lparam'' setFirstParamValue e
    (set_if ''Ch'' (\<lambda>s. setChannelNumber (atoi s)) e
    (set_if ''Bd'' (\<lambda>s. setNodeNumber (atoi s)) e d))))"

type_synonym 'd data_dispatch = "'d any_data \<Rightarrow> string \<Rightarrow> string \<Rightarrow> 'd any_data res"

text \<open>The loop over the child elements; a method of a null object is a null dereference.\<close>
fun io_children ::
  "'d data_dispatch \<Rightarrow> dom_element list \<Rightarrow> int \<Rightarrow> int \<Rightarrow> 'd any_data option \<Rightarrow>
     (int \<times> int \<times> 'd any_data option) res" where
  "io_children dispatch [] nodeNumber channelNumber d = Inr (nodeNumber, channelNumber, d)"
| "io_children dispatch (c # cs) nodeNumber channelNumber d =
     (if deref (de_name c) = deref ''Bd'' then
        io_children dispatch cs (atoi (de_text c)) channelNumber d
      else if deref (de_name c) = deref ''Ch'' then
        io_children dispatch cs nodeNumber (atoi (de_text c)) d
      else if deref (getAttribute ''type'' c) = deref ''method'' then
        (case d of
           None \<Rightarrow> Inl Null_Deref
         | Some a \<Rightarrow> bindR (dispatch a (de_name c) (de_text c))
                      (\<lambda>a'. io_children dispatch cs nodeNumber channelNumber (Some a')))
      else io_children dispatch cs nodeNumber channelNumber d)"

record 'd xml_state =
  xs_mgr :: "'d manager"
  xs_next :: nat                 \<comment> \<open>the address of the next object\<close>

text \<open>The object of one element, up to its registration.\<close>
definition io_object ::
  "'d data_dispatch \<Rightarrow> 'd \<Rightarrow> string list \<Rightarrow> dom_element \<Rightarrow> 'd any_data res" where
  "io_object dispatch zero parents e =
     (let path = element_path parents (de_name e);
          d0 = io_attributes e (new_io_data zero (getAttribute ''dataType'' e) (getAttribute ''accessMode'' e))
      in bindR (io_children dispatch (de_children e) 0 0 d0) (\<lambda>(nodeNumber, channelNumber, d).
         case d of
           None \<Rightarrow> Inl Null_Deref
         | Some a \<Rightarrow>
             if nodeNumber = 0 \<and> channelNumber = 0 \<and>
                ud_nodeNumber (the_ud a) = 0 \<and> ud_channelNumber (the_ud a) = 0 then
               Inl (Throw (''object '' @ quoted path @
                 '' register failed because node number must not be set to 0!''))
             else if \<not> (nodeNumber = 0 \<and> channelNumber = 0) then
               Inr (on_ud (\<lambda>u. setChannelNumber channelNumber (setNodeNumber nodeNumber u)) a)
             else Inr a))"

definition load_io_object ::
  "'d data_dispatch \<Rightarrow> 'd \<Rightarrow> string list \<Rightarrow> dom_element \<Rightarrow> 'd xml_state \<Rightarrow> 'd xml_state res" where
  "load_io_object dispatch zero parents e st =
     (if has_attr ''dataType'' e \<and> has_attr ''accessMode'' e then
        bindR (io_object dispatch zero parents e) (\<lambda>a.
        let m = xs_mgr st; oid = xs_next st
        in mapR (\<lambda>m'. \<lparr> xs_mgr = m', xs_next = oid + 1 \<rparr>)
             (registerData (Some oid) (element_path parents (de_name e))
               (m\<lparr>om_data_store := om_put oid a (om_data_store m)\<rparr>)))
      else Inr st)"

text \<open>LoadIO: the element's own object, then every child that has children or attributes.\<close>
fun LoadIO ::
  "'d data_dispatch \<Rightarrow> 'd \<Rightarrow> string list \<Rightarrow> dom_element \<Rightarrow> 'd xml_state \<Rightarrow> 'd xml_state res"
and LoadIO_children ::
  "'d data_dispatch \<Rightarrow> 'd \<Rightarrow> string list \<Rightarrow> dom_element list \<Rightarrow> 'd xml_state \<Rightarrow> 'd xml_state res" where
  "LoadIO dispatch zero parents (Elem n as t cs) st =
     bindR (load_io_object dispatch zero parents (Elem n as t cs) st)
       (LoadIO_children dispatch zero (n # parents) cs)"
| "LoadIO_children dispatch zero parents [] st = Inr st"
| "LoadIO_children dispatch zero parents (c # cs) st =
     bindR (if de_children c \<noteq> [] \<or> de_attrs c \<noteq> [] then LoadIO dispatch zero parents c st else Inr st)
       (LoadIO_children dispatch zero parents cs)"

section \<open>Control objects\<close>

type_synonym 'd ctrl_dispatch = "nat \<Rightarrow> string \<Rightarrow> string \<Rightarrow> 'd xml_state \<Rightarrow> 'd xml_state res"

fun ctrl_children ::
  "'d ctrl_dispatch \<Rightarrow> object_ref option \<Rightarrow> dom_element list \<Rightarrow> 'd xml_state \<Rightarrow> 'd xml_state res" where
  "ctrl_children dispatch obj [] st = Inr st"
| "ctrl_children dispatch obj (c # cs) st =
     (if deref (getAttribute ''type'' c) = deref ''method'' then
        (case obj of
           Some (CtrlRef i) \<Rightarrow> bindR (dispatch i (de_name c) (de_text c) st) (ctrl_children dispatch obj cs)
         | _ \<Rightarrow> Inl Null_Deref)
      else ctrl_children dispatch obj cs st)"

definition load_ctrl_object ::
  "'d ctrl_dispatch \<Rightarrow> (string \<times> ctrl_object option) list \<Rightarrow> string list \<Rightarrow> dom_element \<Rightarrow>
     'd xml_state \<Rightarrow> 'd xml_state res" where
  "load_ctrl_object dispatch classes parents e st =
     (if has_attr ''type'' e \<and> deref (getAttribute ''type'' e) = deref ''instance'' then
        (let path = element_path parents (de_name e)
         in bindR (registerByClass classes (xs_next st) (getAttribute ''class'' e) path (xs_mgr st)) (\<lambda>m.
            ctrl_children dispatch (getObject path m) (de_children e)
              \<lparr> xs_mgr = m, xs_next = xs_next st + 1 \<rparr>))
      else Inr st)"

fun LoadControlObject ::
  "'d ctrl_dispatch \<Rightarrow> (string \<times> ctrl_object option) list \<Rightarrow> string list \<Rightarrow> dom_element \<Rightarrow>
     'd xml_state \<Rightarrow> 'd xml_state res"
and LoadControl_children ::
  "'d ctrl_dispatch \<Rightarrow> (string \<times> ctrl_object option) list \<Rightarrow> string list \<Rightarrow> dom_element list \<Rightarrow>
     'd xml_state \<Rightarrow> 'd xml_state res" where
  "LoadControlObject dispatch classes parents (Elem n as t cs) st =
     bindR (load_ctrl_object dispatch classes parents (Elem n as t cs) st)
       (LoadControl_children dispatch classes (n # parents) cs)"
| "LoadControl_children dispatch classes parents [] st = Inr st"
| "LoadControl_children dispatch classes parents (c # cs) st =
     bindR (LoadControlObject dispatch classes parents c st)
       (LoadControl_children dispatch classes parents cs)"

section \<open>Files\<close>

text \<open>What the XML library makes of a file: an exception of its own, no document, a document without
  a root element, or the root.\<close>
datatype parse_result = Parse_Exception | No_Document | No_Root | Root dom_element

text \<open>The branch for Windows is guarded by a misspelt macro, so that the path stays empty there.\<close>
definition xml_file_path :: "platform \<Rightarrow> string \<Rightarrow> string \<Rightarrow> string" where
  "xml_file_path p configPath fileName =
     (if last configPath = CHR 92 \<or> last configPath = CHR ''/'' then configPath @ fileName
      else case p of Linux \<Rightarrow> configPath @ ''/'' @ fileName | Windows \<Rightarrow> [])"

definition loadXmlFile ::
  "platform \<Rightarrow> (string \<Rightarrow> parse_result) \<Rightarrow> string \<Rightarrow> string \<Rightarrow> dom_element option res" where
  "loadXmlFile p parse configPath fileName =
     (if configPath = [] then Inr None
      else case parse (xml_file_path p configPath fileName) of
             Parse_Exception \<Rightarrow> Inr None
           | No_Document \<Rightarrow> Inl (Throw (''Load config file '' @ xml_file_path p configPath fileName @ '' failure''))
           | No_Root \<Rightarrow> Inr None
           | Root e \<Rightarrow> Inr (Some e))"

definition loadXmlConfig ::
  "platform \<Rightarrow> (string \<Rightarrow> parse_result) \<Rightarrow> 'd data_dispatch \<Rightarrow> 'd ctrl_dispatch \<Rightarrow>
     (string \<times> ctrl_object option) list \<Rightarrow> 'd \<Rightarrow> string \<Rightarrow> 'd xml_state \<Rightarrow> 'd xml_state res" where
  "loadXmlConfig p parse dd cd classes zero configPath st =
     bindR (loadXmlFile p parse configPath ''io_config.xml'') (\<lambda>root.
     bindR (case root of None \<Rightarrow> Inr st | Some e \<Rightarrow> LoadIO dd zero [] e st) (\<lambda>st1.
     bindR (loadXmlFile p parse configPath ''control_config.xml'') (\<lambda>root2.
     case root2 of None \<Rightarrow> Inr st1 | Some e \<Rightarrow> LoadControlObject cd classes [] e st1)))"

section \<open>Facts\<close>

lemma element_path_eq: "element_path parents name = concat (map (\<lambda>p. ''/'' @ p) (rev parents)) @ ''/'' @ name"
proof -
  have "path_loop ps path = concat (map (\<lambda>p. ''/'' @ p) (rev ps)) @ path" for ps path
    by (induction ps arbitrary: path) simp_all
  then show ?thesis by (simp add: element_path_def)
qed

definition xml_ok :: "'d xml_state \<Rightarrow> bool" where
  "xml_ok st = manager_ok (xs_mgr st)"

lemma xml_ok_put: "xml_ok st \<Longrightarrow>
   manager_ok ((xs_mgr st)\<lparr>om_data_store := om_put oid a (om_data_store (xs_mgr st))\<rparr>)"
  by (auto simp: xml_ok_def manager_ok_def om_ok_put)

lemma xml_ok_load_io_object:
  "xml_ok st \<Longrightarrow> load_io_object dispatch zero parents e st = Inr st' \<Longrightarrow> xml_ok st'"
proof -
  assume a: "xml_ok st" "load_io_object dispatch zero parents e st = Inr st'"
  show ?thesis
  proof (cases "has_attr ''dataType'' e \<and> has_attr ''accessMode'' e")
    case True
    then obtain x m' where
      "registerData (Some (xs_next st)) (element_path parents (de_name e))
         ((xs_mgr st)\<lparr>om_data_store := om_put (xs_next st) x (om_data_store (xs_mgr st))\<rparr>) = Inr m'"
      "st' = \<lparr> xs_mgr = m', xs_next = xs_next st + 1 \<rparr>"
      using a(2) by (auto simp: load_io_object_def Let_def res_simps)
    then show ?thesis using manager_ok_registerData [OF xml_ok_put [OF a(1)]] by (simp add: xml_ok_def)
  next
    case False
    then have "load_io_object dispatch zero parents e st = Inr st"
      unfolding load_io_object_def by (simp only: if_False)
    then show ?thesis using a by simp
  qed
qed

lemma xml_ok_LoadIO:
  "xml_ok st \<Longrightarrow> LoadIO dispatch zero parents e st = Inr st' \<Longrightarrow> xml_ok st'"
  "xml_ok st \<Longrightarrow> LoadIO_children dispatch zero parents cs st = Inr st' \<Longrightarrow> xml_ok st'"
proof (induction dispatch zero parents e st and dispatch zero parents cs st arbitrary: st' and st'
    rule: LoadIO_LoadIO_children.induct)
  case (1 dispatch zero parents n as t cs st)
  obtain x where x: "load_io_object dispatch zero parents (Elem n as t cs) st = Inr x"
    "LoadIO_children dispatch zero (n # parents) cs x = Inr st'"
    using 1(3) by (auto simp: res_simps)
  show ?case using 1(1) [OF x(1) xml_ok_load_io_object [OF 1(2) x(1)] x(2)] .
next
  case (3 dispatch zero parents c cs st)
  then show ?case by (auto simp: res_simps split: if_splits)
qed simp

text \<open>An element whose data type or access mode is unknown makes the loader use a null pointer.\<close>
lemma set_if_None [simp]: "set_if k f e None = None"
  by (simp add: set_if_def)

lemma io_attributes_None [simp]: "io_attributes e None = None"
  by (simp add: io_attributes_def)

lemma io_children_None:
  "io_children dispatch cs nn cn None = Inl Null_Deref \<or>
   (\<exists>nn' cn'. io_children dispatch cs nn cn None = Inr (nn', cn', None))"
  by (induction cs arbitrary: nn cn) auto

lemma io_object_unknown:
  "new_io_data zero (getAttribute ''dataType'' e) (getAttribute ''accessMode'' e) = None \<Longrightarrow>
   io_object dispatch zero parents e = Inl Null_Deref"
  using io_children_None [of dispatch "de_children e" 0 0] by (auto simp: io_object_def Let_def)

text \<open>A leaf with its node and channel as attributes.\<close>
lemma io_object_leaf:
  assumes "new_io_data zero (getAttribute ''dataType'' e) (getAttribute ''accessMode'' e) = Some a"
    "de_children e = []" "has_attr ''Bd'' e" "has_attr ''Ch'' e"
    "atoi (getAttribute ''Bd'' e) \<noteq> 0"
  shows "\<exists>b. io_object dispatch zero parents e = Inr b \<and>
     ud_nodeNumber (the_ud b) = atoi (getAttribute ''Bd'' e) \<and>
     ud_channelNumber (the_ud b) = atoi (getAttribute ''Ch'' e)"
  using assms
  by (simp add: io_object_def Let_def io_attributes_def set_if_def option.map_comp setDescription_def
      setSecondParamValue_def setFirstParamValue_def setChannelNumber_def setNodeNumber_def)

end
