(* ===== verification/Protocol.thy ===== *)
theory Protocol
  imports Cmd_Target Std_Map
begin

text \<open>
  IProtocol (src/protocol.cc, src/protocol.h): the named frame formats, the encoding type, and the
  conversions between a frame and its text.  \<open>toBytes\<close> fills a caller's buffer of \<open>len\<close> bytes;
  its text is split with CmdTarget's split.
\<close>

datatype encoding_type = ProtocolTypeHex | ProtocolTypeAscii

text \<open>The field \<open>paramNum\<close> of a format is never read or written.\<close>
record protocol_format =
  pf_name :: string
  pf_format :: string
  pf_description :: string

record protocol =
  pr_formats :: "(string, protocol_format) omap"
  pr_encodingType :: encoding_type

definition new_protocol :: protocol where
  "new_protocol = \<lparr> pr_formats = [], pr_encodingType = ProtocolTypeHex \<rparr>"

definition addProtocolFormat :: "string \<Rightarrow> string \<Rightarrow> string \<Rightarrow> protocol \<Rightarrow> protocol" where
  "addProtocolFormat name format des p =
     (if name = [] then p
      else
        (let f = \<lparr> pf_name = name, pf_format = format, pf_description = des \<rparr>
         in case om_find (pr_formats p) name of
              Some old \<Rightarrow> p\<lparr>pr_formats := om_put name (old\<lparr>pf_name := name, pf_format := format,
                              pf_description := des\<rparr>) (pr_formats p)\<rparr>
            | None \<Rightarrow> p\<lparr>pr_formats := om_insert name f (pr_formats p)\<rparr>))"

definition getProtocolFormat :: "string \<Rightarrow> protocol \<Rightarrow> string" where
  "getProtocolFormat name p =
     (if name = [] then []
      else case om_find (pr_formats p) name of Some f \<Rightarrow> pf_format f | None \<Rightarrow> [])"

definition setEncodingType :: "string \<Rightarrow> protocol \<Rightarrow> protocol" where
  "setEncodingType type p =
     (if type = ''hex'' \<or> type = ''HEX'' then p\<lparr>pr_encodingType := ProtocolTypeHex\<rparr>
      else p\<lparr>pr_encodingType := ProtocolTypeAscii\<rparr>)"

definition getEncodingTypeAsString :: "protocol \<Rightarrow> string" where
  "getEncodingTypeAsString p =
     (case pr_encodingType p of ProtocolTypeHex \<Rightarrow> ''HEX'' | ProtocolTypeAscii \<Rightarrow> ''ASCII'')"

definition byte_of_text :: "string \<Rightarrow> 8 word" where
  "byte_of_text t = word_of_int (atoi t)"

text \<open>The number of bytes stored and the whole buffer after the call; a negative length makes the
  memset run out of the buffer.\<close>
definition toBytes :: "string \<Rightarrow> int \<Rightarrow> (int \<times> 8 word list) res" where
  "toBytes strProtocol len =
     (if len < 0 then Inl Undefined
      else mapR (\<lambda>charList.
             let num = min (length charList) (nat len)
             in (int num, map byte_of_text (take num charList) @ replicate (nat len - num) 0))
           (cmd_split strProtocol '' ''))"

fun toString_loop :: "8 word list \<Rightarrow> string" where
  "toString_loop [] = []"
| "toString_loop (b # bs) =
     [hex_digit (unat (b div 16)), hex_digit (unat (b mod 16))]
       @ (if bs \<noteq> [] then '' '' else []) @ toString_loop bs"

text \<open>\<open>buff\<close> None is a null pointer; a negative length runs no iteration.\<close>
definition toString :: "8 word list option \<Rightarrow> int \<Rightarrow> string res" where
  "toString buff len =
     (case buff of
        None \<Rightarrow> Inr []
      | Some b \<Rightarrow> if len \<le> 0 then Inr []
                  else if length b < nat len then Inl Undefined
                  else Inr (toString_loop (take (nat len) b)))"

section \<open>Facts\<close>

lemma format_overwrite:
  "old\<lparr>pf_name := n, pf_format := f, pf_description := d\<rparr> =
     \<lparr> pf_name = n, pf_format = f, pf_description = d \<rparr>"
  by (cases old) simp

lemma addProtocolFormat_put:
  "name \<noteq> [] \<Longrightarrow> pr_formats (addProtocolFormat name format des p) =
     om_put name \<lparr> pf_name = name, pf_format = format, pf_description = des \<rparr> (pr_formats p)"
  by (simp add: addProtocolFormat_def Let_def om_insert_def om_has_def format_overwrite split: option.split)

lemma addProtocolFormat_ok:
  "om_ok (pr_formats p) \<Longrightarrow> om_ok (pr_formats (addProtocolFormat name format des p))"
  by (cases "name = []") (simp_all add: addProtocolFormat_put om_ok_put, simp add: addProtocolFormat_def)

lemma getProtocolFormat_add:
  "om_ok (pr_formats p) \<Longrightarrow> getProtocolFormat n (addProtocolFormat name format des p) =
     (if n = name \<and> name \<noteq> [] then format else getProtocolFormat n p)"
proof (cases "name = []")
  case True
  then show ?thesis by (simp add: addProtocolFormat_def)
qed (auto simp: getProtocolFormat_def addProtocolFormat_put om_find_put)

lemma toString_loop_bytes: "toString_loop bs = bytes_loop bs"
  by (induction bs rule: bytes_loop.induct) simp_all

text \<open>Words separated by single spaces.\<close>
lemma space_loop:
  "fs \<noteq> [] \<Longrightarrow> \<forall>f \<in> set fs. f \<noteq> [] \<and> CHR '' '' \<notin> set f \<Longrightarrow>
   cmd_split_loop '' '' (join (CHR '' '') fs) = Inr (butlast fs, last fs) \<and>
   \<not> untrimmed (join (CHR '' '') fs)"
proof (induction fs rule: induct_list012)
  case (2 f)
  then have f: "CHR '' '' \<notin> set f" "f \<noteq> []" by simp_all
  then have "str_find f '' '' = None" by (simp add: str_simps)
  moreover have "hd f \<noteq> CHR '' ''" "last f \<noteq> CHR '' ''"
    using f by (metis hd_in_set, metis last_in_set)
  ultimately show ?case by (simp add: cmd_split_loop.simps [of "'' ''" f] untrimmed_def)
next
  case (3 f g fs)
  let ?r = "join (CHR '' '') (g # fs)"
  have IH: "cmd_split_loop '' '' ?r = Inr (butlast (g # fs), last (g # fs))" "\<not> untrimmed ?r"
    using "3.IH"(2) "3.prems" by auto
  have f: "CHR '' '' \<notin> set f" "f \<noteq> []" using "3.prems" by simp_all
  have ne: "?r \<noteq> []" using "3.prems"(2) by (cases fs) auto
  have "cmd_split_loop '' '' (f @ CHR '' '' # ?r) =
      mapR (\<lambda>(r, l). (f # r, l)) (cmd_split_loop '' '' ?r)"
    using f(1) trim_id [OF IH(2)]
    by (subst cmd_split_loop.simps) (simp add: str_find_single str_substr_def)
  moreover have "last (f @ CHR '' '' # ?r) = last ?r" using ne by simp
  moreover have "hd (f @ CHR '' '' # ?r) = hd f" using f(2) by simp
  moreover have "hd f \<noteq> CHR '' ''" using f by (metis hd_in_set)
  moreover have "last ?r \<noteq> CHR '' ''" using IH(2) ne by (auto simp: untrimmed_def)
  ultimately show ?case using IH(1) f(2) by (simp add: untrimmed_def)
qed simp

lemma space_split:
  assumes "fs \<noteq> []" "\<forall>f \<in> set fs. f \<noteq> [] \<and> CHR '' '' \<notin> set f"
  shows "cmd_split (join (CHR '' '') fs) '' '' = Inr fs"
proof -
  note l = space_loop [OF assms]
  have "join (CHR '' '') fs \<noteq> []" using assms by (cases fs rule: remdups_adj.cases) auto
  moreover have "last fs \<noteq> []" using assms by simp
  ultimately show ?thesis
    using l trim_id [of "join (CHR '' '') fs"] assms(1)
    by (simp add: cmd_split_def cmd_trim_def trim_def split: if_splits)
qed

lemma byte_of_show: "byte_of_text (show_int (uint (b :: 8 word))) = b"
proof -
  have "uint b < 256" using uint_lt2p [of b] by simp
  moreover have "0 \<le> uint b" by simp
  moreover have "(2 :: int) ^ 31 = 2147483648" by simp
  ultimately have "int32 (uint b)" unfolding int32_def by linarith
  then show ?thesis by (simp add: byte_of_text_def atoi_show_int)
qed

text \<open>Decimal bytes separated by spaces are read back.\<close>
lemma toBytes_decimal:
  assumes "bs \<noteq> []" "length bs \<le> nat len" "0 \<le> len"
  shows "toBytes (join (CHR '' '') (map (\<lambda>b. show_int (uint b)) bs)) len =
     Inr (int (length bs), bs @ replicate (nat len - length bs) 0)"
proof -
  have "cmd_split (join (CHR '' '') (map (\<lambda>b. show_int (uint b)) bs)) '' '' =
      Inr (map (\<lambda>b. show_int (uint b)) bs)"
    using assms(1) by (intro space_split) (auto simp: show_int_free)
  moreover have "map byte_of_text (map (\<lambda>b. show_int (uint b)) bs) = bs"
    by (simp add: byte_of_show o_def)
  ultimately show ?thesis using assms(2,3) by (simp add: toBytes_def min_def o_def byte_of_show Let_def)
qed

end
