(* ===== verification/Http.thy ===== *)
theory Http
  imports Std_Map Converter
begin

text \<open>
  The HTTP helpers: the reply side of src/http_request.cc and the client of src/http_client.cc.  The
  transfer library is the argument \<open>perform\<close>: for a url, the method options, the header lines and
  the posted data it gives the transfer code (0 is success), the response code and the bytes it
  delivers to the write callback.
\<close>

section \<open>Replies\<close>

definition new_HttpRequest :: "(string, string) omap" where
  "new_HttpRequest = om_insert ''Content-Type'' ''application/json;charset=utf-8'' []"

definition AddHeader :: "string \<Rightarrow> string \<Rightarrow> (string, string) omap \<Rightarrow> (string, string) omap" where
  "AddHeader key val h =
     (case om_find h key of None \<Rightarrow> om_insert key val h | Some _ \<Rightarrow> om_put key val h)"

text \<open>What goes out: the headers in order, the body and the code.\<close>
definition SendReply :: "string \<Rightarrow> int \<Rightarrow> (string, string) omap \<Rightarrow> (string \<times> string) list \<times> string \<times> int" where
  "SendReply data code h = (h, data, code)"

definition CreateResponse :: "string \<Rightarrow> int \<Rightarrow> string \<Rightarrow> string" where
  "CreateResponse content errorCode errorMessage =
     ''{'' @ [CHR 0x27] @ ''code'' @ [CHR 0x27] @ '':'' @ show_int errorCode @
     '','' @ [CHR 0x27] @ ''status'' @ [CHR 0x27] @ '':'' @ [CHR 0x27] @ errorMessage @ [CHR 0x27] @
     '','' @ [CHR 0x27] @ ''result'' @ [CHR 0x27] @ '':'' @ [CHR 0x27] @ content @ [CHR 0x27] @ ''}''"

section \<open>Client\<close>

record http_client =
  hc_headers :: "(string, string) omap"
  hc_response_body :: string
  hc_method :: string
  hc_connect_timeout :: int
  hc_fetch_timeout :: int
  hc_response_code :: int
  hc_curl_code :: int

definition SetHeader :: "string \<Rightarrow> string \<Rightarrow> http_client \<Rightarrow> http_client" where
  "SetHeader key val c =
     (case om_find (hc_headers c) key of
        None \<Rightarrow> c\<lparr>hc_headers := om_insert key val (hc_headers c)\<rparr>
      | Some _ \<Rightarrow> c\<lparr>hc_headers := om_put key val (hc_headers c)\<rparr>)"

definition new_HttpClient :: http_client where
  "new_HttpClient =
     SetHeader ''Content-Type'' ''application/json''
    (SetHeader ''Cache-Control'' ''no-cache''
    (SetHeader ''User-Agent'' ''ICK CORE 2.0''
    (SetHeader ''Accept-Language'' ''zh-cn''
    (SetHeader ''Accept'' ''*/*''
      \<lparr> hc_headers = [], hc_response_body = [], hc_method = ''POST'', hc_connect_timeout = 3000,
        hc_fetch_timeout = 3000, hc_response_code = 200, hc_curl_code = 0 \<rparr>))))"

definition SetMethod :: "string \<Rightarrow> http_client \<Rightarrow> http_client" where
  "SetMethod m c = (if m = ''GET'' \<or> m = ''POST'' then c\<lparr>hc_method := m\<rparr> else c)"

definition SetConnectTimeout :: "int \<Rightarrow> http_client \<Rightarrow> http_client" where
  "SetConnectTimeout t c = c\<lparr>hc_connect_timeout := t\<rparr>"

definition SetFetchTimeout :: "int \<Rightarrow> http_client \<Rightarrow> http_client" where
  "SetFetchTimeout t c = c\<lparr>hc_fetch_timeout := t\<rparr>"

text \<open>C's integer division truncates towards zero.\<close>
definition cdiv :: "int \<Rightarrow> int \<Rightarrow> int" where
  "cdiv a b = sgn a * sgn b * (\<bar>a\<bar> div \<bar>b\<bar>)"

text \<open>The options of one transfer.\<close>
record transfer =
  tr_url :: string
  tr_headers :: "string list"
  tr_httpget :: bool
  tr_post :: "string option"
  tr_connect_timeout :: int
  tr_timeout :: int

text \<open>The write callback appends the bytes and returns the number of elements.\<close>
definition OnWriteData :: "string option \<Rightarrow> nat \<Rightarrow> nat \<Rightarrow> string \<Rightarrow> string \<times> int" where
  "OnWriteData buffer elem nmemb body =
     (case buffer of None \<Rightarrow> (body, -1) | Some d \<Rightarrow> (body @ take (elem * nmemb) d, int nmemb))"

definition make_transfer :: "string \<Rightarrow> string \<Rightarrow> http_client \<Rightarrow> transfer" where
  "make_transfer url data c =
     \<lparr> tr_url = url, tr_headers = map (\<lambda>(k, v). k @ '':'' @ v) (hc_headers c),
       tr_httpget = (hc_method c = ''GET''),
       tr_post = (if hc_method c = ''POST'' then Some data else None),
       tr_connect_timeout = cdiv (hc_connect_timeout c) 1000,
       tr_timeout = cdiv (hc_fetch_timeout c) 1000 \<rparr>"

definition FetchUrl ::
  "bool \<Rightarrow> (transfer \<Rightarrow> int \<times> int \<times> string) \<Rightarrow> string \<Rightarrow> string \<Rightarrow> http_client \<Rightarrow> bool \<times> http_client" where
  "FetchUrl init_ok perform url data c =
     (if url = [] \<or> \<not> init_ok then (False, c)
      else
        (let c1 = (if hc_method c = ''POST'' then SetHeader ''Content-Length'' (show_nat (length data)) c else c)
         in case perform (make_transfer url data c1) of
              (res, code, body) \<Rightarrow>
                (let c2 = c1\<lparr>hc_response_body := hc_response_body c1 @ body,
                             hc_response_code := (if res \<noteq> 0 then res else code),
                             hc_curl_code := res\<rparr>
                 in (res = 0 \<and> hc_response_code c2 = 200, c2))))"

section \<open>Facts\<close>

lemma SetHeader_put: "hc_headers (SetHeader k v c) = om_put k v (hc_headers c)"
  by (simp add: SetHeader_def om_insert_def om_has_def split: option.split)

lemma SetHeader_find:
  "om_ok (hc_headers c) \<Longrightarrow> om_find (hc_headers (SetHeader k v c)) j =
     (if j = k then Some v else om_find (hc_headers c) j)"
  by (simp add: SetHeader_put om_find_put)

lemma SetHeader_rest [simp]:
  "hc_method (SetHeader k v c) = hc_method c" "hc_response_body (SetHeader k v c) = hc_response_body c"
  "hc_connect_timeout (SetHeader k v c) = hc_connect_timeout c"
  by (simp_all add: SetHeader_def split: option.split)

lemma AddHeader_find: "om_ok h \<Longrightarrow> om_find (AddHeader k v h) j = (if j = k then Some v else om_find h j)"
  by (simp add: AddHeader_def om_find_insert om_find_put split: option.split)

lemma FetchUrl_body:
  "url \<noteq> [] \<Longrightarrow> perform = (\<lambda>t. (0, 200, body)) \<Longrightarrow>
   FetchUrl True perform url data c = (True, (if hc_method c = ''POST''
      then SetHeader ''Content-Length'' (show_nat (length data)) c else c)
        \<lparr>hc_response_body := hc_response_body c @ body, hc_response_code := 200, hc_curl_code := 0\<rparr>)"
  by (simp add: FetchUrl_def Let_def)

end
