(* ===== verification/Frame_Data.thy ===== *)
theory Frame_Data
  imports Ick_Prelude "HOL-Library.Word"
begin

text \<open>
  IFrameData (src/frame_data.cc): the received and the sent frame with their lengths.  A pointer to a
  caller's bytes is None when it is null; copying more bytes than it holds is undefined.
\<close>

record frame_data =
  fd_recvFrame :: "8 word list option"
  fd_sendFrame :: "8 word list option"
  fd_recvLength :: int
  fd_sendLength :: int
  fd_description :: string
  fd_errorMsg :: string

definition new_frame_data :: frame_data where
  "new_frame_data = \<lparr> fd_recvFrame = None, fd_sendFrame = None, fd_recvLength = 0, fd_sendLength = 0,
     fd_description = [], fd_errorMsg = [] \<rparr>"

definition copy_frame :: "8 word list \<Rightarrow> int \<Rightarrow> 8 word list res" where
  "copy_frame frame len =
     (if len < 0 \<or> length frame < nat len then Inl Undefined else Inr (take (nat len) frame))"

definition setRecvFrame :: "8 word list option \<Rightarrow> int \<Rightarrow> frame_data \<Rightarrow> frame_data res" where
  "setRecvFrame frame len fd =
     (case frame of
        None \<Rightarrow> Inl (Throw ''frame null error!'')
      | Some f \<Rightarrow> mapR (\<lambda>b. fd\<lparr>fd_recvFrame := Some b, fd_recvLength := len\<rparr>) (copy_frame f len))"

text \<open>Clearing the sent frame leaves its length.\<close>
definition setSendFrame :: "8 word list option \<Rightarrow> int \<Rightarrow> frame_data \<Rightarrow> frame_data res" where
  "setSendFrame frame len fd =
     (case frame of
        None \<Rightarrow> Inr (fd\<lparr>fd_sendFrame := None\<rparr>)
      | Some f \<Rightarrow>
          if len = 0 then Inr (fd\<lparr>fd_sendFrame := None\<rparr>)
          else mapR (\<lambda>b. fd\<lparr>fd_sendFrame := Some b, fd_sendLength := len\<rparr>) (copy_frame f len))"

definition verifyFrameFormat :: "8 word list \<Rightarrow> int \<Rightarrow> bool" where
  "verifyFrameFormat frame len = True"

definition analysisFrame :: "8 word list \<Rightarrow> int \<Rightarrow> bool" where
  "analysisFrame frame len = True"

definition verifyFrameNext :: "8 word list \<Rightarrow> int \<Rightarrow> bool" where
  "verifyFrameNext frame len = False"

text \<open>The lengths the getters give are those of the frames they give.\<close>
definition frame_ok :: "frame_data \<Rightarrow> bool" where
  "frame_ok fd =
     (fd_recvLength fd = (case fd_recvFrame fd of None \<Rightarrow> 0 | Some f \<Rightarrow> int (length f)) \<and>
      fd_sendLength fd = (case fd_sendFrame fd of None \<Rightarrow> 0 | Some f \<Rightarrow> int (length f)))"

lemma copy_frame_length: "copy_frame f len = Inr b \<Longrightarrow> int (length b) = len"
  by (auto simp: copy_frame_def split: if_splits)

lemma frame_ok_new: "frame_ok new_frame_data"
  by (simp add: frame_ok_def new_frame_data_def)

lemma frame_ok_recv: "frame_ok fd \<Longrightarrow> setRecvFrame f len fd = Inr fd' \<Longrightarrow> frame_ok fd'"
  by (cases f) (auto simp: setRecvFrame_def frame_ok_def res_simps copy_frame_length)

lemma frame_ok_send:
  "frame_ok fd \<Longrightarrow> setSendFrame (Some f) len fd = Inr fd' \<Longrightarrow> len \<noteq> 0 \<Longrightarrow> frame_ok fd'"
  by (auto simp: setSendFrame_def frame_ok_def res_simps copy_frame_length)

end
