(* ===== verification/Remote_Logger.thy ===== *)
theory Remote_Logger
  imports Logger
begin

text \<open>
  The remote log of src/grpc_remote_service.cc and src/grpc_remote_client.cc: the subscriber that
  buffers what the writer hands it, the call RequestLogger, which streams the history and then the
  updates until its client cancels, and the client, which logs what it reads.  The stream itself is
  the list of the texts written; what other threads do while the call sleeps is a list of actions on
  the logger for each look at the cancellation.  The subscriber's mutex is taken and given back by
  every operation and is left out.
\<close>

section \<open>The subscriber\<close>

definition gs_update :: "logger_message list \<Rightarrow> logger_message list \<Rightarrow> logger_message list" where
  "gs_update logger_message_list buffer = buffer @ logger_message_list"

text \<open>The messages taken, and the buffer left.\<close>
definition getLoggerMessage :: "logger_message list \<Rightarrow> logger_message list \<times> logger_message list" where
  "getLoggerMessage buffer = (buffer, [])"

text \<open>The calls of update that a subscriber got between two states of the logger.\<close>
definition delivered :: "nat \<Rightarrow> logger \<Rightarrow> logger \<Rightarrow> logger_message list" where
  "delivered self lg lg' =
     concat (map snd (filter (\<lambda>u. fst u = self) (drop (length (lg_updates lg)) (lg_updates lg'))))"

section \<open>What other threads do\<close>

datatype logger_act =
    Log_Call string string logger_level logger_type
  | Writer_Round "string \<Rightarrow> string"

definition do_act :: "(string \<Rightarrow> bool) \<Rightarrow> logger_act \<Rightarrow> logger \<Rightarrow> logger" where
  "do_act writable a lg =
     (case a of
        Log_Call now message level type \<Rightarrow> log_at now message level type lg
      | Writer_Round fmt \<Rightarrow> (case writer_round fmt writable lg of Inr lg' \<Rightarrow> lg' | Inl e \<Rightarrow> lg))"

section \<open>The call\<close>

text \<open>The loop: each element is what one look reads, and what happens during the sleep after it.  The
  result says whether the client was seen to cancel; otherwise the loop is still running.\<close>
fun request_loop ::
  "(string \<Rightarrow> bool) \<Rightarrow> string \<Rightarrow> nat \<Rightarrow> (bool \<times> logger_act list) list \<Rightarrow> logger \<Rightarrow> logger_message list \<Rightarrow>
     string list \<Rightarrow> bool \<times> string list \<times> logger" where
  "request_loop writable now self [] lg buffer out = (False, out, lg)"
| "request_loop writable now self ((cancelled, acts) # looks) lg buffer out =
     (if cancelled then (True, out, Info now ''client is cancelled'' RecordAndPrint lg)
      else
        (case getLoggerMessage buffer of
           (messages, buffer') \<Rightarrow>
             (let lg' = fold (do_act writable) acts lg
              in request_loop writable now self looks lg' (gs_update (delivered self lg lg') buffer')
                   (out @ map (lm_toString False) messages))))"

definition RequestLogger ::
  "(string \<Rightarrow> bool) \<Rightarrow> string \<Rightarrow> nat \<Rightarrow> int \<Rightarrow> (bool \<times> logger_act list) list \<Rightarrow> logger \<Rightarrow>
     bool \<times> string list \<times> logger" where
  "RequestLogger writable now self count looks lg =
     (let lg1 = Info now (''receive logger request: count: '' @ show_int count) RecordAndPrint lg
      in case getHistoryLog now (Some []) count (Some self) lg1 of
           (data, lg2) \<Rightarrow>
             (case request_loop writable now self looks lg2 [] (case data of None \<Rightarrow> [] | Some d \<Rightarrow> d) of
                (done, out, lg3) \<Rightarrow>
                  (done, out, if done then cancelLoggerSubscriber (Some self) lg3 else lg3)))"

text \<open>The client: a response with an error ends the loop.\<close>
record logger_response =
  lr_error :: "(int \<times> string) option"
  lr_message :: string

fun client_read :: "string \<Rightarrow> logger_response list \<Rightarrow> logger \<Rightarrow> logger" where
  "client_read now [] lg = lg"
| "client_read now (r # rs) lg =
     (case lr_error r of
        Some (code, message) \<Rightarrow>
          Error now (''request logger error: '' @ show_int code @ '', '' @ message) RecordAndPrint lg
      | None \<Rightarrow> client_read now rs (Info now (lr_message r) RecordAndPrint lg))"

section \<open>Facts\<close>

text \<open>The messages are on one line each, and the file of the round can be written and is new when opened.\<close>
definition act_ok :: "(string \<Rightarrow> bool) \<Rightarrow> logger_act \<Rightarrow> logger \<Rightarrow> bool" where
  "act_ok writable a lg =
     (case a of
        Log_Call now message level type \<Rightarrow> one_line (new_logger_message now message [] level type)
      | Writer_Round fmt \<Rightarrow>
          writable (round_name fmt lg) \<and> (lg_file_name lg = [] \<longrightarrow> fresh_file lg (round_name fmt lg)))"

fun acts_ok :: "(string \<Rightarrow> bool) \<Rightarrow> logger_act list \<Rightarrow> logger \<Rightarrow> bool" where
  "acts_ok writable [] lg = True"
| "acts_ok writable (a # as) lg = (act_ok writable a lg \<and> acts_ok writable as (do_act writable a lg))"

text \<open>The state while the call runs.\<close>
definition streaming :: "nat \<Rightarrow> logger \<Rightarrow> bool" where
  "streaming self lg =
     (history_ok lg \<and> (\<forall>m \<in> set (lg_messages lg). one_line m) \<and> filter (\<lambda>s. s = self) (lg_subscribers lg) = [self])"

lemma delivered_trans:
  assumes "lg_updates b = lg_updates a @ us" "lg_updates c = lg_updates b @ vs"
  shows "delivered self a c = delivered self a b @ delivered self b c"
  using assms by (simp add: delivered_def)

lemma log_at_keeps:
  "lg_updates (log_at now m l t lg) = lg_updates lg" "lg_subscribers (log_at now m l t lg) = lg_subscribers lg"
  "lg_history (log_at now m l t lg) = lg_history lg" "lg_files (log_at now m l t lg) = lg_files lg"
  "lg_file_name (log_at now m l t lg) = lg_file_name lg" "all_lines (log_at now m l t lg) = all_lines lg"
  "history_ok (log_at now m l t lg) = history_ok lg"
  by (simp_all add: log_at_def Let_def all_lines_def history_ok_def)

lemma subscriber_update:
  "filter (\<lambda>s. s = self) ss = [self] \<Longrightarrow>
   concat (map snd (filter (\<lambda>u. fst u = self) (map (\<lambda>s. (s, ms)) ss))) = ms"
proof -
  assume a: "filter (\<lambda>s. s = self) ss = [self]"
  have "filter (\<lambda>u. fst u = self) (map (\<lambda>s. (s, ms)) ss) = map (\<lambda>s. (s, ms)) (filter (\<lambda>s. s = self) ss)"
    by (simp add: filter_map o_def)
  then show ?thesis using a by simp
qed

lemma writer_round_empty: "lg_messages lg = [] \<Longrightarrow> writer_round fmt writable lg = Inr lg"
  by (simp add: writer_round_def Let_def)

lemma act_streams:
  assumes s: "streaming self lg" and ok: "act_ok writable a lg"
  shows "streaming self (do_act writable a lg) \<and>
     (\<exists>us. lg_updates (do_act writable a lg) = lg_updates lg @ us) \<and>
     all_lines (do_act writable a lg) = all_lines lg @ map (lm_toString False) (delivered self lg (do_act writable a lg))"
proof (cases a)
  case (Log_Call now m l t)
  then have d: "do_act writable a lg = log_at now m l t lg" by (simp add: do_act_def)
  have "\<forall>x \<in> set (lg_messages (log_at now m l t lg)). one_line x"
    using s ok Log_Call by (auto simp: log_at_queue streaming_def act_ok_def)
  then show ?thesis using s unfolding d by (simp add: streaming_def log_at_keeps delivered_def)
next
  case (Writer_Round fmt)
  show ?thesis
  proof (cases "lg_messages lg = []")
    case True
    then show ?thesis using s Writer_Round by (simp add: do_act_def writer_round_empty delivered_def)
  next
    case False
    have p: "history_ok lg" "\<forall>m \<in> set (lg_messages lg). one_line m" "writable (round_name fmt lg)"
      "lg_file_name lg = [] \<Longrightarrow> fresh_file lg (round_name fmt lg)"
      using s ok Writer_Round by (simp_all add: streaming_def act_ok_def)
    obtain lg' where r: "writer_round fmt writable lg = Inr lg'" "history_ok lg'" "lg_messages lg' = []"
      "all_lines lg' = all_lines lg @ map (lm_toString False) (lg_messages lg)"
      using writer_round_ok [of lg writable fmt, OF p(1) False p(2,3,4)] by blast
    have "round_history fmt lg \<noteq> []" using p(1) by (auto simp: round_history_def history_ok_def)
    from writer_round_eq [of lg writable fmt, OF False p(3) this] r(1) have
      u: "lg_updates lg' = lg_updates lg @ map (\<lambda>s. (s, lg_messages lg)) (lg_subscribers lg)" by auto
    have "lg_subscribers lg' = lg_subscribers lg"
      using r(1) False by (auto simp: writer_round_def Let_def split: if_splits)
    moreover have "delivered self lg lg' = lg_messages lg"
      using s unfolding delivered_def u by (simp add: subscriber_update streaming_def)
    ultimately show ?thesis using s r u Writer_Round by (simp add: do_act_def streaming_def)
  qed
qed

lemma acts_stream:
  "streaming self lg \<Longrightarrow> acts_ok writable as lg \<Longrightarrow>
   streaming self (fold (do_act writable) as lg) \<and>
   (\<exists>us. lg_updates (fold (do_act writable) as lg) = lg_updates lg @ us) \<and>
   all_lines (fold (do_act writable) as lg) =
     all_lines lg @ map (lm_toString False) (delivered self lg (fold (do_act writable) as lg))"
proof (induction "as" arbitrary: lg)
  case Nil
  then show ?case by (simp add: delivered_def)
next
  case (Cons a as)
  let ?lg = "do_act writable a lg"
  have one: "streaming self ?lg \<and> (\<exists>us. lg_updates ?lg = lg_updates lg @ us) \<and>
     all_lines ?lg = all_lines lg @ map (lm_toString False) (delivered self lg ?lg)"
    using act_streams [OF Cons.prems(1)] Cons.prems(2) by simp
  then obtain us where us: "lg_updates ?lg = lg_updates lg @ us" by blast
  have IH: "streaming self (fold (do_act writable) as ?lg) \<and>
   (\<exists>us. lg_updates (fold (do_act writable) as ?lg) = lg_updates ?lg @ us) \<and>
   all_lines (fold (do_act writable) as ?lg) =
     all_lines ?lg @ map (lm_toString False) (delivered self ?lg (fold (do_act writable) as ?lg))"
    using Cons.IH [of ?lg] one Cons.prems(2) by simp
  then obtain vs where vs: "lg_updates (fold (do_act writable) as ?lg) = lg_updates ?lg @ vs" by blast
  then show ?case using one IH us delivered_trans [OF us vs, of self] by auto
qed

text \<open>The looks of a call that is not cancelled before the last one.\<close>
fun looks_ok :: "(string \<Rightarrow> bool) \<Rightarrow> logger_act list list \<Rightarrow> logger \<Rightarrow> bool" where
  "looks_ok writable [] lg = True"
| "looks_ok writable (as # ass) lg = (acts_ok writable as lg \<and> looks_ok writable ass (fold (do_act writable) as lg))"

lemma request_loop_streams:
  "streaming self lg \<Longrightarrow> looks_ok writable ass lg \<Longrightarrow>
   out @ map (lm_toString False) buffer = all_lines lg \<Longrightarrow>
   \<exists>lg'. request_loop writable now self (map (Pair False) ass @ [(False, []), (True, [])]) lg buffer out =
       (True, all_lines lg', Info now ''client is cancelled'' RecordAndPrint lg') \<and>
     lg' = fold (do_act writable) (concat ass) lg"
proof (induction ass arbitrary: lg buffer out)
  case Nil
  then show ?case by (simp add: getLoggerMessage_def)
next
  case (Cons as ass)
  let ?lg = "fold (do_act writable) as lg"
  have a: "streaming self ?lg" "all_lines ?lg = all_lines lg @ map (lm_toString False) (delivered self lg ?lg)"
    using acts_stream [OF Cons.prems(1)] Cons.prems(2) by simp_all
  have "looks_ok writable ass ?lg" using Cons.prems(2) by simp
  moreover have "(out @ map (lm_toString False) buffer) @ map (lm_toString False) (delivered self lg ?lg) = all_lines ?lg"
    using a(2) Cons.prems(3) by simp
  ultimately show ?case
    using Cons.IH [OF a(1), of "out @ map (lm_toString False) buffer" "delivered self lg ?lg"]
    by (simp add: getLoggerMessage_def gs_update_def Let_def)
qed

text \<open>A subscriber that is not registered gets nothing.\<close>
lemma act_no_subscriber:
  "self \<notin> set (lg_subscribers lg) \<Longrightarrow> self \<notin> set (lg_subscribers (do_act writable a lg)) \<and>
   (\<exists>us. lg_updates (do_act writable a lg) = lg_updates lg @ us \<and> self \<notin> fst ` set us)"
  by (cases a) (auto simp: do_act_def log_at_keeps writer_round_def Let_def split: if_splits sum.splits)

lemma acts_no_subscriber:
  "self \<notin> set (lg_subscribers lg) \<Longrightarrow> self \<notin> set (lg_subscribers (fold (do_act writable) as lg)) \<and>
   (\<exists>us. lg_updates (fold (do_act writable) as lg) = lg_updates lg @ us \<and> self \<notin> fst ` set us)"
proof (induction "as" arbitrary: lg)
  case (Cons a as)
  from act_no_subscriber [OF Cons.prems] obtain us where
    u: "lg_updates (do_act writable a lg) = lg_updates lg @ us" "self \<notin> fst ` set us"
      "self \<notin> set (lg_subscribers (do_act writable a lg))" by blast
  from Cons.IH [OF u(3)] u show ?case by auto
qed simp

lemma request_loop_silent:
  "self \<notin> set (lg_subscribers lg) \<Longrightarrow> fst (snd (request_loop writable now self looks lg [] out)) = out"
proof (induction looks arbitrary: lg)
  case (Cons look looks)
  obtain c as where l: "look = (c, as)" by force
  from acts_no_subscriber [OF Cons.prems, of writable "as"] obtain us where
    u: "lg_updates (fold (do_act writable) as lg) = lg_updates lg @ us" "self \<notin> fst ` set us"
      "self \<notin> set (lg_subscribers (fold (do_act writable) as lg))" by blast
  have "filter (\<lambda>u. fst u = self) us = []" using u(2) by (auto simp: filter_empty_conv)
  then have "delivered self lg (fold (do_act writable) as lg) = []" using u(1) by (simp add: delivered_def)
  then show ?case using Cons.IH [OF u(3)] l by (simp add: getLoggerMessage_def gs_update_def)
qed simp

lemma client_read_logs:
  "\<forall>t \<in> set ts. t \<noteq> [] \<Longrightarrow> lg_logLevel lg \<le> LV_INFO \<Longrightarrow>
   lg_messages (client_read now (map (\<lambda>t. \<lparr> lr_error = None, lr_message = t \<rparr>) ts) lg) =
     lg_messages lg @ map (\<lambda>t. new_logger_message now t [] LV_INFO RecordAndPrint) ts"
proof (induction ts arbitrary: lg)
  case (Cons t ts)
  have "lg_logLevel (Info now t RecordAndPrint lg) = lg_logLevel lg" by (simp add: Info_def log_at_def Let_def)
  then show ?case using Cons.IH [of "Info now t RecordAndPrint lg"] Cons.prems by (simp add: Info_def log_at_queue)
qed simp

end
