(* ===== verification/Http_Server.thy ===== *)
theory Http_Server
  imports Http
begin

text \<open>
  The HTTP server of src/http_server.cc, src/http_server_thread.cc and src/http_callback.cc: the table of
  callbacks by path, the threads that share the listening socket, and what becomes of a request.  A
  function object and its argument are one number.  What libevent does with a request is its
  documented behaviour: the callback set for the path, else the generic callback, else the answer 404.
  The outcomes of its calls are arguments; what is logged is
  left out.
\<close>

section \<open>State\<close>

text \<open>The generic callback of a thread's evhttp: none, the thread's default or the server's handler.\<close>
datatype generic_cb = No_Generic | Default_Generic | Server_Generic

record http_server_thread =
  ht_paths :: "string list"     \<comment> \<open>the paths with the server's handler\<close>
  ht_generic :: generic_cb
  ht_listeningSocket :: int
  ht_isRunning :: bool

record http_server =
  hs_host :: string
  hs_port :: int
  hs_threads :: "http_server_thread list"
  hs_callbacks :: "(string, nat) omap"
  hs_generic :: "nat option"
  hs_listeningSocket :: int
  hs_isRunning :: bool

definition new_HttpServerThread :: http_server_thread where
  "new_HttpServerThread = \<lparr> ht_paths = [], ht_generic = No_Generic, ht_listeningSocket = -1, ht_isRunning = False \<rparr>"

text \<open>Without an event base or an evhttp no thread is created.\<close>
definition new_HttpServer :: "bool \<Rightarrow> string \<Rightarrow> int \<Rightarrow> int \<Rightarrow> http_server" where
  "new_HttpServer created host port threadNum =
     \<lparr> hs_host = host, hs_port = port,
       hs_threads = (if created then replicate (nat threadNum) new_HttpServerThread else []),
       hs_callbacks = [], hs_generic = None, hs_listeningSocket = -1, hs_isRunning = False \<rparr>"

section \<open>Callbacks\<close>

definition SetCallback :: "string \<Rightarrow> nat \<Rightarrow> http_server \<Rightarrow> http_server" where
  "SetCallback path cb s =
     (if om_find (hs_callbacks s) path = None then
        s\<lparr>hs_callbacks := om_insert path cb (hs_callbacks s),
          hs_threads := map (\<lambda>t. t\<lparr>ht_paths := ht_paths t @ [path]\<rparr>) (hs_threads s)\<rparr>
      else s)"

definition SetGenericCallback :: "nat \<Rightarrow> http_server \<Rightarrow> http_server" where
  "SetGenericCallback cb s =
     (if hs_generic s = None then
        s\<lparr>hs_generic := Some cb, hs_threads := map (\<lambda>t. t\<lparr>ht_generic := Server_Generic\<rparr>) (hs_threads s)\<rparr>
      else s)"

definition SetListeningPort :: "int \<Rightarrow> http_server \<Rightarrow> http_server" where
  "SetListeningPort port s = s\<lparr>hs_port := port\<rparr>"

section \<open>Start and stop\<close>

text \<open>A thread that accepts sets its own generic callback, whatever was set before.\<close>
definition thread_Start :: "bool \<Rightarrow> int \<Rightarrow> http_server_thread \<Rightarrow> http_server_thread" where
  "thread_Start accepted listeningSocket t =
     (let t1 = t\<lparr>ht_listeningSocket := listeningSocket\<rparr>
      in if \<not> accepted then t1 else t1\<lparr>ht_generic := Default_Generic, ht_isRunning := True\<rparr>)"

definition thread_Stop :: "http_server_thread \<Rightarrow> http_server_thread" where
  "thread_Stop t = t\<lparr>ht_isRunning := False\<rparr>"

text \<open>\<open>bound\<close> is the descriptor of the bound socket, None when binding failed; \<open>accepted\<close> says which
  threads could accept.\<close>
definition server_Start :: "int option \<Rightarrow> bool list \<Rightarrow> http_server \<Rightarrow> http_server" where
  "server_Start bound accepted s =
     (if hs_isRunning s then s
      else case bound of
             None \<Rightarrow> s
           | Some fd \<Rightarrow>
               (let s1 = s\<lparr>hs_listeningSocket := fd\<rparr>
                in if fd = -1 then s1
                   else s1\<lparr>hs_threads := map2 (\<lambda>a t. thread_Start a fd t) accepted (hs_threads s1),
                           hs_isRunning := True\<rparr>))"

definition server_Stop :: "http_server \<Rightarrow> http_server" where
  "server_Stop s =
     (if \<not> hs_isRunning s then s
      else s\<lparr>hs_threads := map thread_Stop (hs_threads s), hs_isRunning := False\<rparr>)"

section \<open>A request\<close>

datatype http_outcome = Callback_Called nat | Default_Reply | Not_Found

text \<open>A path without a callback goes through the generic callback's pointer.\<close>
definition callbackHandler :: "http_server \<Rightarrow> string \<Rightarrow> http_outcome res" where
  "callbackHandler s path =
     (case om_find (hs_callbacks s) path of
        Some cb \<Rightarrow> Inr (Callback_Called cb)
      | None \<Rightarrow> (case hs_generic s of None \<Rightarrow> Inl Null_Deref | Some cb \<Rightarrow> Inr (Callback_Called cb)))"

text \<open>The reply of the default callback: headers in the order added, body and code.\<close>
definition defaultGenericCallback :: "(string \<times> string) list \<times> string \<times> int" where
  "defaultGenericCallback =
     (let body = ''{'' @ [CHR 0x27] @ ''status'' @ [CHR 0x27] @ '':'' @ [CHR 0x27] @ ''OK'' @ [CHR 0x27] @ ''}''
      in ([(''Content-Length'', show_nat (length body)), (''Content-Type'', ''application/json'')], body, 200))"

text \<open>A request that arrives at a running thread.\<close>
definition thread_request :: "http_server \<Rightarrow> http_server_thread \<Rightarrow> string \<Rightarrow> http_outcome res" where
  "thread_request s t path =
     (if path \<in> set (ht_paths t) then callbackHandler s path
      else case ht_generic t of
             No_Generic \<Rightarrow> Inr Not_Found
           | Default_Generic \<Rightarrow> Inr Default_Reply
           | Server_Generic \<Rightarrow> callbackHandler s path)"

section \<open>Facts\<close>

text \<open>The table and the threads agree; a thread that asks the server for every path has a generic callback
  to call.\<close>
definition server_ok :: "http_server \<Rightarrow> bool" where
  "server_ok s =
     (om_ok (hs_callbacks s) \<and>
      (\<forall>t \<in> set (hs_threads s). set (ht_paths t) = fst ` set (hs_callbacks s) \<and>
         (ht_generic t = Server_Generic \<longrightarrow> hs_generic s \<noteq> None)))"

lemma server_ok_new: "server_ok (new_HttpServer created host port n)"
  by (simp add: server_ok_def new_HttpServer_def new_HttpServerThread_def)

lemma server_ok_SetCallback: "server_ok s \<Longrightarrow> server_ok (SetCallback path cb s)"
  by (auto simp: server_ok_def SetCallback_def om_ok_insert set_om_insert_pairs om_has_def)

lemma server_ok_SetGenericCallback: "server_ok s \<Longrightarrow> server_ok (SetGenericCallback cb s)"
  by (auto simp: server_ok_def SetGenericCallback_def)

lemma server_ok_Start: "server_ok s \<Longrightarrow> server_ok (server_Start bound accepted s)"
proof -
  assume ok: "server_ok s"
  have t: "set (ht_paths (thread_Start a fd t)) = set (ht_paths t)"
    "ht_generic (thread_Start a fd t) = Server_Generic \<Longrightarrow> ht_generic t = Server_Generic" for a fd t
    by (auto simp: thread_Start_def Let_def split: if_splits)
  show ?thesis
  proof (cases "hs_isRunning s \<or> bound = None \<or> bound = Some (-1)")
    case True
    then show ?thesis using ok by (elim disjE) (simp_all add: server_ok_def server_Start_def)
  next
    case False
    then obtain fd where fd: "bound = Some fd" "fd \<noteq> -1" by auto
    have "set (ht_paths y) = fst ` set (hs_callbacks s) \<and> (ht_generic y = Server_Generic \<longrightarrow> hs_generic s \<noteq> None)"
      if "y \<in> set (map2 (\<lambda>a t. thread_Start a fd t) accepted (hs_threads s))" for y
    proof -
      from that obtain a x where y: "y = thread_Start a fd x" "(a, x) \<in> set (zip accepted (hs_threads s))" by auto
      have "x \<in> set (hs_threads s)" by (rule set_zip_rightD [OF y(2)])
      then show ?thesis using ok t [of a fd x] unfolding y(1) server_ok_def by metis
    qed
    then show ?thesis using ok False fd by (simp add: server_ok_def server_Start_def Let_def)
  qed
qed

lemma server_ok_Stop: "server_ok s \<Longrightarrow> server_ok (server_Stop s)"
  by (auto simp: server_ok_def server_Stop_def thread_Stop_def)

text \<open>No request makes a well-formed server go through a null pointer.\<close>
lemma request_defined:
  assumes "server_ok s" "t \<in> set (hs_threads s)"
  shows "thread_request s t path =
     (case om_find (hs_callbacks s) path of
        Some cb \<Rightarrow> Inr (Callback_Called cb)
      | None \<Rightarrow> (case ht_generic t of
                  No_Generic \<Rightarrow> Inr Not_Found
                | Default_Generic \<Rightarrow> Inr Default_Reply
                | Server_Generic \<Rightarrow> Inr (Callback_Called (the (hs_generic s)))))"
proof -
  have p: "path \<in> set (ht_paths t) \<longleftrightarrow> om_find (hs_callbacks s) path \<noteq> None"
    using assms om_has_iff [of "hs_callbacks s" path] by (simp add: server_ok_def om_has_def)
  have g: "ht_generic t = Server_Generic \<Longrightarrow> \<exists>cb. hs_generic s = Some cb"
    using assms by (auto simp: server_ok_def)
  show ?thesis
    using p g by (cases "om_find (hs_callbacks s) path"; cases "ht_generic t")
      (auto simp: thread_request_def callbackHandler_def)
qed

text \<open>The callback of a path is the one set first.\<close>
lemma SetCallback_find:
  "server_ok s \<Longrightarrow> om_find (hs_callbacks (SetCallback path cb s)) p =
     (if p = path \<and> om_find (hs_callbacks s) path = None then Some cb else om_find (hs_callbacks s) p)"
  by (auto simp: SetCallback_def om_find_insert server_ok_def)

lemma Start_threads:
  "\<not> hs_isRunning s \<Longrightarrow> fd \<noteq> -1 \<Longrightarrow> length accepted = length (hs_threads s) \<Longrightarrow> \<forall>a \<in> set accepted. a \<Longrightarrow>
   hs_isRunning (server_Start (Some fd) accepted s) \<and>
   hs_callbacks (server_Start (Some fd) accepted s) = hs_callbacks s \<and>
   hs_generic (server_Start (Some fd) accepted s) = hs_generic s \<and>
   (\<forall>t \<in> set (hs_threads (server_Start (Some fd) accepted s)).
      ht_isRunning t \<and> ht_generic t = Default_Generic \<and> ht_listeningSocket t = fd)"
proof -
  assume s: "\<not> hs_isRunning s" "fd \<noteq> -1" "\<forall>a \<in> set accepted. a"
  let ?ts = "map2 (\<lambda>a t. thread_Start a fd t) accepted (hs_threads s)"
  have "ht_isRunning y \<and> ht_generic y = Default_Generic \<and> ht_listeningSocket y = fd" if "y \<in> set ?ts" for y
  proof -
    from that obtain a x where y: "y = thread_Start a fd x" "(a, x) \<in> set (zip accepted (hs_threads s))" by auto
    have "a" using s(3) set_zip_leftD [OF y(2)] by blast
    then show ?thesis by (simp add: y(1) thread_Start_def Let_def)
  qed
  then show ?thesis using s(1,2) by (simp add: server_Start_def Let_def)
qed

end
