(* ===== verification/My_Sql.thy ===== *)
theory My_Sql
  imports Data_Base Converter
begin

text \<open>
  The connection of src/mysql_connection.cc, and the older one of src/MySqlConnection.cpp.  The connector is an argument: what connecting gives, and
  for a statement what running it gives, each row being the list of its columns' names and values in
  order.  A smart pointer that is empty is None, and using it is a null dereference.  The informative
  messages to the log are left out.
\<close>

record mysql_connection =
  my_host :: string
  my_user :: string
  my_pwd :: string
  my_db :: string
  my_port :: int
  my_unix_socket :: string
  my_client_flag :: int
  my_chartset :: string
  my_connection :: "nat option"
  my_rs :: "(string, string) omap list"
  my_errors :: "string list"          \<comment> \<open>what was logged as an error\<close>

definition new_MySqlConnection ::
  "string \<Rightarrow> string \<Rightarrow> string \<Rightarrow> string \<Rightarrow> int \<Rightarrow> string \<Rightarrow> int \<Rightarrow> mysql_connection" where
  "new_MySqlConnection host user pwd db port unix_socket client_flag =
     \<lparr> my_host = host, my_user = user, my_pwd = pwd, my_db = db, my_port = port, my_unix_socket = unix_socket,
       my_client_flag = client_flag, my_chartset = ''utf8'', my_connection = None, my_rs = [], my_errors = [] \<rparr>"

text \<open>What open hands to the driver.\<close>
definition open_options :: "mysql_connection \<Rightarrow> (string \<times> string) list" where
  "open_options c =
     [(''hostName'', ''tcp://'' @ my_host c @ '':'' @ show_int (my_port c)), (''userName'', my_user c),
      (''password'', my_pwd c), (''OPT_RECONNECT'', ''1''), (''OPT_CHARSET_NAME'', my_chartset c)]"

text \<open>The driver gives a connection (None: a null pointer, used before it is tested) or throws, and so may
  the choice of the schema, when the connection is there already.\<close>
definition my_open ::
  "((string \<times> string) list \<Rightarrow> string + nat option) \<Rightarrow> (nat \<Rightarrow> string \<Rightarrow> string option) \<Rightarrow> mysql_connection \<Rightarrow>
     mysql_connection res" where
  "my_open connect setSchema c =
     (case connect (open_options c) of
        Inl what \<Rightarrow> Inr (c\<lparr>my_errors := my_errors c @ [''sql exception: '' @ what]\<rparr>)
      | Inr None \<Rightarrow> Inl Null_Deref
      | Inr (Some k) \<Rightarrow>
          (case setSchema k (my_db c) of
             None \<Rightarrow> Inr (c\<lparr>my_connection := Some k\<rparr>)
           | Some what \<Rightarrow>
               Inr (c\<lparr>my_connection := Some k, my_errors := my_errors c @ [''sql exception: '' @ what]\<rparr>)))"

definition setCharset :: "string \<Rightarrow> mysql_connection \<Rightarrow> bool \<times> mysql_connection" where
  "setCharset chartset c = (True, c\<lparr>my_chartset := chartset\<rparr>)"

text \<open>A connection that was never opened does not count as closed.\<close>
definition my_isClosed :: "(nat \<Rightarrow> bool) \<Rightarrow> mysql_connection \<Rightarrow> bool" where
  "my_isClosed closed c = (case my_connection c of None \<Rightarrow> False | Some k \<Rightarrow> closed k)"

definition my_isValid :: "(nat \<Rightarrow> bool) \<Rightarrow> mysql_connection \<Rightarrow> bool" where
  "my_isValid valid c = (case my_connection c of None \<Rightarrow> False | Some k \<Rightarrow> valid k)"

text \<open>The columns of a row: insert keeps the value of the first column of a name.\<close>
fun read_row :: "(string \<times> string) list \<Rightarrow> (string, string) omap \<Rightarrow> (string, string) omap" where
  "read_row [] row_data = row_data"
| "read_row ((column_name, column_value) # cs) row_data = read_row cs (om_insert column_name column_value row_data)"

text \<open>What running a query gives: no statement object, an exception when some rows have been read, or all
  the rows and the count of rowsCount.\<close>
datatype query_outcome =
    No_Statement
  | Sql_Exception "(string \<times> string) list list" int string
  | Query_Rows "(string \<times> string) list list" int

definition my_executeQuery ::
  "(nat \<Rightarrow> string \<Rightarrow> query_outcome) \<Rightarrow> string \<Rightarrow> mysql_connection \<Rightarrow> (int \<times> mysql_connection) res" where
  "my_executeQuery run sql c =
     (case my_connection c of
        None \<Rightarrow> Inl Null_Deref
      | Some k \<Rightarrow>
          (case run k sql of
             No_Statement \<Rightarrow> Inr (0, c\<lparr>my_rs := [], my_errors := my_errors c @ [''stmt is null!!!'']\<rparr>)
           | Sql_Exception rows code what \<Rightarrow>
               Inr (-1, c\<lparr>my_rs := map (\<lambda>r. read_row r []) rows, my_errors := my_errors c @
                 [''executeQuery error: code: '' @ show_int code @ '', what(): '' @ what]\<rparr>)
           | Query_Rows rows n \<Rightarrow> Inr (n, c\<lparr>my_rs := map (\<lambda>r. read_row r []) rows\<rparr>)))"

datatype command_outcome = No_Command_Statement | Command_Exception int string | Command_Done

definition my_executeCommand ::
  "(nat \<Rightarrow> string \<Rightarrow> command_outcome) \<Rightarrow> string \<Rightarrow> mysql_connection \<Rightarrow> (bool \<times> mysql_connection) res" where
  "my_executeCommand run sql c =
     (case my_connection c of
        None \<Rightarrow> Inl Null_Deref
      | Some k \<Rightarrow>
          (case run k sql of
             No_Command_Statement \<Rightarrow> Inr (False, c\<lparr>my_errors := my_errors c @ [''stmt is null!!!'']\<rparr>)
           | Command_Exception code what \<Rightarrow>
               Inr (False, c\<lparr>my_errors := my_errors c @
                 [''executeCommand error: code: '' @ show_int code @ '', what(): '' @ what]\<rparr>)
           | Command_Done \<Rightarrow> Inr (True, c)))"

text \<open>A query as the database object sees it through its connection, whose records it copies.\<close>
definition mysql_query ::
  "(nat \<Rightarrow> mysql_connection) \<Rightarrow> (nat \<Rightarrow> string \<Rightarrow> query_outcome) \<Rightarrow> nat \<Rightarrow> string \<Rightarrow> int \<times> (string, string) omap list" where
  "mysql_query conns run i sql =
     (case my_executeQuery run sql (conns i) of Inl e \<Rightarrow> (0, []) | Inr (n, c) \<Rightarrow> (n, my_rs c))"

section \<open>The older connection\<close>

text \<open>The class of src/MySqlConnection.cpp, written for the C library of MySQL: a handle that is always there.
  What it prints is left out.\<close>
record old_connection =
  oc_host :: string
  oc_user :: string
  oc_pwd :: string
  oc_db :: string
  oc_port :: int
  oc_unix_socket :: string
  oc_client_flag :: int
  oc_rs :: "(string, string) omap list"
  oc_errors :: "string list"

definition new_old_connection ::
  "string \<Rightarrow> string \<Rightarrow> string \<Rightarrow> string \<Rightarrow> int \<Rightarrow> string \<Rightarrow> int \<Rightarrow> old_connection" where
  "new_old_connection host user pwd db port unix_socket client_flag =
     \<lparr> oc_host = host, oc_user = user, oc_pwd = pwd, oc_db = db, oc_port = port, oc_unix_socket = unix_socket,
       oc_client_flag = client_flag, oc_rs = [], oc_errors = [] \<rparr>"

text \<open>What open hands to mysql_real_connect, whose failure it only prints.\<close>
definition old_open :: "old_connection \<Rightarrow> string list \<times> int \<times> string \<times> int" where
  "old_open c =
     ([oc_host c, oc_user c, oc_pwd c, oc_db c], oc_port c, oc_unix_socket c, oc_client_flag c)"

text \<open>The result of mysql_query is tested for a negative value.\<close>
definition old_setCharset :: "(string \<Rightarrow> int) \<Rightarrow> string \<Rightarrow> bool" where
  "old_setCharset query chartset = (\<not> query (''set names '' @ [CHR 0x27] @ chartset @ [CHR 0x27]) < 0)"

definition old_isClosed :: "int \<Rightarrow> bool" where
  "old_isClosed ping = (ping \<noteq> 0)"

text \<open>What running a query gives: an error, no stored result, or the names of the fields and the rows, a NULL
  cell being None.\<close>
datatype old_outcome = Old_Failed int | Old_No_Result | Old_Rows "string list" "string option list list"

definition cell_text :: "string option \<Rightarrow> string" where
  "cell_text v = (case v of None \<Rightarrow> [] | Some s \<Rightarrow> s)"

text \<open>The count of the rows becomes an int.\<close>
definition old_executeQuery ::
  "(string \<Rightarrow> old_outcome) \<Rightarrow> string \<Rightarrow> old_connection \<Rightarrow> int \<times> old_connection" where
  "old_executeQuery run sql c =
     (case run sql of
        Old_Failed flag \<Rightarrow>
          (-1, c\<lparr>oc_rs := [], oc_errors := oc_errors c @
            [''executeQuery error: ret: -1, mysql error id: '' @ convertToString flag @ '', sql: '' @ sql]\<rparr>)
      | Old_No_Result \<Rightarrow> (0, c\<lparr>oc_rs := []\<rparr>)
      | Old_Rows names rows \<Rightarrow>
          (let ret = wrap32 (int (length rows));
               c1 = c\<lparr>oc_rs := map (\<lambda>r. read_row (zip names (map cell_text r)) []) rows\<rparr>
           in (ret, if ret < 0 then c1\<lparr>oc_errors := oc_errors c @ [''executeQuery error: sql: '' @ sql]\<rparr> else c1)))"

section \<open>Facts\<close>

lemma read_row_ok: "om_ok m \<Longrightarrow> om_ok (read_row r m)"
  by (induction r m rule: read_row.induct) (simp_all add: om_ok_insert)

lemma read_row_find:
  "om_ok m \<Longrightarrow> om_find (read_row r m) k = (case om_find m k of None \<Rightarrow> map_of r k | Some v \<Rightarrow> Some v)"
  by (induction r m rule: read_row.induct) (auto simp: om_ok_insert om_find_insert split: option.split)

text \<open>The record set has a map for each row, with the first column of each name.\<close>
definition records_of :: "(string, string) omap list \<Rightarrow> (string \<times> string) list list \<Rightarrow> bool" where
  "records_of rs rows = list_all2 (\<lambda>m row. \<forall>name. om_find m name = map_of row name) rs rows"

lemma my_open_failed:
  "my_open connect setSchema c = Inr c' \<Longrightarrow> connect (open_options c) = Inl what \<Longrightarrow> my_connection c' = my_connection c"
  by (auto simp: my_open_def)

lemma my_open_opened:
  "my_open connect setSchema c = Inr c' \<Longrightarrow> connect (open_options c) = Inr (Some k) \<Longrightarrow> my_connection c' = Some k"
  by (auto simp: my_open_def split: option.splits)

lemma records_read: "records_of (map (\<lambda>r. read_row r []) rows) rows"
  by (induction rows) (simp_all add: records_of_def read_row_find)

lemma mysql_query_rows:
  "my_connection (conns i) = Some k \<Longrightarrow> run k sql = Query_Rows rows n \<Longrightarrow>
   fst (mysql_query conns run i sql) = n \<and> records_of (snd (mysql_query conns run i sql)) rows"
  by (simp add: mysql_query_def my_executeQuery_def records_read)

lemma mysql_query_fails:
  "my_connection (conns i) = Some k \<Longrightarrow> run k sql = Sql_Exception rows code what \<Longrightarrow>
   fst (mysql_query conns run i sql) = -1 \<and> records_of (snd (mysql_query conns run i sql)) rows"
  by (simp add: mysql_query_def my_executeQuery_def records_read)

text \<open>The older class makes the records of the same rows.\<close>
lemma old_query_rows:
  "run sql = Old_Rows names rows \<Longrightarrow>
   records_of (oc_rs (snd (old_executeQuery run sql c))) (map (\<lambda>r. zip names (map cell_text r)) rows)"
  using records_read [of "map (\<lambda>r. zip names (map cell_text r)) rows"]
  by (simp add: old_executeQuery_def Let_def comp_def)

end
