(* ===== verification/Pool_Settings.thy ===== *)
theory Pool_Settings
  imports Connection_Pool Cmd_Target
begin

text \<open>
  The settings of a connection pool (src/connection_pool.cc) and the message table by which the XML
  configuration sets them: a control object is sent the name of a setter and its value as text, and
  dispatchMsg finds the setter in the tables of ConnectionPool and its bases.
\<close>

record pool_object =
  pj_pool :: pool                      \<comment> \<open>what the connections depend on\<close>
  pj_driverName :: string
  pj_rootPassword :: string
  pj_url :: string
  pj_dbName :: string
  pj_host :: string
  pj_port :: int
  pj_userName :: string
  pj_password :: string
  pj_charset :: string
  pj_unixSocket :: string
  pj_minConnections :: int
  pj_maxConnections :: int
  pj_connTimeOut :: int
  pj_connectionTimeOut :: int
  pj_isCurrentConnection :: bool
  pj_lazyCheck :: int
  pj_periodCheck :: int
  pj_isCheckPool :: bool
  pj_debug :: bool
  pj_simulated :: bool

text \<open>The constructor; \<open>g\<close> holds what the members it does not initialise happen to be.\<close>
definition new_ConnectionPool :: "pool_object \<Rightarrow> pool_object" where
  "new_ConnectionPool g =
     g\<lparr>pj_pool := (pj_pool g)\<lparr>po_free := [], po_active := [], po_countActive := 0, po_poolName := []\<rparr>,
       pj_driverName := [], pj_rootPassword := [], pj_url := [], pj_dbName := [], pj_host := [], pj_userName := [],
       pj_password := [], pj_charset := ''utf8'', pj_unixSocket := [], pj_debug := False, pj_simulated := False\<rparr>"

section \<open>The message tables\<close>

datatype pool_method =
    M_setDriverName | M_setDataBaseType | M_setRootPassword | M_setHost | M_setDbName | M_setPort
  | M_setUserName | M_setPassword | M_setCharset | M_setUnixSocket | M_setPoolName | M_setMinConnections
  | M_setMaxConnections | M_setMaxActiveConnections | M_setInitConnections | M_setConnTimeOut
  | M_setConnectionTimeOut | M_setCurrentConnection | M_setLazyCheckTime | M_setPeriodCheckTime
  | M_setPoolCheck | M_setDebug | M_setNotSimulated | M_setSimulated

definition entity :: "string \<Rightarrow> method_type \<Rightarrow> pool_method \<Rightarrow> pool_method msg_entity" where
  "entity name t f = \<lparr> m_msg = name, m_msgType = t, methodMap = f \<rparr>"

definition connection_pool_messages :: "pool_method msg_entity list" where
  "connection_pool_messages =
     [entity ''setDriverName'' METHOD_S M_setDriverName, entity ''setDataBaseType'' METHOD_S M_setDataBaseType,
      entity ''setRootPassword'' METHOD_S M_setRootPassword, entity ''setHost'' METHOD_S M_setHost,
      entity ''setDbName'' METHOD_S M_setDbName, entity ''setPort'' METHOD_I M_setPort,
      entity ''setUserName'' METHOD_S M_setUserName, entity ''setPassword'' METHOD_S M_setPassword,
      entity ''setCharset'' METHOD_S M_setCharset, entity ''setUnixSocket'' METHOD_S M_setUnixSocket,
      entity ''setPoolName'' METHOD_S M_setPoolName, entity ''setMinConnections'' METHOD_I M_setMinConnections,
      entity ''setMaxConnections'' METHOD_I M_setMaxConnections,
      entity ''setMaxActiveConnections'' METHOD_I M_setMaxActiveConnections,
      entity ''setInitConnections'' METHOD_I M_setInitConnections,
      entity ''setMaxActiveConnections'' METHOD_I M_setMaxActiveConnections,
      entity ''setConnTimeOut'' METHOD_I M_setConnTimeOut,
      entity ''setConnectionTimeOut'' METHOD_I M_setConnectionTimeOut,
      entity ''setCurrentConnection'' METHOD_B M_setCurrentConnection,
      entity ''setLazyCheckTime'' METHOD_I M_setLazyCheckTime,
      entity ''setPeriodCheckTime'' METHOD_I M_setPeriodCheckTime, entity ''setPoolCheck'' METHOD_B M_setPoolCheck,
      entity ''setDebug'' METHOD_B M_setDebug, entity [] METHOD_END M_setDebug]"

definition control_object_messages :: "pool_method msg_entity list" where
  "control_object_messages =
     [entity ''setNotSimulated'' METHOD_B M_setNotSimulated, entity [] METHOD_END M_setNotSimulated]"

definition cmd_target_messages :: "pool_method msg_entity list" where
  "cmd_target_messages =
     [entity ''setSimulated'' METHOD_B M_setSimulated, entity [] METHOD_END M_setSimulated]"

section \<open>The setters\<close>

definition pool_setDriverName :: "string \<Rightarrow> pool_object \<Rightarrow> pool_object" where
  "pool_setDriverName v o1 = o1\<lparr>pj_driverName := v\<rparr>"

definition pool_setRootPassword :: "string \<Rightarrow> pool_object \<Rightarrow> pool_object" where
  "pool_setRootPassword v o1 = o1\<lparr>pj_rootPassword := v\<rparr>"

definition pool_setUrl :: "string \<Rightarrow> pool_object \<Rightarrow> pool_object" where
  "pool_setUrl v o1 = o1\<lparr>pj_url := v\<rparr>"

definition pool_setDbName :: "string \<Rightarrow> pool_object \<Rightarrow> pool_object" where
  "pool_setDbName v o1 = o1\<lparr>pj_dbName := v\<rparr>"

definition pool_setHost :: "string \<Rightarrow> pool_object \<Rightarrow> pool_object" where
  "pool_setHost v o1 = o1\<lparr>pj_host := v\<rparr>"

definition pool_setPort :: "int \<Rightarrow> pool_object \<Rightarrow> pool_object" where
  "pool_setPort v o1 = o1\<lparr>pj_port := v\<rparr>"

definition pool_setUserName :: "string \<Rightarrow> pool_object \<Rightarrow> pool_object" where
  "pool_setUserName v o1 = o1\<lparr>pj_userName := v\<rparr>"

definition pool_setPassword :: "string \<Rightarrow> pool_object \<Rightarrow> pool_object" where
  "pool_setPassword v o1 = o1\<lparr>pj_password := v\<rparr>"

definition pool_setCharset :: "string \<Rightarrow> pool_object \<Rightarrow> pool_object" where
  "pool_setCharset v o1 = o1\<lparr>pj_charset := v\<rparr>"

definition pool_setUnixSocket :: "string \<Rightarrow> pool_object \<Rightarrow> pool_object" where
  "pool_setUnixSocket v o1 = o1\<lparr>pj_unixSocket := v\<rparr>"

definition pool_setMinConnections :: "int \<Rightarrow> pool_object \<Rightarrow> pool_object" where
  "pool_setMinConnections v o1 = o1\<lparr>pj_minConnections := v\<rparr>"

definition pool_setMaxConnections :: "int \<Rightarrow> pool_object \<Rightarrow> pool_object" where
  "pool_setMaxConnections v o1 = o1\<lparr>pj_maxConnections := v\<rparr>"

definition pool_setConnTimeOut :: "int \<Rightarrow> pool_object \<Rightarrow> pool_object" where
  "pool_setConnTimeOut v o1 = o1\<lparr>pj_connTimeOut := v\<rparr>"

definition pool_setConnectionTimeOut :: "int \<Rightarrow> pool_object \<Rightarrow> pool_object" where
  "pool_setConnectionTimeOut v o1 = o1\<lparr>pj_connectionTimeOut := v\<rparr>"

definition pool_setCurrentConnection :: "bool \<Rightarrow> pool_object \<Rightarrow> pool_object" where
  "pool_setCurrentConnection v o1 = o1\<lparr>pj_isCurrentConnection := v\<rparr>"

definition pool_setLazyCheckTime :: "int \<Rightarrow> pool_object \<Rightarrow> pool_object" where
  "pool_setLazyCheckTime v o1 = o1\<lparr>pj_lazyCheck := v\<rparr>"

definition pool_setPeriodCheckTime :: "int \<Rightarrow> pool_object \<Rightarrow> pool_object" where
  "pool_setPeriodCheckTime v o1 = o1\<lparr>pj_periodCheck := v\<rparr>"

definition pool_setPoolCheck :: "bool \<Rightarrow> pool_object \<Rightarrow> pool_object" where
  "pool_setPoolCheck v o1 = o1\<lparr>pj_isCheckPool := v\<rparr>"

definition pool_setDebug :: "bool \<Rightarrow> pool_object \<Rightarrow> pool_object" where
  "pool_setDebug v o1 = o1\<lparr>pj_debug := v\<rparr>"

definition pool_setDataBaseType :: "string \<Rightarrow> pool_object \<Rightarrow> pool_object" where
  "pool_setDataBaseType dbType o1 = o1\<lparr>pj_pool := setDataBaseType dbType (pj_pool o1)\<rparr>"

definition setPoolName :: "string \<Rightarrow> pool_object \<Rightarrow> pool_object" where
  "setPoolName poolName o1 = o1\<lparr>pj_pool := (pj_pool o1)\<lparr>po_poolName := poolName\<rparr>\<rparr>"

definition setMaxActiveConnections :: "int \<Rightarrow> pool_object \<Rightarrow> pool_object" where
  "setMaxActiveConnections n o1 = o1\<lparr>pj_pool := (pj_pool o1)\<lparr>po_maxActive := n\<rparr>\<rparr>"

definition setInitConnections :: "int \<Rightarrow> pool_object \<Rightarrow> pool_object" where
  "setInitConnections n o1 = o1\<lparr>pj_pool := (pj_pool o1)\<lparr>po_initConnections := n\<rparr>\<rparr>"

text \<open>The calls of a method with a text, an int and a bool.\<close>
definition set_text :: "pool_method \<Rightarrow> string \<Rightarrow> pool_object \<Rightarrow> pool_object" where
  "set_text f s o1 =
     (case f of
        M_setDriverName \<Rightarrow> pool_setDriverName s o1
      | M_setDataBaseType \<Rightarrow> pool_setDataBaseType s o1
      | M_setRootPassword \<Rightarrow> pool_setRootPassword s o1
      | M_setHost \<Rightarrow> pool_setHost s o1
      | M_setDbName \<Rightarrow> pool_setDbName s o1
      | M_setUserName \<Rightarrow> pool_setUserName s o1
      | M_setPassword \<Rightarrow> pool_setPassword s o1
      | M_setCharset \<Rightarrow> pool_setCharset s o1
      | M_setUnixSocket \<Rightarrow> pool_setUnixSocket s o1
      | M_setPoolName \<Rightarrow> setPoolName s o1
      | _ \<Rightarrow> o1)"

definition set_number :: "pool_method \<Rightarrow> int \<Rightarrow> pool_object \<Rightarrow> pool_object" where
  "set_number f n o1 =
     (case f of
        M_setPort \<Rightarrow> pool_setPort n o1
      | M_setMinConnections \<Rightarrow> pool_setMinConnections n o1
      | M_setMaxConnections \<Rightarrow> pool_setMaxConnections n o1
      | M_setMaxActiveConnections \<Rightarrow> setMaxActiveConnections n o1
      | M_setInitConnections \<Rightarrow> setInitConnections n o1
      | M_setConnTimeOut \<Rightarrow> pool_setConnTimeOut n o1
      | M_setConnectionTimeOut \<Rightarrow> pool_setConnectionTimeOut n o1
      | M_setLazyCheckTime \<Rightarrow> pool_setLazyCheckTime n o1
      | M_setPeriodCheckTime \<Rightarrow> pool_setPeriodCheckTime n o1
      | _ \<Rightarrow> o1)"

definition set_flag :: "pool_method \<Rightarrow> bool \<Rightarrow> pool_object \<Rightarrow> pool_object" where
  "set_flag f b o1 =
     (case f of
        M_setCurrentConnection \<Rightarrow> pool_setCurrentConnection b o1
      | M_setPoolCheck \<Rightarrow> pool_setPoolCheck b o1
      | M_setDebug \<Rightarrow> pool_setDebug b o1
      | M_setNotSimulated \<Rightarrow> o1\<lparr>pj_simulated := \<not> b\<rparr>
      | M_setSimulated \<Rightarrow> o1\<lparr>pj_simulated := b\<rparr>
      | _ \<Rightarrow> o1)"

definition apply_method :: "pool_method \<Rightarrow> 'd arg list \<Rightarrow> pool_object \<Rightarrow> pool_object" where
  "apply_method f args o1 =
     (case args of
        [ArgS s] \<Rightarrow> set_text f s o1
      | [ArgI n] \<Rightarrow> set_number f n o1
      | [ArgB b] \<Rightarrow> set_flag f b o1
      | _ \<Rightarrow> o1)"

text \<open>A message to the pool object.\<close>
definition pool_message :: "(string \<Rightarrow> 'd) \<Rightarrow> string \<Rightarrow> string \<Rightarrow> string \<Rightarrow> pool_object \<Rightarrow> pool_object res" where
  "pool_message atof fullName msgName params o1 =
     mapR (\<lambda>r. case r of None \<Rightarrow> o1 | Some (f, args) \<Rightarrow> apply_method f args o1)
       (dispatchMsg atof [connection_pool_messages, control_object_messages, cmd_target_messages] fullName msgName params)"

text \<open>The messages of a configuration, the first that throws ending it.\<close>
fun pool_messages ::
  "(string \<Rightarrow> 'd) \<Rightarrow> string \<Rightarrow> (string \<times> string) list \<Rightarrow> pool_object \<Rightarrow> pool_object res" where
  "pool_messages atof fullName [] o1 = Inr o1"
| "pool_messages atof fullName ((name, v) # ms) o1 =
     bindR (pool_message atof fullName name v o1) (pool_messages atof fullName ms)"

definition make_pool_object ::
  "(nat \<Rightarrow> bool) \<Rightarrow> nat \<Rightarrow> pool_object \<Rightarrow> pools \<Rightarrow> (pool_object \<times> pools) res" where
  "make_pool_object closed addr o1 ps =
     mapR (\<lambda>(p, ps'). (o1\<lparr>pj_pool := p\<rparr>, ps')) (make_pool closed addr (pj_pool o1) ps)"

section \<open>Facts\<close>

text \<open>What the table makes of a name.\<close>
lemma message_entity:
  assumes "find_entity connection_pool_messages name = Inr (Some (entity name t f))"
    and "plain_value v" "t \<in> {METHOD_S, METHOD_I, METHOD_B}"
  shows "pool_message atof fullName name v o1 = Inr
     (case t of METHOD_S \<Rightarrow> set_text f v o1
              | METHOD_I \<Rightarrow> set_number f (atoi v) o1
              | _ \<Rightarrow> set_flag f (v = ''true'' \<or> v = ''1'') o1)"
  using assms(3) plain_split [OF assms(2)]
  by (auto simp: pool_message_def assms(1) dispatch_entity_def entity_def paramNum_def call_args_def apply_method_def)

lemma text_messages:
  assumes "plain_value v"
  shows "pool_message atof n ''setPoolName'' v o1 = Inr (setPoolName v o1)"
    "pool_message atof n ''setDataBaseType'' v o1 = Inr (pool_setDataBaseType v o1)"
    "pool_message atof n ''setHost'' v o1 = Inr (pool_setHost v o1)"
    "pool_message atof n ''setUserName'' v o1 = Inr (pool_setUserName v o1)"
    "pool_message atof n ''setPassword'' v o1 = Inr (pool_setPassword v o1)"
    "pool_message atof n ''setDbName'' v o1 = Inr (pool_setDbName v o1)"
  using message_entity [OF _ assms, of "''setPoolName''" METHOD_S M_setPoolName]
    message_entity [OF _ assms, of "''setDataBaseType''" METHOD_S M_setDataBaseType]
    message_entity [OF _ assms, of "''setHost''" METHOD_S M_setHost]
    message_entity [OF _ assms, of "''setUserName''" METHOD_S M_setUserName]
    message_entity [OF _ assms, of "''setPassword''" METHOD_S M_setPassword]
    message_entity [OF _ assms, of "''setDbName''" METHOD_S M_setDbName]
  by (simp_all add: connection_pool_messages_def entity_def set_text_def)

lemma number_messages:
  assumes "int32 v"
  shows "pool_message atof n ''setPort'' (show_int v) o1 = Inr (pool_setPort v o1)"
    "pool_message atof n ''setInitConnections'' (show_int v) o1 = Inr (setInitConnections v o1)"
    "pool_message atof n ''setMaxActiveConnections'' (show_int v) o1 = Inr (setMaxActiveConnections v o1)"
  using message_entity [OF _ plain_number, of "''setPort''" METHOD_I M_setPort atof]
    message_entity [OF _ plain_number, of "''setInitConnections''" METHOD_I M_setInitConnections atof]
    message_entity [OF _ plain_number, of "''setMaxActiveConnections''" METHOD_I M_setMaxActiveConnections atof]
    atoi_show_int [OF assms]
  by (simp_all add: connection_pool_messages_def entity_def set_number_def)

text \<open>A name that is in neither table.\<close>
lemma find_entity_None:
  "name \<notin> m_msg ` set es \<Longrightarrow> [] \<in> m_msg ` set es \<Longrightarrow> find_entity es name = Inr None"
  by (induction es) auto

lemma unknown_message:
  "name \<notin> m_msg ` set connection_pool_messages \<Longrightarrow> name \<notin> m_msg ` set control_object_messages \<Longrightarrow>
   name \<notin> m_msg ` set cmd_target_messages \<Longrightarrow>
   \<exists>what. pool_message atof fullName name v o1 = Inl (Throw what)"
proof -
  assume a: "name \<notin> m_msg ` set connection_pool_messages" "name \<notin> m_msg ` set control_object_messages"
    "name \<notin> m_msg ` set cmd_target_messages"
  have "[] \<in> m_msg ` set connection_pool_messages" "[] \<in> m_msg ` set control_object_messages"
    "[] \<in> m_msg ` set cmd_target_messages"
    by (simp_all add: connection_pool_messages_def control_object_messages_def cmd_target_messages_def entity_def)
  from find_entity_None [OF a(1) this(1)] find_entity_None [OF a(2) this(2)] find_entity_None [OF a(3) this(3)]
  show ?thesis
    by (simp add: pool_message_def)
qed

text \<open>make opens the initial connections of a MySQL pool, numbered on from the next.\<close>
lemma make_loop_opens:
  "po_dbType p = MySql \<Longrightarrow> \<forall>c. \<not> closed c \<Longrightarrow>
   make_loop closed n p = Inr (p\<lparr>po_free := po_free p @ [po_next p..<po_next p + n], po_next := po_next p + n\<rparr>)"
proof (induction n arbitrary: p)
  case (Suc n)
  let ?q = "p\<lparr>po_next := po_next p + 1, po_free := po_free p @ [po_next p]\<rparr>"
  have step: "make_loop closed (Suc n) p = make_loop closed n ?q"
    using Suc.prems by (simp add: newConnection_def isValid_def)
  have r: "make_loop closed n ?q =
      Inr (?q\<lparr>po_free := po_free ?q @ [po_next ?q..<po_next ?q + n], po_next := po_next ?q + n\<rparr>)"
    by (rule Suc.IH) (use Suc.prems in simp_all)
  have u: "[po_next p..<po_next p + Suc n] = po_next p # [po_next p + 1..<po_next p + 1 + n]"
    by (simp add: upt_conv_Cons del: upt_Suc)
  show ?case unfolding step r u by simp
qed simp

end
