(* ===== verification/Publication.thy ===== *)
theory Publication
  imports Subscriber_Socket
begin

text \<open>
  From a change of a data point to its copy in a client: lemmas that put together the scan of the
  namespace, the update the subscription socket sends and the handling of its text by the client
  (src/object_manager.cc and src/ick_storm_subscriber_socket.cc).
\<close>

section \<open>The scan and the update it causes\<close>

text \<open>Reading a point changes neither its name nor its subscribers.\<close>
lemma getValue_keeps:
  "ud_fullName (snd (ReadOnlyInt_getValue ri x)) = ud_fullName x \<and> ud_subscribers (snd (ReadOnlyInt_getValue ri x)) = ud_subscribers x"
  "ud_fullName (snd (ReadWriteInt_getValue ri x)) = ud_fullName x \<and> ud_subscribers (snd (ReadWriteInt_getValue ri x)) = ud_subscribers x"
  "ud_fullName (snd (ReadOnlyDouble_getValue dif rd y)) = ud_fullName y \<and>
   ud_subscribers (snd (ReadOnlyDouble_getValue dif rd y)) = ud_subscribers y"
  "ud_fullName (snd (ReadOnlyString_getValue rs z)) = ud_fullName z \<and> ud_subscribers (snd (ReadOnlyString_getValue rs z)) = ud_subscribers z"
  "ud_fullName (snd (ReadWriteString_getValue rs z)) = ud_fullName z \<and> ud_subscribers (snd (ReadWriteString_getValue rs z)) = ud_subscribers z"
  by (simp_all add: ReadOnlyInt_getValue_def ReadWriteInt_getValue_def ReadOnlyDouble_getValue_def ReadOnlyString_getValue_def
      ReadWriteString_getValue_def Let_def split: option.split)

lemma scan_read_keeps:
  "ud_fullName (the_ud (scan_read dif ri rd rs a)) = ud_fullName (the_ud a)"
  "ud_subscribers (the_ud (scan_read dif ri rd rs a)) = ud_subscribers (the_ud a)"
  by (cases a; simp add: scan_read_def Let_def ReadWriteDouble_getValue_def getValue_keeps untyped_data.defs)+

lemma scan_one_value: "value_of zero (snd (scan_one dif ri rd rs a)) = value_of zero (scan_read dif ri rd rs a)"
  "ud_fullName (the_ud (snd (scan_one dif ri rd rs a))) = ud_fullName (the_ud a)"
  by (simp_all add: scan_one_def Let_def ud_update_def scan_read_keeps)

text \<open>What the round leaves in the store, and the calls it makes, for one point.\<close>
lemma scan_round_point:
  assumes "manager_ok m" "distinct (map snd (om_datas m))"
    and "om_find (om_datas m) name = Some d" "om_find (om_data_store m) d = Some a"
    and "ud_isChanged (the_ud (scan_read dif ri rd rs a))" "self \<in> set (ud_subscribers (the_ud a))"
  shows "\<exists>ev m'. scan_round dif ri rd rs m = Inr (ev, m') \<and> (self, scan_read dif ri rd rs a) \<in> set ev \<and>
     om_find (om_data_store m') d = Some (snd (scan_one dif ri rd rs a))"
proof -
  have e: "(name, d) \<in> set (om_datas m)" using om_find_in_set [of "om_datas m"] assms(1,3) by (simp add: manager_ok_def)
  have "\<forall>e \<in> set (om_datas m). om_has (om_data_store m) (snd e)" "om_ok (om_data_store m)"
    using assms(1) by (simp_all add: manager_ok_def)
  from scan_loop_distinct [OF this(2) assms(2) this(1), of dif ri rd rs] obtain m' where
    r: "scan_round dif ri rd rs m = Inr (concat (map (\<lambda>e. fst (scan_one dif ri rd rs
          (the (om_find (om_data_store m) (snd e))))) (om_datas m)), m')"
      "om_find (om_data_store m') d = Some (snd (scan_one dif ri rd rs a))"
    using e assms(4) by (force simp: scan_round_def)
  have "(self, scan_read dif ri rd rs a) \<in> set (fst (scan_one dif ri rd rs a))"
    using assms(5,6) by (simp add: scan_one_events scan_read_keeps)
  then have "(self, scan_read dif ri rd rs a) \<in> set (concat (map (\<lambda>e. fst (scan_one dif ri rd rs
          (the (om_find (om_data_store m) (snd e))))) (om_datas m)))"
    using e assms(4) by (force intro!: bexI [of _ "(name, d)"])
  then show ?thesis using r by blast
qed

text \<open>The update of a point reaches every living client entered for it.\<close>
lemma sk_update_reaches:
  assumes "om_find (om_data_store (sk_mgr st)) d = Some a" "net_raw (sk_net st) = []"
    and "length (ud_fullName (the_ud a)) < CHANNEL_MAX_LENGTH"
    and "clients_ok (sk_clients st)" "subscribed (sk_clients st) s d" "s \<in> set (sk_alive st)"
  shows "\<exists>st'. sk_update print zero now d st = Inr st' \<and>
     (s, update_text print now (ud_fullName (the_ud a)) (value_of zero a)) \<in> set (net_sent (sk_net st'))"
proof -
  obtain chans where "(s, chans) \<in> set (sk_clients st)" "om_has chans d"
    using assms(4,5) by (auto simp: subscribed_def clients_ok_def om_find_in_set split: option.splits)
  then show ?thesis using update_clients_sent [OF assms(2,3)] assms(1,6) by (force simp: sk_update_def)
qed

section \<open>The client\<close>

lemma publish_sends:
  assumes "length name < CHANNEL_MAX_LENGTH" "net_raw (sk_net sv) = []"
  shows "publish print now (Some s) name v sv =
     Inr (int (length (join (CHR '':'') (update_fields print now name v)) + 1),
       sv\<lparr>sk_net := (sk_net sv)\<lparr>net_sent := net_sent (sk_net sv) @
         [(s, join (CHR '':'') (update_fields print now name v) @ '';'')]\<rparr>\<rparr>)"
  using assms by (simp add: publish_def update_text_join sk_send_def isocket_send_def send_result_def)

text \<open>A channel the client does not know: an object is created, registered and announced.\<close>
lemma client_creates:
  assumes "wire_ok atof print a" "name_clean name" "hd name = CHR ''/''" "name \<noteq> ''/''"
    and "manager_ok (sk_mgr cl)" "\<not> isObjectRegisted name (sk_mgr cl)"
  shows "\<exists>m b. client_message atof zero differs wi wd ws fresh
       (join (CHR '':'') (update_fields print now name (value_of zero a))) cl =
       Inr (notify_listeners name (Some fresh) (cl\<lparr>sk_mgr := m\<rparr>)) \<and>
     getObject name m = Some (DataRef fresh) \<and> om_find (om_data_store m) fresh = Some b \<and>
     value_of zero b = arrived zero a"
proof -
  let ?v = "value_of zero a" and ?m = "sk_mgr cl"
  have ne: "name \<noteq> []" using assms(2) by (simp add: name_clean_def)
  obtain b where b: "new_client_data atof zero (vi_accessMode ?v) (vi_dataType ?v) (plain_text print a) = Some b"
    "value_of zero b = arrived zero a"
    using new_client_data_arrived [OF assms(1)] by blast
  let ?m1 = "?m\<lparr>om_data_store := om_put fresh b (om_data_store ?m)\<rparr>"
  have oks: "om_ok (om_datas ?m1)" "om_ok (om_data_store ?m1)" "om_find (om_data_store ?m1) fresh = Some b"
    using assms(5) by (simp_all add: manager_ok_def om_ok_put om_find_put)
  have free: "om_find (om_datas ?m1) name = None" "om_find (om_entites ?m1) name = None"
    using assms(6) ne by (simp_all add: isObjectRegisted_def split: if_splits)
  from registerData_spec [OF oks ne assms(3,4) free] obtain m' where
    m': "registerData (Some fresh) name ?m1 = Inr m'" "getObject name m' = Some (DataRef fresh)"
      "om_find (om_data_store m') fresh = Some (on_ud (setFullName name) b)" by blast
  have "client_message atof zero differs wi wd ws fresh (join (CHR '':'') (update_fields print now name ?v)) cl =
      Inr (notify_listeners name (Some fresh) (cl\<lparr>sk_mgr := m'\<rparr>))"
    unfolding client_message_def update_split [OF assms(2) wire_ok_clean [OF assms(1)]]
    using assms(6) b(1) m'(1)
    by (simp add: update_fields_def client_update_def Let_def type_of_text access_of_text wire_ok_decode [OF assms(1)])
  then show ?thesis using m'(2,3) b(2) by (intro exI [of _ m'] exI [of _ "on_ud (setFullName name) b"]) simp
qed

text \<open>A channel the client knows: its object is cast to the writable class.\<close>
lemma client_knows:
  assumes "wire_ok atof print a" "name_clean name" "getObject name (sk_mgr cl) = Some (DataRef i)"
    and "om_find (om_data_store (sk_mgr cl)) i = Some b"
  shows "client_message atof zero differs wi wd ws fresh
       (join (CHR '':'') (update_fields print now name (value_of zero a))) cl =
     bindR (set_client_data atof differs wi wd ws (vi_dataType (value_of zero a)) (plain_text print a) (Some b))
       (\<lambda>o2. case o2 of None \<Rightarrow> Inl Undefined
          | Some b' \<Rightarrow> Inr (notify_listeners name (Some i)
              (cl\<lparr>sk_mgr := (sk_mgr cl)\<lparr>om_data_store := om_put i b' (om_data_store (sk_mgr cl))\<rparr>\<rparr>)))"
proof -
  have "isObjectRegisted name (sk_mgr cl)"
    using assms(3) by (auto simp: getObject_def isObjectRegisted_def split: if_splits option.splits)
  then show ?thesis
    unfolding client_message_def update_split [OF assms(2) wire_ok_clean [OF assms(1)]]
    using assms(3,4)
    by (simp add: update_fields_def client_update_def Let_def type_of_text wire_ok_decode [OF assms(1)] data_ref_def)
qed

text \<open>The cast of a copy of a read-only point fails.\<close>
lemma read_only_not_set:
  assumes "vi_accessMode (value_of zero b) = READONLY" "vi_dataType (value_of zero a) \<noteq> UNKNOWN"
  shows "set_client_data atof differs wi wd ws (vi_dataType (value_of zero a)) t (Some b) = Inl Null_Deref"
  using assms by (cases b; cases "vi_dataType (value_of zero a)") (simp_all add: set_client_data_def)

lemma value_type_known: "vi_dataType (value_of zero a) \<noteq> UNKNOWN"
  by (cases a) simp_all

lemma arrived_mode: "vi_accessMode (arrived zero a) = vi_accessMode (value_of zero a)"
  by (cases a) (simp_all add: arrived_def)

end
