(* ===== verification/Lame_Encoder.thy ===== *)
theory Lame_Encoder
  imports Ick_Prelude "HOL-Library.Word"
begin

text \<open>
  The MP3 encoder of common/audio/lame_helper.cc and the parts of common/audio/lamehelper.cc that
  configure LAME in the same way.  LAME itself is an argument: what it answers to the calls made so
  far, the last one last, is a count and the bytes it leaves in the buffer.  The loop has fuel,
  because it need not end.  A block of samples is given to LAME as its bytes.
\<close>

section \<open>Settings\<close>

datatype encode_mode = EM_ABR | EM_CBR | EM_VBR
datatype encode_channel = EC_MONO | EC_STEREO

record settings =
  se_title :: string
  se_artist :: string
  se_album :: string
  se_comment :: string
  se_year :: string
  se_track :: string
  se_genre :: string
  se_albumart :: "string option"
  se_channels :: encode_channel
  se_abr_bitrate :: int
  se_cbr_bitrate :: int
  se_quality :: int
  se_enc_mode :: encode_mode
  se_resample_frequency :: int
  se_in_samplerate :: int

definition new_settings :: settings where
  "new_settings =
     \<lparr> se_title = [], se_artist = [], se_album = [], se_comment = [], se_year = [], se_track = [], se_genre = [],
       se_albumart = None, se_channels = EC_STEREO, se_abr_bitrate = 128, se_cbr_bitrate = 128, se_quality = 5,
       se_enc_mode = EM_CBR, se_resample_frequency = 44100, se_in_samplerate = 44100 \<rparr>"

datatype vbr_mode = Vbr_Off | Vbr_Abr | Vbr_Mtrh

datatype lame_call =
    In_Samplerate int
  | Id3_Init
  | Id3_V2_Only
  | Id3_Tag string string
  | Album_Art "string option"
  | Mono
  | Joint_Stereo
  | Num_Channels int
  | Write_Vbr_Tag int
  | Vbr vbr_mode
  | Mean_Bitrate int
  | Quality int
  | Brate int
  | Vbr_Q int
  | Out_Samplerate int
  | Find_Replay_Gain int
  | Id3_Automatic int

text \<open>The average bit rate in kbit/s, from bit/s when it is large.\<close>
definition abr_bitrate :: "int \<Rightarrow> int" where
  "abr_bitrate rate =
     (let i = (if 8000 \<le> rate then (rate + 500) div 1000 else rate);
          j = (if 320 < i then 320 else i)
      in if j < 8 then 8 else j)"

definition tag_calls :: "settings \<Rightarrow> lame_call list" where
  "tag_calls s =
     [In_Samplerate (se_in_samplerate s), Id3_Init, Id3_V2_Only, Id3_Tag ''year'' (se_year s),
      Id3_Tag ''genre'' (se_genre s), Id3_Tag ''artist'' (se_artist s), Id3_Tag ''album'' (se_album s),
      Id3_Tag ''title'' (se_title s), Id3_Tag ''track'' (se_track s), Id3_Tag ''comment'' (se_comment s)]"

definition channel_calls :: "settings \<Rightarrow> lame_call list" where
  "channel_calls s =
     (case se_channels s of
        EC_MONO \<Rightarrow> [Mono, Num_Channels 1]
      | EC_STEREO \<Rightarrow> [Joint_Stereo, Num_Channels 2])"

definition rate_calls :: "settings \<Rightarrow> lame_call list" where
  "rate_calls s =
     Write_Vbr_Tag 1 #
     (case se_enc_mode s of
        EM_ABR \<Rightarrow> [Vbr Vbr_Abr, Mean_Bitrate (abr_bitrate (se_abr_bitrate s))]
      | EM_CBR \<Rightarrow> [Vbr Vbr_Off, Quality (se_quality s), Brate (se_cbr_bitrate s)]
      | EM_VBR \<Rightarrow> [Vbr Vbr_Mtrh, Vbr_Q (se_quality s)]) @
     [Out_Samplerate (se_resample_frequency s), Find_Replay_Gain 1, Id3_Automatic 0]"

definition configure_lame :: "settings \<Rightarrow> lame_call list" where
  "configure_lame s = tag_calls s @ channel_calls s @ rate_calls s"

text \<open>The encoder of files sets the picture of the album too.\<close>
definition configure_lame_file :: "settings \<Rightarrow> lame_call list" where
  "configure_lame_file s = tag_calls s @ [Album_Art (se_albumart s)] @ channel_calls s @ rate_calls s"

section \<open>Encoding a text of samples\<close>

text \<open>What LAME is asked for: to encode a block of whole samples, a count that is negative, to flush.\<close>
datatype lame_input = Block "8 word list" | Bad_Count int | Flush

abbreviation PCM_SIZE :: int where "PCM_SIZE \<equiv> 4096"

text \<open>The conversion of an unsigned long to int.\<close>
definition to_int32 :: "int \<Rightarrow> int" where
  "to_int32 x = (x + 2147483648) mod 4294967296 - 2147483648"

text \<open>The number of samples to encode next.  The sums and differences are unsigned of 64 bits; the length
  of the text and the amount read are swapped in the subtraction for the last block.\<close>
definition next_read :: "int \<Rightarrow> int \<Rightarrow> int" where
  "next_read cumulative n =
     (let r = (cumulative + 4 * PCM_SIZE) mod 18446744073709551616
      in if n \<le> r then to_int32 ((n - r) mod 18446744073709551616 div 4) else PCM_SIZE)"

text \<open>The loop: the calls made so far, the bytes in the result.  Copying from outside the text is undefined,
  and a string made of a negative count of bytes throws.\<close>
fun encode_loop ::
  "nat \<Rightarrow> (lame_input list \<Rightarrow> int \<times> 8 word list) \<Rightarrow> 8 word list \<Rightarrow> int \<Rightarrow> lame_input list \<Rightarrow> 8 word list \<Rightarrow>
     (lame_input list \<times> 8 word list) res option" where
  "encode_loop 0 lame pcm_data cumulative_read calls result = None"
| "encode_loop (Suc fuel) lame pcm_data cumulative_read calls result =
     (let read = next_read cumulative_read (int (length pcm_data));
          cumulative' = cumulative_read + read * 4;
          call = (if read = 0 then Flush
                  else if read < 0 then Bad_Count read
                  else Block (take (nat (4 * read)) (drop (nat cumulative_read) pcm_data)));
          calls' = calls @ [call]
      in if 0 < read \<and> (cumulative_read < 0 \<or> int (length pcm_data) < cumulative_read + 4 * read)
         then Some (Inl Undefined)
         else case lame calls' of
                (write, mp3_buffer) \<Rightarrow>
                  if write < 0 then Some (Inl (Throw ''basic_string: construction from too long a count''))
                  else if read = 0 then Some (Inr (calls', result @ take (nat write) mp3_buffer))
                  else encode_loop fuel lame pcm_data cumulative' calls' (result @ take (nat write) mp3_buffer))"

declare encode_loop.simps [simp del]

text \<open>The status, what is left in \<open>mp3_data\<close>, which is never written, and the calls; \<open>init_ok\<close> tells whether
  LAME takes the configuration.  The tag written after the loop goes to the same stream, which is dropped.\<close>
definition Encode ::
  "nat \<Rightarrow> (lame_call list \<Rightarrow> bool) \<Rightarrow> settings \<Rightarrow> (lame_input list \<Rightarrow> int \<times> 8 word list) \<Rightarrow> 8 word list \<Rightarrow>
     8 word list \<Rightarrow> 8 word list \<Rightarrow> (int \<times> 8 word list \<times> lame_input list) res option" where
  "Encode fuel init_ok s lame id3v2_tag pcm_data mp3_data =
     (if \<not> init_ok (configure_lame s) then Some (Inr (-2, mp3_data, []))
      else map_option (mapR (\<lambda>(calls, result). (0, mp3_data, calls)))
             (encode_loop fuel lame pcm_data 0 [] id3v2_tag))"

section \<open>Facts\<close>

lemma abr_bitrate_bounds: "8 \<le> abr_bitrate r \<and> abr_bitrate r \<le> 320"
  by (simp add: abr_bitrate_def Let_def)

lemma next_read_full: "0 \<le> c + 16384 \<Longrightarrow> c + 16384 < n \<Longrightarrow> n < 2 ^ 63 \<Longrightarrow> next_read c n = 4096"
  by (simp add: next_read_def)

lemma next_read_end:
  assumes "n = c + 16384" "0 \<le> n" "n < 2 ^ 63"
  shows "next_read c n = 0"
  using assms by (simp add: next_read_def to_int32_def)

lemma to_int32_small: "0 < q \<Longrightarrow> q \<le> 2147483648 \<Longrightarrow> to_int32 (4611686018427387904 - q) = -q"
proof -
  assume q: "0 < q" "q \<le> 2147483648"
  have "4611686018427387904 - q + 2147483648 = (2147483648 - q) + 1073741824 * 4294967296" by simp
  then have "(4611686018427387904 - q + 2147483648) mod 4294967296 = (2147483648 - q) mod 4294967296"
    by (metis mod_mult_self1)
  also have "\<dots> = 2147483648 - q" using q by simp
  finally show ?thesis by (simp add: to_int32_def)
qed

text \<open>The count for the last block is minus the number of samples that are missing from it.\<close>
lemma next_read_last:
  assumes "n < c + 16384" "c + 16384 \<le> n + 16384" "0 \<le> n" "n < 2 ^ 62"
  shows "next_read c n = - ((c + 16384 - n + 3) div 4)"
proof -
  let ?k = "c + 16384 - n"
  have k: "0 < ?k" "?k \<le> 16384" using assms by simp_all
  have r: "(c + 16384) mod 18446744073709551616 = c + 16384" using assms by (simp add: mod_pos_pos_trivial)
  have "(n - (c + 16384)) mod 18446744073709551616 = 18446744073709551616 - ?k"
  proof -
    have "(n - (c + 16384)) mod 18446744073709551616 = (18446744073709551616 - ?k) mod 18446744073709551616"
      using mod_add_self2 [of "- ?k" "18446744073709551616 :: int"] by (simp add: algebra_simps)
    then show ?thesis using k by simp
  qed
  moreover have "(18446744073709551616 - ?k) div 4 = 4611686018427387904 - (?k + 3) div 4"
  proof (rule int_div_pos_eq [where r = "4 * ((?k + 3) div 4) - ?k"])
    have "4 * ((?k + 3) div 4) + (?k + 3) mod 4 = ?k + 3" by (rule mult_div_mod_eq)
    moreover have "0 \<le> (?k + 3) mod 4" "(?k + 3) mod 4 < 4" by simp_all
    ultimately show "0 \<le> 4 * ((?k + 3) div 4) - ?k" "4 * ((?k + 3) div 4) - ?k < 4" by linarith+
  qed simp
  ultimately have "next_read c n = to_int32 (4611686018427387904 - (?k + 3) div 4)"
    using assms(1) by (simp add: next_read_def r)
  moreover have "0 < (?k + 3) div 4" "(?k + 3) div 4 \<le> 2147483648" using k by linarith+
  ultimately show ?thesis by (simp only: to_int32_small)
qed

text \<open>The block of samples with number \<open>i\<close>.\<close>
definition pcm_block :: "8 word list \<Rightarrow> nat \<Rightarrow> lame_input" where
  "pcm_block pcm i = Block (take 16384 (drop (16384 * i) pcm))"

text \<open>One round, by the count it reads, for a LAME that never answers with an error.\<close>
lemma encode_round:
  assumes "0 \<le> fst (lame (calls @ [call]))"
    and "call = (if r = 0 then Flush else if r < 0 then Bad_Count r
                 else Block (take (nat (4 * r)) (drop (nat c) pcm)))"
    and "next_read c (int (length pcm)) = r" "0 < r \<Longrightarrow> 0 \<le> c \<and> c + 4 * r \<le> int (length pcm)"
  shows "\<exists>out. encode_loop (Suc fuel) lame pcm c calls result =
     (if r = 0 then Some (Inr (calls @ [call], out)) else encode_loop fuel lame pcm (c + 4 * r) (calls @ [call]) out)"
proof -
  obtain w out where l: "lame (calls @ [call]) = (w, out)" "0 \<le> w" using assms(1) by (cases "lame (calls @ [call])") simp
  have "\<not> (0 < r \<and> (c < 0 \<or> int (length pcm) < c + 4 * r))" using assms(4) by linarith
  then have "encode_loop (Suc fuel) lame pcm c calls result =
     (if r = 0 then Some (Inr (calls @ [call], result @ take (nat w) out))
      else encode_loop fuel lame pcm (c + 4 * r) (calls @ [call]) (result @ take (nat w) out))"
    unfolding encode_loop.simps assms(3) assms(2) [symmetric] Let_def using l by (auto simp: mult.commute)
  then show ?thesis by (intro exI [of _ "result @ take (nat w) out"])
qed

lemma encode_full:
  assumes "\<forall>cs. 0 \<le> fst (lame cs)" "int (length pcm) < 2 ^ 62" "0 \<le> c" "c + 16384 < int (length pcm)"
  shows "\<exists>out. encode_loop (Suc fuel) lame pcm c calls result =
     encode_loop fuel lame pcm (c + 16384) (calls @ [Block (take 16384 (drop (nat c) pcm))]) out"
proof -
  have r: "next_read c (int (length pcm)) = 4096" by (rule next_read_full) (use assms in simp_all)
  have "0 \<le> fst (lame (calls @ [Block (take 16384 (drop (nat c) pcm))]))" using assms(1) by blast
  from encode_round [of lame calls "Block (take 16384 (drop (nat c) pcm))" 4096 c pcm fuel result, OF this _ r] show ?thesis using assms(3,4) by simp
qed

lemma encode_blocks:
  assumes "\<forall>cs. 0 \<le> fst (lame cs)" "int (length pcm) < 2 ^ 62"
  shows "16384 * (i + b) < length pcm \<or> b = 0 \<Longrightarrow>
   \<exists>out. encode_loop (b + fuel) lame pcm (int (16384 * i)) calls result =
     encode_loop fuel lame pcm (int (16384 * (i + b))) (calls @ map (pcm_block pcm) [i..<i + b]) out"
proof (induction b arbitrary: i calls result)
  case (Suc b)
  have "int (16384 * i) + 16384 < int (length pcm)" using Suc.prems by simp
  from encode_full [OF assms _ this, of "b + fuel" calls result] obtain out where
    o: "encode_loop (Suc b + fuel) lame pcm (int (16384 * i)) calls result =
      encode_loop (b + fuel) lame pcm (int (16384 * Suc i)) (calls @ [pcm_block pcm i]) out"
    by (auto simp: pcm_block_def nat_mult_distrib add.commute)
  have "16384 * (Suc i + b) < length pcm \<or> b = 0" using Suc.prems by simp
  from Suc.IH [OF this, of "calls @ [pcm_block pcm i]" out] o show ?case
    by (simp add: upt_conv_Cons del: upt_Suc)
qed auto

text \<open>The last block: when samples are missing from it the count is negative and the position goes back.\<close>
lemma encode_last:
  assumes "\<forall>cs. 0 \<le> fst (lame cs)" "int (length pcm) < 2 ^ 62"
    and "int (length pcm) < c + 16384" "c \<le> int (length pcm)"
  shows "\<exists>out. encode_loop (Suc fuel) lame pcm c calls result =
     encode_loop fuel lame pcm (c - 4 * ((c + 16384 - int (length pcm) + 3) div 4))
       (calls @ [Bad_Count (- ((c + 16384 - int (length pcm) + 3) div 4))]) out"
proof -
  let ?q = "(c + 16384 - int (length pcm) + 3) div 4"
  have "0 < ?q" using assms(3) by (simp add: pos_imp_zdiv_pos_iff)
  then show ?thesis
    using encode_round [of lame calls "Bad_Count (- ?q)" "- ?q" c pcm fuel result] assms
      next_read_last [of "int (length pcm)" c] by simp
qed

lemma encode_flush:
  assumes "\<forall>cs. 0 \<le> fst (lame cs)" "int (length pcm) < 2 ^ 62" "c + 16384 = int (length pcm)"
  shows "\<exists>out. encode_loop (Suc fuel) lame pcm c calls result = Some (Inr (calls @ [Flush], out))"
  using encode_round [of lame calls Flush 0 c pcm fuel result] assms
    next_read_end [of "int (length pcm)" c] by simp

text \<open>A length that is not a multiple of four: the last whole block is encoded again and again.\<close>
lemma encode_again:
  assumes "\<forall>cs. 0 \<le> fst (lame cs)" "int (length pcm) < 2 ^ 62"
    and "c + 16384 + j = int (length pcm)" "0 < j" "j < 4" "0 \<le> c"
  shows "encode_loop fuel lame pcm c calls result = None \<and>
     encode_loop fuel lame pcm (c + 16384) calls result = None"
proof (induction fuel arbitrary: calls result)
  case (Suc fuel)
  from encode_full [OF assms(1,2,6), of fuel calls result] assms(3,4) obtain out where
    o: "encode_loop (Suc fuel) lame pcm c calls result =
     encode_loop fuel lame pcm (c + 16384) (calls @ [Block (take 16384 (drop (nat c) pcm))]) out" by auto
  have q: "(c + 16384 + 16384 - int (length pcm) + 3) div 4 = 4096" using assms(3-5) by linarith
  from encode_last [OF assms(1,2), of "c + 16384" fuel calls result] assms(3,4,5) obtain out' cs where
    "encode_loop (Suc fuel) lame pcm (c + 16384) calls result = encode_loop fuel lame pcm c cs out'"
    unfolding q by auto
  then show ?case using o Suc.IH by simp
qed (simp add: encode_loop.simps)

text \<open>The number of blocks that are followed by more samples.\<close>
definition whole_blocks :: "8 word list \<Rightarrow> nat" where
  "whole_blocks pcm = (length pcm - 1) div 16384"

lemma whole_blocks_bounds:
  "int (length pcm) \<le> int (16384 * whole_blocks pcm) + 16384"
  "16384 * whole_blocks pcm < length pcm \<or> whole_blocks pcm = 0"
  unfolding whole_blocks_def by linarith+

lemma encode_start:
  assumes "\<forall>cs. 0 \<le> fst (lame cs)" "int (length pcm) < 2 ^ 62"
  shows "\<exists>out. encode_loop (whole_blocks pcm + fuel) lame pcm 0 [] tag =
     encode_loop fuel lame pcm (int (16384 * whole_blocks pcm)) (map (pcm_block pcm) [0..<whole_blocks pcm]) out"
  using encode_blocks [OF assms, of 0 "whole_blocks pcm" fuel "[]" tag] whole_blocks_bounds(2) [of pcm] by simp

lemma last_exact: "4 dvd (x :: int) \<Longrightarrow> 4 * ((x + 3) div 4) = x" "4 dvd x \<Longrightarrow> (x + 3) div 4 = x div 4"
  by (auto elim!: dvdE)

text \<open>Samples that are whole: the loop ends, without the samples of a last block that is not full.\<close>
lemma encode_returns:
  assumes "\<forall>cs. 0 \<le> fst (lame cs)" "int (length pcm) < 2 ^ 62" "4 dvd length pcm"
  shows "\<exists>out. encode_loop (whole_blocks pcm + 2) lame pcm 0 [] tag =
     Some (Inr (map (pcm_block pcm) [0..<whole_blocks pcm] @
       (if length pcm = 16384 * whole_blocks pcm + 16384 then []
        else [Bad_Count (- ((int (16384 * whole_blocks pcm) + 16384 - int (length pcm)) div 4))]) @ [Flush], out))"
proof -
  let ?c = "int (16384 * whole_blocks pcm)" and ?bs = "map (pcm_block pcm) [0..<whole_blocks pcm]"
  obtain out where s: "encode_loop (whole_blocks pcm + 2) lame pcm 0 [] tag = encode_loop (Suc 1) lame pcm ?c ?bs out"
    using encode_start [OF assms(1,2), of 2 tag] by (auto simp: numeral_2_eq_2)
  show ?thesis
  proof (cases "length pcm = 16384 * whole_blocks pcm + 16384")
    case True
    then have "?c + 16384 = int (length pcm)" by simp
    from encode_flush [OF assms(1,2) this, of 1 ?bs out] show ?thesis
      unfolding s if_P [OF True] append_Nil by blast
  next
    case False
    have b: "int (length pcm) < ?c + 16384" "?c \<le> int (length pcm)"
      using False whole_blocks_bounds [of pcm] by linarith+
    have "4 dvd int (length pcm)" using assms(3) int_dvd_int_iff [of 4 "length pcm"] by simp
    then have "4 dvd ?c + 16384 - int (length pcm)" by (intro dvd_diff dvd_add) simp_all
    note d = last_exact [OF this]
    have e: "?c - 4 * ((?c + 16384 - int (length pcm)) div 4) = int (length pcm) - 16384"
      using d unfolding d(2) by linarith
    from encode_last [OF assms(1,2) b, of 1 ?bs out] obtain out' where
      l: "encode_loop (Suc 1) lame pcm ?c ?bs out = encode_loop 1 lame pcm (int (length pcm) - 16384)
        (?bs @ [Bad_Count (- ((?c + 16384 - int (length pcm)) div 4))]) out'"
      unfolding d(2) e by blast
    from encode_flush [OF assms(1,2), of "int (length pcm) - 16384" 0
        "?bs @ [Bad_Count (- ((?c + 16384 - int (length pcm)) div 4))]" out'] obtain o2 where
      f: "encode_loop 1 lame pcm (int (length pcm) - 16384)
        (?bs @ [Bad_Count (- ((?c + 16384 - int (length pcm)) div 4))]) out' =
        Some (Inr ((?bs @ [Bad_Count (- ((?c + 16384 - int (length pcm)) div 4))]) @ [Flush], o2))"
      unfolding One_nat_def by auto
    show ?thesis unfolding s l f if_not_P [OF False] by (intro exI [of _ o2]) (simp only: append_assoc)
  qed
qed

lemma last_shift:
  fixes n c :: int
  assumes "\<not> 4 dvd n" "4 dvd c"
  shows "c - 4 * ((c + 16384 - n + 3) div 4) + 16384 + n mod 4 = n" "0 < n mod 4" "n mod 4 < 4"
proof -
  obtain k where "c = 4 * k" using assms(2) by (rule dvdE)
  moreover from this have "(c + 16384 - n + 3) div 4 = k + 4096 - n div 4"
  proof (intro int_div_pos_eq [where r = "3 - n mod 4"])
    assume "c = 4 * k"
    moreover have "q * 4 + r = n \<Longrightarrow> 4 * k + 16384 - n + 3 = 4 * (k + 4096 - q) + (3 - r)" for q r by auto
    ultimately show "c + 16384 - n + 3 = 4 * (k + 4096 - n div 4) + (3 - n mod 4)"
      using div_mult_mod_eq [of n 4] by blast
    show "0 \<le> 3 - n mod 4" "3 - n mod 4 < 4" using pos_mod_bound [of 4 n] pos_mod_sign [of 4 n] by linarith+
  qed
  ultimately show "c - 4 * ((c + 16384 - n + 3) div 4) + 16384 + n mod 4 = n"
    using div_mult_mod_eq [of n 4] by simp
  show "0 < n mod 4" "n mod 4 < 4"
    using assms(1) pos_mod_sign [of 4 n] pos_mod_bound [of 4 n] by (simp_all add: dvd_eq_mod_eq_0 order_less_le)
qed

text \<open>Any other length of more than one block keeps the loop going for ever, of less reads outside the text.\<close>
lemma encode_partial:
  assumes "\<forall>cs. 0 \<le> fst (lame cs)" "int (length pcm) < 2 ^ 62" "\<not> 4 dvd length pcm"
  shows "16384 < length pcm \<Longrightarrow> encode_loop (whole_blocks pcm + Suc fuel) lame pcm 0 [] tag = None"
    and "length pcm < 16384 \<Longrightarrow> encode_loop (Suc (Suc fuel)) lame pcm 0 [] tag = Some (Inl Undefined)"
proof -
  let ?n = "int (length pcm)" and ?c = "int (16384 * whole_blocks pcm)"
  have n: "\<not> 4 dvd ?n" using assms(3) int_dvd_int_iff [of 4 "length pcm"] by simp
  have c: "4 dvd ?c" by simp
  have "length pcm \<noteq> 16384 * whole_blocks pcm + 16384"
  proof
    assume "length pcm = 16384 * whole_blocks pcm + 16384"
    then have "length pcm = 4 * (4096 * whole_blocks pcm + 4096)" by simp
    then show False using assms(3) by (metis dvd_triv_left)
  qed
  then have b: "?n < ?c + 16384" "?c \<le> ?n" using whole_blocks_bounds [of pcm] by linarith+
  {
    assume "16384 < length pcm"
    obtain out where s: "encode_loop (whole_blocks pcm + Suc fuel) lame pcm 0 [] tag =
        encode_loop (Suc fuel) lame pcm ?c (map (pcm_block pcm) [0..<whole_blocks pcm]) out"
      using encode_start [OF assms(1,2), of "Suc fuel" tag] by blast
    obtain out' cs where "encode_loop (Suc fuel) lame pcm ?c (map (pcm_block pcm) [0..<whole_blocks pcm]) out =
        encode_loop fuel lame pcm (?c - 4 * ((?c + 16384 - ?n + 3) div 4)) cs out'"
      using encode_last [OF assms(1,2) b, of fuel "map (pcm_block pcm) [0..<whole_blocks pcm]" out] by blast
    moreover have "0 \<le> ?c - 4 * ((?c + 16384 - ?n + 3) div 4)"
    proof -
      have "4096 \<le> ?n div 4" using zdiv_mono1 [of 16384 ?n 4] \<open>16384 < length pcm\<close> by simp
      then show ?thesis using last_shift(1) [OF n c] div_mult_mod_eq [of ?n 4] by linarith
    qed
    ultimately show "encode_loop (whole_blocks pcm + Suc fuel) lame pcm 0 [] tag = None"
      using encode_again [OF assms(1,2) last_shift [OF n c]] s by simp
  next
    assume l: "length pcm < 16384"
    then have z: "whole_blocks pcm = 0" by (simp add: whole_blocks_def)
    let ?d = "- (4 * ((16384 - ?n + 3) div 4))"
    have "4 dvd (0 :: int)" by simp
    note sh = last_shift [OF n this]
    obtain out' cs where o: "encode_loop (Suc (Suc fuel)) lame pcm 0 [] tag = encode_loop (Suc fuel) lame pcm ?d cs out'"
      using encode_last [OF assms(1,2), of 0 "Suc fuel" "[]" tag] b z by auto
    have "?d < 0" using l by linarith
    moreover have "next_read ?d ?n = 4096"
    proof (rule next_read_full)
      have "?n mod 4 \<le> ?n" by (simp add: zmod_le_nonneg_dividend)
      then show "0 \<le> ?d + 16384" "?d + 16384 < ?n" using sh by simp_all
      show "?n < 2 ^ 63" using assms(2) by simp
    qed
    ultimately show "encode_loop (Suc (Suc fuel)) lame pcm 0 [] tag = Some (Inl Undefined)"
      unfolding o by (simp add: encode_loop.simps Let_def)
  }
qed

end
