(* ===== verification/Lame_File.thy ===== *)
theory Lame_File
  imports Lame_Encoder "HOL-Library.Signed_Division"
begin

unbundle bit_operations_syntax

text \<open>
  The files of common/audio/lamehelper.cc: encoding a file of samples, decoding an MP3 file into a WAVE
  file with its header, and the slots of the asynchronous calls.  LAME and its decoder are arguments.
  int and long have 32 bits, as on Windows, where alone this file can be built, and their sums and
  products wrap around.  The percentages handed to the callback are left out.
\<close>

section \<open>Files\<close>

record wfile =
  wf_content :: "8 word list"
  wf_pos :: nat

definition new_file :: wfile where
  "new_file = \<lparr> wf_content = [], wf_pos = 0 \<rparr>"

text \<open>Writing replaces what is there.\<close>
definition write_bytes :: "8 word list \<Rightarrow> wfile \<Rightarrow> wfile" where
  "write_bytes bs f =
     \<lparr> wf_content = take (wf_pos f) (wf_content f) @ bs @ drop (wf_pos f + length bs) (wf_content f),
       wf_pos = wf_pos f + length bs \<rparr>"

definition seek_to :: "nat \<Rightarrow> wfile \<Rightarrow> wfile" where
  "seek_to p f = f\<lparr>wf_pos := p\<rparr>"

datatype lh_message = LH_STARTED | LH_COMPUTED | LH_DONE | LH_ERROR int

definition notify :: "bool \<Rightarrow> lh_message \<Rightarrow> lh_message list" where
  "notify callback m = (if callback then [m] else [])"

section \<open>The header of a WAVE file\<close>

definition low_byte :: "32 word \<Rightarrow> 8 word" where
  "low_byte v = ucast (v AND 0xff)"

definition write_16_bits_low_high :: "32 word \<Rightarrow> wfile \<Rightarrow> wfile" where
  "write_16_bits_low_high v f = write_bytes [low_byte v, low_byte (signed_drop_bit 8 v)] f"

definition write_32_bits_low_high :: "32 word \<Rightarrow> wfile \<Rightarrow> wfile" where
  "write_32_bits_low_high v f =
     write_bytes [low_byte v, low_byte (signed_drop_bit 8 v), low_byte (signed_drop_bit 16 v),
       low_byte (signed_drop_bit 24 v)] f"

definition ascii :: "string \<Rightarrow> 8 word list" where
  "ascii s = map (\<lambda>c. word_of_nat (of_char c)) s"

definition WriteWaveHeader :: "32 word \<Rightarrow> 32 word \<Rightarrow> 32 word \<Rightarrow> 32 word \<Rightarrow> wfile \<Rightarrow> wfile" where
  "WriteWaveHeader pcmbytes freq channels bits f =
     (let bytes = word_of_int (sint (bits + 7) sdiv 8);
          f1 = write_bytes (ascii ''RIFF'') f;
          f2 = write_32_bits_low_high (pcmbytes + 44 - 8) f1;
          f3 = write_bytes (ascii ''WAVEfmt '') f2;
          f4 = write_32_bits_low_high (2 + 2 + 4 + 4 + 2 + 2) f3;
          f5 = write_16_bits_low_high 1 f4;
          f6 = write_16_bits_low_high channels f5;
          f7 = write_32_bits_low_high freq f6;
          f8 = write_32_bits_low_high (freq * channels * bytes) f7;
          f9 = write_16_bits_low_high (channels * bytes) f8;
          f10 = write_16_bits_low_high bits f9;
          f11 = write_bytes (ascii ''data'') f10
      in write_32_bits_low_high pcmbytes f11)"

section \<open>Decoding\<close>

record mp3data =
  md_header_parsed :: int
  md_samplerate :: "32 word"
  md_stereo :: "32 word"

text \<open>What the decoder answers: an error, or the samples of both channels, none when it needs more data; and
  what it knows of the stream.\<close>
record hip_out =
  ho_error :: bool
  ho_frames :: "(16 word \<times> 16 word) list"
  ho_data :: mp3data

definition samples_of :: "hip_out \<Rightarrow> int" where
  "samples_of a = (if ho_error a then -1 else int (length (ho_frames a)))"

record decoding =
  dc_pcm :: wfile
  dc_wavsize :: "32 word"
  dc_nChannels :: "32 word"
  dc_nSampleRate :: "32 word"
  dc_data :: mp3data
  dc_printed :: "string list"
  dc_messages :: "lh_message list"

text \<open>A sample is written as it lies in memory, low byte first; the right one of two channels only.\<close>
definition sample_bytes :: "16 word \<Rightarrow> 8 word list" where
  "sample_bytes v = [ucast v, ucast (drop_bit 8 v)]"

definition frame_bytes :: "32 word \<Rightarrow> 16 word \<times> 16 word \<Rightarrow> 8 word list" where
  "frame_bytes channels lr = sample_bytes (fst lr) @ (if channels = 2 then sample_bytes (snd lr) else [])"

fun write_frames :: "32 word \<Rightarrow> (16 word \<times> 16 word) list \<Rightarrow> wfile \<Rightarrow> wfile" where
  "write_frames channels [] f = f"
| "write_frames channels (lr # lrs) f = write_frames channels lrs (write_bytes (frame_bytes channels lr) f)"

text \<open>What is done with one answer of the decoder, and whether it is asked again.\<close>
definition decode_step :: "bool \<Rightarrow> hip_out \<Rightarrow> decoding \<Rightarrow> bool \<times> decoding" where
  "decode_step callback a d =
     (let m = ho_data a; samples = samples_of a;
          d1 = d\<lparr>dc_wavsize := dc_wavsize d + word_of_int samples, dc_data := m\<rparr>;
          d2 = (if md_header_parsed m = 1
                then (if sint (dc_nChannels d1) < 0
                      then d1\<lparr>dc_pcm := WriteWaveHeader 0x7FFFFFFF (md_samplerate m) (md_stereo m) 16 (dc_pcm d1)\<rparr>
                      else d1)\<lparr>dc_nChannels := md_stereo m, dc_nSampleRate := md_samplerate m\<rparr>
                else d1)
      in if 0 < samples \<and> md_header_parsed m \<noteq> 1
         then (False, d2\<lparr>dc_printed := dc_printed d2 @ [''WARNING: lame decode error occured!'']\<rparr>)
         else (0 < samples,
               d2\<lparr>dc_pcm := write_frames (dc_nChannels d2) (if ho_error a then [] else ho_frames a) (dc_pcm d2),
                  dc_messages := dc_messages d2 @ notify callback LH_COMPUTED\<rparr>))"

text \<open>The loop over what the decoder makes of one chunk: after the first call it is given no more bytes.\<close>
fun decode_chunk ::
  "nat \<Rightarrow> ('h \<Rightarrow> 8 word list \<Rightarrow> hip_out \<times> 'h) \<Rightarrow> bool \<Rightarrow> 'h \<Rightarrow> 8 word list \<Rightarrow> decoding \<Rightarrow> ('h \<times> decoding) option" where
  "decode_chunk 0 hip callback h bs d = None"
| "decode_chunk (Suc fuel) hip callback h bs d =
     (case hip h bs of
        (a, h') \<Rightarrow> (case decode_step callback a d of
                     (again, d') \<Rightarrow> if again then decode_chunk fuel hip callback h' [] d' else Some (h', d')))"

text \<open>The loop over the file, in chunks of \<open>MP3_SIZE\<close>.\<close>
function chunks_of :: "nat \<Rightarrow> 'a list \<Rightarrow> 'a list list" where
  "chunks_of n xs = (if xs = [] \<or> n = 0 then [] else take n xs # chunks_of n (drop n xs))"
  by pat_completeness auto
termination by (relation "measure (length \<circ> snd)") auto

declare chunks_of.simps [simp del]

fun decode_chunks ::
  "nat \<Rightarrow> ('h \<Rightarrow> 8 word list \<Rightarrow> hip_out \<times> 'h) \<Rightarrow> bool \<Rightarrow> 'h \<Rightarrow> 8 word list list \<Rightarrow> decoding \<Rightarrow> ('h \<times> decoding) option" where
  "decode_chunks fuel hip callback h [] d = Some (h, d)"
| "decode_chunks fuel hip callback h (c # cs) d =
     (case decode_chunk fuel hip callback h c d of
        None \<Rightarrow> None
      | Some (h', d') \<Rightarrow> decode_chunks fuel hip callback h' cs d')"

text \<open>The number of bytes for the header, from the number of samples of a channel; the comparison is unsigned.\<close>
definition wave_size :: "32 word \<Rightarrow> 32 word \<Rightarrow> 32 word res" where
  "wave_size wavsize stereo =
     (let i = 2 * stereo
      in if sint wavsize \<le> 0 then Inr 0
         else if i = 0 then Inl Undefined
         else if 0xFFFFFFD0 div i < wavsize then Inr 0xFFFFFFD0
         else Inr (wavsize * i))"

definition no_mp3data :: mp3data where
  "no_mp3data = \<lparr> md_header_parsed = 0, md_samplerate = 0, md_stereo = 0 \<rparr>"

definition new_decoding :: "bool \<Rightarrow> decoding" where
  "new_decoding callback =
     \<lparr> dc_pcm = new_file, dc_wavsize = 0, dc_nChannels = -1, dc_nSampleRate = -1, dc_data = no_mp3data,
       dc_printed = [], dc_messages = notify callback LH_STARTED \<rparr>"

definition quoted :: "string \<Rightarrow> string" where
  "quoted s = [CHR 0x27] @ s @ [CHR 0x27]"

definition cannot_open :: "string \<Rightarrow> string \<Rightarrow> string" where
  "cannot_open name what =
     ''FATAL ERROR: file '' @ quoted name @ '' can'' @ [CHR 0x27] @ ''t be open for '' @ what @ ''. Aborting!'' @ [CHR 0x0A]"

definition no_parameters :: string where
  "no_parameters = ''FATAL ERROR: parameters failed to initialize properly in lame. Aborting!'' @ [CHR 0x0A]"

text \<open>The status, what the callback is told, what is printed, and the WAVE file when it was opened.
  \<open>mp3\<close> is the content of the MP3 file, None when it cannot be opened.\<close>
definition decode ::
  "nat \<Rightarrow> ('h \<Rightarrow> 8 word list \<Rightarrow> hip_out \<times> 'h) \<Rightarrow> 'h \<Rightarrow> bool \<Rightarrow> bool \<Rightarrow> bool \<Rightarrow> bool \<Rightarrow> string \<Rightarrow> string \<Rightarrow>
     8 word list option \<Rightarrow> (int \<times> lh_message list \<times> string list \<times> 8 word list option) res option" where
  "decode fuel hip h0 pcm_opens init_ok seek_ok callback mp3_in pcm_out mp3 =
     (case mp3 of
        None \<Rightarrow> Some (Inr (-1, notify callback (LH_ERROR (-1)), [cannot_open mp3_in ''read''], None))
      | Some content \<Rightarrow>
          if \<not> pcm_opens
          then Some (Inr (-1, notify callback (LH_ERROR (-1)), [cannot_open pcm_out ''write''], None))
          else if \<not> init_ok
          then Some (Inr (-2, notify callback (LH_ERROR (-2)), [no_parameters], Some []))
          else map_option (\<lambda>(h, d). mapR (\<lambda>size.
                 (0, dc_messages d @ notify callback LH_DONE,
                  dc_printed d @ (if seek_ok then []
                    else [''WARNING: can'' @ [CHR 0x27] @ ''t seek back to adjust length in wave header!'']),
                  Some (wf_content (if seek_ok
                    then WriteWaveHeader size (md_samplerate (dc_data d)) (md_stereo (dc_data d)) 16 (seek_to 0 (dc_pcm d))
                    else dc_pcm d))))
                 (wave_size (dc_wavsize d) (md_stereo (dc_data d))))
               (decode_chunks fuel hip callback h0 (chunks_of 4096 content) (new_decoding callback)))"

section \<open>Encoding\<close>

text \<open>The result of putting the picture of an album into the tag: 0 when there is none to put or LAME took it.
  \<open>file\<close> is the content of the file, None when it cannot be opened.\<close>
definition set_id3_albumart ::
  "(8 word list \<Rightarrow> bool) \<Rightarrow> bool \<Rightarrow> bool \<Rightarrow> string option \<Rightarrow> 8 word list option \<Rightarrow> int \<times> string list" where
  "set_id3_albumart lame_fails enough_memory read_ok file_name file =
     (case file_name of
        None \<Rightarrow> (0, [])
      | Some name \<Rightarrow>
          (case file of
             None \<Rightarrow> (1, [''WARNING: could not find file '' @ quoted name @ '' for albumart.'' @ [CHR 0x0A]])
           | Some bytes \<Rightarrow>
               if \<not> enough_memory
               then (2, [''WARNING: insufficient memory for reading the albumart.'' @ [CHR 0x0A]])
               else if \<not> read_ok
               then (3, [''WARNING: read error in '' @ quoted name @ '' for albumart.'' @ [CHR 0x0A]])
               else if lame_fails bytes
               then (4, [''WARNING: unsupported image: '' @ quoted name @
                 '' for albumart. Specify JPEG/PNG/GIF image'' @ [CHR 0x0A]])
               else (0, [])))"

text \<open>The loop over the file of samples: four bytes make a sample of both channels, an incomplete one at the
  end is not read.  A negative answer makes fwrite read far outside its buffer.\<close>
function encode_samples ::
  "(lame_input list \<Rightarrow> int \<times> 8 word list) \<Rightarrow> bool \<Rightarrow> 8 word list \<Rightarrow> lame_input list \<Rightarrow> lh_message list \<Rightarrow> wfile \<Rightarrow>
     (lame_input list \<times> lh_message list \<times> wfile) res" where
  "encode_samples lame callback rest calls ms mp3 =
     (let read = min 4096 (length rest div 4);
          calls' = calls @ [if read = 0 then Flush else Block (take (4 * read) rest)]
      in case lame calls' of
           (write, mp3_buffer) \<Rightarrow>
             if write < 0 \<or> int (length mp3_buffer) < write then Inl Undefined
             else let mp3' = write_bytes (take (nat write) mp3_buffer) mp3; ms' = ms @ notify callback LH_COMPUTED
                  in if read = 0 then Inr (calls', ms', mp3')
                     else encode_samples lame callback (drop (4 * read) rest) calls' ms' mp3')"
  by pat_completeness auto
termination by (relation "measure (\<lambda>(lame, callback, rest, calls, ms, mp3). length rest)") (auto simp: min_def)

declare encode_samples.simps [simp del]

text \<open>The MP3 file: the tag, the encoded samples, the old tag, and the frame with the length of the
  stream written over the start of the samples.  The files are opened both before either is
  tested.  \<open>pcm\<close> is the content of the file of samples, \<open>art\<close> what putting in the picture has printed.\<close>
definition encode_x ::
  "(lame_call list \<Rightarrow> bool) \<Rightarrow> settings \<Rightarrow> string list \<Rightarrow> (lame_input list \<Rightarrow> int \<times> 8 word list) \<Rightarrow>
     8 word list \<Rightarrow> 8 word list \<Rightarrow> 8 word list \<Rightarrow> bool \<Rightarrow> bool \<Rightarrow> bool \<Rightarrow> string \<Rightarrow> string \<Rightarrow> 8 word list option \<Rightarrow>
     (int \<times> lh_message list \<times> string list \<times> lame_input list \<times> 8 word list option) res" where
  "encode_x init_ok s art lame id3v2_tag id3v1_tag lametag_frame mp3_opens seek_ok callback pcm_in mp3_out pcm =
     (if \<not> init_ok (configure_lame_file s)
      then Inr (-2, notify callback (LH_ERROR (-2)), art @ [no_parameters], [], None)
      else case pcm of
        None \<Rightarrow> Inr (-1, notify callback (LH_ERROR (-1)), art @ [cannot_open pcm_in ''read''], [],
                  if mp3_opens then Some [] else None)
      | Some content \<Rightarrow>
          if \<not> mp3_opens
          then Inr (-1, notify callback (LH_ERROR (-1)), art @ [cannot_open mp3_out ''write''], [], None)
          else let f = write_bytes id3v2_tag new_file; audio_pos = wf_pos f
               in mapR (\<lambda>(calls, ms, f1).
                    let f2 = write_bytes id3v1_tag f1;
                        f3 = write_bytes lametag_frame (if seek_ok then seek_to audio_pos f2 else f2)
                    in (0, ms @ notify callback LH_DONE,
                        if seek_ok then art
                        else art @ [''WARNING: can'' @ [CHR 0x27] @ ''t seek back to update LAME-tag frame!'' @ [CHR 0x0A]],
                        calls, Some (wf_content f3)))
                  (encode_samples lame callback content [] (notify callback LH_STARTED) f))"

section \<open>Asynchronous calls\<close>

text \<open>A slot for a thread: never used, or its thread runs, or has finished.\<close>
datatype slot = Unused | Running | Finished

abbreviation MAX_THREAD_COUNT :: nat where "MAX_THREAD_COUNT \<equiv> 5"

definition new_slots :: "slot list" where
  "new_slots = replicate MAX_THREAD_COUNT Unused"

datatype async_result = Thread_In nat | Thread_Failed | No_Thread_Left

text \<open>The first slot whose thread does not run; \<open>created\<close> tells whether the thread could be created.  No free
  slot gives -3.\<close>
fun start_async :: "bool \<Rightarrow> nat \<Rightarrow> slot list \<Rightarrow> async_result \<times> slot list" where
  "start_async created i [] = (No_Thread_Left, [])"
| "start_async created i (s # ss) =
     (if s \<noteq> Running then (if created then (Thread_In i, Running # ss) else (Thread_Failed, Unused # ss))
      else (case start_async created (Suc i) ss of (r, ss') \<Rightarrow> (r, s # ss')))"

section \<open>Facts\<close>

definition file_ok :: "wfile \<Rightarrow> bool" where
  "file_ok f = (wf_pos f \<le> length (wf_content f))"

lemma write_bytes_append:
  "file_ok f \<Longrightarrow> write_bytes bs (write_bytes as f) = write_bytes (as @ bs) f"
  by (auto simp: write_bytes_def file_ok_def min_def add.commute add.left_commute)

lemma file_ok_write: "file_ok f \<Longrightarrow> file_ok (write_bytes bs f)"
  by (auto simp: write_bytes_def file_ok_def)

lemma write_at_end:
  "wf_pos f = length (wf_content f) \<Longrightarrow>
   wf_content (write_bytes bs f) = wf_content f @ bs \<and> wf_pos (write_bytes bs f) = length (wf_content (write_bytes bs f))"
  by (simp add: write_bytes_def)

text \<open>The bytes of the header.\<close>
definition bytes32 :: "32 word \<Rightarrow> 8 word list" where
  "bytes32 v = [low_byte v, low_byte (signed_drop_bit 8 v), low_byte (signed_drop_bit 16 v), low_byte (signed_drop_bit 24 v)]"

definition bytes16 :: "32 word \<Rightarrow> 8 word list" where
  "bytes16 v = [low_byte v, low_byte (signed_drop_bit 8 v)]"

definition wave_header :: "32 word \<Rightarrow> 32 word \<Rightarrow> 32 word \<Rightarrow> 8 word list" where
  "wave_header pcmbytes freq channels =
     ascii ''RIFF'' @ bytes32 (36 + pcmbytes) @ ascii ''WAVEfmt '' @ bytes32 16 @ bytes16 1 @ bytes16 channels @
     bytes32 freq @ bytes32 (freq * channels * 2) @ bytes16 (channels * 2) @ bytes16 16 @ ascii ''data'' @ bytes32 pcmbytes"

lemma length_wave_header: "length (wave_header p q c) = 44"
  by (simp add: wave_header_def bytes32_def bytes16_def ascii_def)

lemma WriteWaveHeader_bytes:
  "file_ok f \<Longrightarrow> WriteWaveHeader p q c 16 f = write_bytes (wave_header p q c) f"
proof -
  assume f: "file_ok f"
  have two: "word_of_int (sint (16 + 7 :: 32 word) sdiv 8) = (2 :: 32 word)" by code_simp
  have "p + 44 - 8 = 36 + p" by simp
  then show ?thesis
    by (simp add: WriteWaveHeader_def write_32_bits_low_high_def write_16_bits_low_high_def write_bytes_append f
      file_ok_write wave_header_def bytes32_def bytes16_def two Let_def)
qed

text \<open>Reading little-endian numbers.\<close>
definition le16 :: "8 word list \<Rightarrow> 32 word" where
  "le16 bs = (case bs of [a, b] \<Rightarrow> ucast a OR push_bit 8 (ucast b) | _ \<Rightarrow> 0)"

definition le32 :: "8 word list \<Rightarrow> 32 word" where
  "le32 bs = (case bs of [a, b, c, d] \<Rightarrow>
     ucast a OR push_bit 8 (ucast b) OR push_bit 16 (ucast c) OR push_bit 24 (ucast d) | _ \<Rightarrow> 0)"

lemma low_byte_ucast: "low_byte v = ucast v"
proof -
  have "v AND 0xff = take_bit 8 v" by (simp add: take_bit_eq_mask mask_eq_exp_minus_1)
  moreover have "(ucast (take_bit 8 v) :: 8 word) = ucast v" by (rule bit_word_eqI) (simp add: bit_simps)
  ultimately show ?thesis by (simp add: low_byte_def)
qed

lemma le32_bytes32: "le32 (bytes32 v) = v"
proof (rule bit_word_eqI)
  fix n :: nat
  assume n: "n < LENGTH(32)"
  consider "n < 8" | "8 \<le> n" "n < 16" | "16 \<le> n" "n < 24" | "24 \<le> n" "n < 32" using n by fastforce
  then show "bit (le32 (bytes32 v)) n \<longleftrightarrow> bit v n"
    by cases (auto simp: le32_def bytes32_def low_byte_ucast bit_simps)
qed

lemma le16_bytes16: "v < 65536 \<Longrightarrow> le16 (bytes16 v) = v"
proof (rule bit_word_eqI)
  fix n :: nat
  assume v: "v < 65536" and n: "n < LENGTH(32)"
  have "uint v < 2 ^ 16" using v by (simp add: word_less_def)
  then have "uint (take_bit 16 v) = uint v" by (simp add: unsigned_take_bit_eq take_bit_int_eq_self)
  then have "v = take_bit 16 v" by (metis word_uint_eqI)
  then have h: "bit v n \<Longrightarrow> n < 16" by (metis bit_take_bit_iff)
  consider "n < 8" | "8 \<le> n" "n < 16" | "16 \<le> n" by fastforce
  then show "bit (le16 (bytes16 v)) n \<longleftrightarrow> bit v n"
    using h n by cases (auto simp: le16_def bytes16_def low_byte_ucast bit_simps)
qed

subsection \<open>What the decoder is seen to do\<close>

text \<open>The answers of a decoder that is given a chunk, and asked again while it has samples.\<close>
inductive drains :: "('h \<Rightarrow> 8 word list \<Rightarrow> hip_out \<times> 'h) \<Rightarrow> 'h \<Rightarrow> 8 word list \<Rightarrow> hip_out list \<Rightarrow> 'h \<Rightarrow> bool"
  for hip where
  last: "hip h bs = (a, h') \<Longrightarrow> ho_error a \<or> ho_frames a = [] \<Longrightarrow> drains hip h bs [a] h'"
| more: "hip h bs = (a, h1) \<Longrightarrow> \<not> ho_error a \<Longrightarrow> ho_frames a \<noteq> [] \<Longrightarrow> md_header_parsed (ho_data a) = 1 \<Longrightarrow>
         drains hip h1 [] as h' \<Longrightarrow> drains hip h bs (a # as) h'"

inductive drains_all ::
  "('h \<Rightarrow> 8 word list \<Rightarrow> hip_out \<times> 'h) \<Rightarrow> 'h \<Rightarrow> 8 word list list \<Rightarrow> hip_out list \<Rightarrow> 'h \<Rightarrow> bool" for hip where
  none: "drains_all hip h [] [] h"
| chunk: "drains hip h c as h1 \<Longrightarrow> drains_all hip h1 cs bs h' \<Longrightarrow> drains_all hip h (c # cs) (as @ bs) h'"

lemma decode_chunk_drains:
  "drains hip h bs as h' \<Longrightarrow> length as \<le> fuel \<Longrightarrow>
   decode_chunk fuel hip cb h bs d = Some (h', fold (\<lambda>a d. snd (decode_step cb a d)) as d)"
proof (induction arbitrary: fuel d rule: drains.induct)
  case (last h bs a h')
  then obtain n where n: "fuel = Suc n" by (cases fuel) auto
  have "\<not> fst (decode_step cb a d)" using last(2) by (auto simp: decode_step_def samples_of_def Let_def)
  then show ?case using last(1) by (cases "decode_step cb a d") (simp add: n)
next
  case (more h bs a h1 as h')
  then obtain n where n: "fuel = Suc n" by (cases fuel) auto
  have "fst (decode_step cb a d)" using more(2,3,4) by (simp add: decode_step_def samples_of_def Let_def)
  then show ?case using more by (cases "decode_step cb a d") (simp add: n)
qed

lemma decode_chunks_drains:
  "drains_all hip h cs as h' \<Longrightarrow> length as \<le> fuel \<Longrightarrow>
   decode_chunks fuel hip cb h cs d = Some (h', fold (\<lambda>a d. snd (decode_step cb a d)) as d)"
  by (induction arbitrary: d rule: drains_all.induct) (simp_all add: decode_chunk_drains)

lemma write_frames_bytes:
  "file_ok f \<Longrightarrow> write_frames c lrs f = (if lrs = [] then f else write_bytes (concat (map (frame_bytes c) lrs)) f)"
  by (induction c lrs f rule: write_frames.induct) (auto simp: file_ok_write write_bytes_append)

text \<open>The samples of an answer as bytes.\<close>
definition out_bytes :: "32 word \<Rightarrow> hip_out \<Rightarrow> 8 word list" where
  "out_bytes c a = (if ho_error a then [] else concat (map (frame_bytes c) (ho_frames a)))"

definition at_end :: "wfile \<Rightarrow> bool" where
  "at_end f = (wf_pos f = length (wf_content f))"

lemma at_end_ok: "at_end f \<Longrightarrow> file_ok f" by (simp add: at_end_def file_ok_def)

lemma write_frames_end:
  assumes "at_end f"
  shows "wf_content (write_frames c (if ho_error a then [] else ho_frames a) f) = wf_content f @ out_bytes c a"
    "at_end (write_frames c (if ho_error a then [] else ho_frames a) f)"
  using assms write_at_end [of f] by (simp_all add: write_frames_bytes at_end_ok out_bytes_def at_end_def)

text \<open>The state before the header is known, after \<open>k\<close> answers.\<close>
lemma decode_before:
  "\<forall>a \<in> set as. md_header_parsed (ho_data a) \<noteq> 1 \<and> \<not> ho_error a \<and> ho_frames a = [] \<Longrightarrow>
   \<exists>m. fold (\<lambda>a d. snd (decode_step cb a d)) as d =
     d\<lparr>dc_data := m, dc_messages := dc_messages d @ concat (replicate (length as) (notify cb LH_COMPUTED))\<rparr>"
proof (induction "as" arbitrary: d)
  case Nil
  then show ?case by (intro exI [of _ "dc_data d"]) simp
next
  case (Cons a as)
  let ?d = "d\<lparr>dc_data := ho_data a, dc_messages := dc_messages d @ notify cb LH_COMPUTED\<rparr>"
  have a: "md_header_parsed (ho_data a) \<noteq> 1" "\<not> ho_error a" "ho_frames a = []" using Cons.prems by simp_all
  then have s: "snd (decode_step cb a d) = ?d" by (simp add: decode_step_def samples_of_def Let_def)
  have "\<forall>a \<in> set as. md_header_parsed (ho_data a) \<noteq> 1 \<and> \<not> ho_error a \<and> ho_frames a = []" using Cons.prems by simp
  from Cons.IH [OF this, of ?d] obtain m where e: "fold (\<lambda>a d. snd (decode_step cb a d)) as ?d =
     ?d\<lparr>dc_data := m, dc_messages := dc_messages ?d @ concat (replicate (length as) (notify cb LH_COMPUTED))\<rparr>" by blast
  have "fold (\<lambda>a d. snd (decode_step cb a d)) (a # as) d = fold (\<lambda>a d. snd (decode_step cb a d)) as ?d"
    by (simp add: s)
  also note e
  also have "?d\<lparr>dc_data := m, dc_messages := dc_messages ?d @ concat (replicate (length as) (notify cb LH_COMPUTED))\<rparr> =
     d\<lparr>dc_data := m, dc_messages := dc_messages d @ concat (replicate (length (a # as)) (notify cb LH_COMPUTED))\<rparr>"
    by simp
  finally show ?case by blast
qed

text \<open>The state from the header on.\<close>
definition decoded :: "bool \<Rightarrow> mp3data \<Rightarrow> 8 word list \<Rightarrow> int \<Rightarrow> lh_message list \<Rightarrow> string list \<Rightarrow> decoding \<Rightarrow> bool" where
  "decoded cb m bytes n ms ps d =
     (wf_content (dc_pcm d) = wave_header 0x7FFFFFFF (md_samplerate m) (md_stereo m) @ bytes \<and> at_end (dc_pcm d) \<and>
      dc_wavsize d = word_of_int n \<and> dc_nChannels d = md_stereo m \<and> dc_data d = m \<and> dc_messages d = ms \<and>
      dc_printed d = ps)"

lemma decode_first:
  assumes "ho_data a = m" "md_header_parsed m = 1" "dc_pcm d = new_file" "dc_nChannels d = -1" "dc_wavsize d = 0"
  shows "decoded cb m (out_bytes (md_stereo m) a) (samples_of a) (dc_messages d @ notify cb LH_COMPUTED) (dc_printed d)
     (snd (decode_step cb a d))"
proof -
  let ?h = "wave_header 0x7FFFFFFF (md_samplerate m) (md_stereo m)"
  let ?f = "WriteWaveHeader 0x7FFFFFFF (md_samplerate m) (md_stereo m) 16 new_file"
  have f: "wf_content ?f = ?h" "at_end ?f"
    using write_at_end [of new_file ?h]
    by (simp_all add: WriteWaveHeader_bytes file_ok_def new_file_def at_end_def)
  have "sint (-1 :: 32 word) < 0" by simp
  then have "snd (decode_step cb a d) = d\<lparr>dc_wavsize := word_of_int (samples_of a), dc_data := m,
      dc_nChannels := md_stereo m, dc_nSampleRate := md_samplerate m,
      dc_pcm := write_frames (md_stereo m) (if ho_error a then [] else ho_frames a) ?f,
      dc_messages := dc_messages d @ notify cb LH_COMPUTED\<rparr>"
    using assms by (simp add: decode_step_def Let_def)
  then show ?thesis using write_frames_end [OF f(2), of "md_stereo m" a] f(1) by (simp add: decoded_def)
qed

lemma decode_later:
  assumes "decoded cb m bytes n ms ps d" "ho_data a = m" "md_header_parsed m = 1" "0 \<le> sint (md_stereo m)"
  shows "decoded cb m (bytes @ out_bytes (md_stereo m) a) (n + samples_of a) (ms @ notify cb LH_COMPUTED) ps
     (snd (decode_step cb a d))"
proof -
  have "snd (decode_step cb a d) = d\<lparr>dc_wavsize := word_of_int n + word_of_int (samples_of a), dc_data := m,
      dc_nChannels := md_stereo m, dc_nSampleRate := md_samplerate m,
      dc_pcm := write_frames (md_stereo m) (if ho_error a then [] else ho_frames a) (dc_pcm d),
      dc_messages := ms @ notify cb LH_COMPUTED\<rparr>"
    using assms by (simp add: decode_step_def decoded_def Let_def)
  moreover have "at_end (dc_pcm d)" using assms(1) by (simp add: decoded_def)
  ultimately show ?thesis
    using write_frames_end [of "dc_pcm d" "md_stereo m" a] assms(1) by (simp add: decoded_def)
qed

lemma decode_rest:
  "decoded cb m bytes n ms ps d \<Longrightarrow> \<forall>a \<in> set as. ho_data a = m \<Longrightarrow> md_header_parsed m = 1 \<Longrightarrow> 0 \<le> sint (md_stereo m) \<Longrightarrow>
   decoded cb m (bytes @ concat (map (out_bytes (md_stereo m)) as)) (n + sum_list (map samples_of as))
     (ms @ concat (replicate (length as) (notify cb LH_COMPUTED))) ps (fold (\<lambda>a d. snd (decode_step cb a d)) as d)"
proof (induction "as" arbitrary: bytes n ms d)
  case (Cons a as)
  have "decoded cb m (bytes @ out_bytes (md_stereo m) a) (n + samples_of a) (ms @ notify cb LH_COMPUTED) ps
     (snd (decode_step cb a d))"
    using decode_later [OF Cons.prems(1)] Cons.prems by simp
  from Cons.IH [OF this] Cons.prems show ?case by (simp add: add.assoc)
qed simp

text \<open>The size in the header.\<close>
lemma wave_size_small:
  assumes "0 < n" "n < 2147483648" "c = 1 \<or> c = 2" "n * 2 * c \<le> 4294967248"
  shows "wave_size (word_of_int n) (word_of_int c) = Inr (word_of_int (n * 2 * c))"
proof -
  have s: "sint (word_of_int n :: 32 word) = n" using assms(1,2) by (simp add: int_word_sint)
  have u: "uint (word_of_int n :: 32 word) = n" using assms(1,2) by (simp add: uint_word_of_int)
  have "\<not> (0xFFFFFFD0 div (2 * word_of_int c) < (word_of_int n :: 32 word)) \<and> (2 * word_of_int c :: 32 word) \<noteq> 0"
    using assms(3) u assms(4) by (elim disjE) (simp_all add: word_less_def uint_div)
  moreover have "word_of_int n * (2 * word_of_int c :: 32 word) = word_of_int (n * 2 * c)" by simp
  ultimately show ?thesis using s assms(1) by (simp add: wave_size_def Let_def)
qed

text \<open>All answers, those before the header and those from it on.\<close>
lemma decode_state:
  assumes "\<forall>u \<in> set us. md_header_parsed (ho_data u) \<noteq> 1 \<and> \<not> ho_error u \<and> ho_frames u = []" "as \<noteq> []"
    and "\<forall>a \<in> set as. ho_data a = m" "md_header_parsed m = 1" "0 \<le> sint (md_stereo m)"
  shows "\<exists>ms. decoded cb m (concat (map (out_bytes (md_stereo m)) as)) (sum_list (map samples_of as)) ms []
     (fold (\<lambda>a d. snd (decode_step cb a d)) (us @ as) (new_decoding cb))"
proof -
  let ?f = "\<lambda>a d. snd (decode_step cb a d)"
  obtain a bs where ab: "as = a # bs" using assms(2) by (cases "as") auto
  define d0 where "d0 = fold ?f us (new_decoding cb)"
  have d0: "dc_pcm d0 = new_file" "dc_nChannels d0 = -1" "dc_wavsize d0 = 0" "dc_printed d0 = []"
    using decode_before [OF assms(1), of cb "new_decoding cb"]
    unfolding d0_def by (elim exE, simp only: decoding.simps new_decoding_def)+
  have "ho_data a = m" using assms(3) ab by simp
  from decode_first [OF this assms(4) d0(1,2,3), of cb]
  have first: "decoded cb m (out_bytes (md_stereo m) a) (samples_of a) (dc_messages d0 @ notify cb LH_COMPUTED) [] (?f a d0)"
    by (simp add: d0(4))
  have "\<forall>b \<in> set bs. ho_data b = m" using assms(3) ab by simp
  from decode_rest [OF first this assms(4,5)] show ?thesis by (auto simp: ab d0_def)
qed

lemma length_out_bytes:
  assumes "c = 1 \<or> c = 2"
  shows "int (length (concat (map (out_bytes (word_of_int c)) as))) =
     (sum_list (map samples_of as) + int (length (filter ho_error as))) * 2 * c"
proof -
  have f: "int (length (concat (map (frame_bytes (word_of_int c)) fs))) = int (length fs) * 2 * c" for fs
    using assms by (induction fs) (auto simp: frame_bytes_def sample_bytes_def)
  have "int (length (out_bytes (word_of_int c) b)) = (samples_of b + (if ho_error b then 1 else 0)) * 2 * c" for b
    using f by (simp add: out_bytes_def samples_of_def)
  then show ?thesis by (induction "as") (simp_all add: algebra_simps)
qed

lemma wave_header_fields:
  assumes "c = 1 \<or> c = 2"
  shows "le16 (take 2 (drop 22 (wave_header p q (word_of_int c) @ xs))) = word_of_int c"
    "le32 (take 4 (drop 24 (wave_header p q (word_of_int c) @ xs))) = q"
    "le32 (take 4 (drop 40 (wave_header p q (word_of_int c) @ xs))) = p"
proof -
  have l: "length (ascii ''RIFF'') = 4" "length (ascii ''WAVEfmt '') = 8" "length (ascii ''data'') = 4"
    "\<And>v. length (bytes32 v) = 4" "\<And>v. length (bytes16 v) = 2"
    by (simp_all add: ascii_def bytes32_def bytes16_def)
  have "(word_of_int c :: 32 word) < 65536" using assms by auto
  then show "le16 (take 2 (drop 22 (wave_header p q (word_of_int c) @ xs))) = word_of_int c"
    by (simp add: wave_header_def l le16_bytes16)
  show "le32 (take 4 (drop 24 (wave_header p q (word_of_int c) @ xs))) = q"
    "le32 (take 4 (drop 40 (wave_header p q (word_of_int c) @ xs))) = p"
    by (simp_all add: wave_header_def l le32_bytes32)
qed

subsection \<open>Encoding a file\<close>

text \<open>The samples LAME was given.\<close>
fun given :: "lame_input list \<Rightarrow> 8 word list" where
  "given [] = []"
| "given (Block bs # cs) = bs @ given cs"
| "given (_ # cs) = given cs"

lemma given_append: "given (xs @ ys) = given xs @ given ys"
  by (induction xs rule: given.induct) simp_all

text \<open>The bytes LAME left for each call of a run.\<close>
definition answered :: "(lame_input list \<Rightarrow> int \<times> 8 word list) \<Rightarrow> lame_input list \<Rightarrow> 8 word list" where
  "answered lame calls = take (nat (fst (lame calls))) (snd (lame calls))"

definition all_answers :: "(lame_input list \<Rightarrow> int \<times> 8 word list) \<Rightarrow> lame_input list \<Rightarrow> 8 word list" where
  "all_answers lame calls = concat (map (\<lambda>k. answered lame (take (Suc k) calls)) [0..<length calls])"

lemma all_answers_snoc: "all_answers lame (calls @ [c]) = all_answers lame calls @ answered lame (calls @ [c])"
proof -
  have "map (\<lambda>k. answered lame (take (Suc k) (calls @ [c]))) [0..<length calls] =
      map (\<lambda>k. answered lame (take (Suc k) calls)) [0..<length calls]" by (intro map_cong) auto
  moreover have "[0..<length (calls @ [c])] = [0..<length calls] @ [length calls]" by simp
  ultimately show ?thesis unfolding all_answers_def by (simp only: map_append concat_append) simp
qed

text \<open>An answer that fits its buffer.\<close>
definition lame_ok :: "(lame_input list \<Rightarrow> int \<times> 8 word list) \<Rightarrow> bool" where
  "lame_ok lame = (\<forall>cs. 0 \<le> fst (lame cs) \<and> fst (lame cs) \<le> int (length (snd (lame cs))))"

lemma lame_okD: "lame_ok lame \<Longrightarrow> lame cs = (w, b) \<Longrightarrow> 0 \<le> w \<and> w \<le> int (length b)"
  unfolding lame_ok_def by (metis fst_conv snd_conv)

lemma encode_samples_ok:
  "lame_ok lame \<Longrightarrow> at_end mp3 \<Longrightarrow> wf_content mp3 = pre @ all_answers lame calls \<Longrightarrow>
     \<exists>calls' ms' mp3'. encode_samples lame callback rest calls ms mp3 = Inr (calls', ms', mp3') \<and> at_end mp3' \<and>
       wf_content mp3' = pre @ all_answers lame calls' \<and>
       given calls' = given calls @ take (4 * (length rest div 4)) rest \<and> last calls' = Flush \<and>
       set calls' \<subseteq> set calls \<union> {Flush} \<union> range Block"
proof (induction lame callback rest calls ms mp3 rule: encode_samples.induct)
  case (1 lame callback rest calls ms mp3)
  define r where "r = min 4096 (length rest div 4)"
  define now where "now = calls @ [if r = 0 then Flush else Block (take (4 * r) rest)]"
  obtain w b where l: "lame now = (w, b)" by force
  have w: "\<not> (w < 0 \<or> int (length b) < w)" using lame_okD [OF 1(2) l] by linarith
  let ?mp3 = "write_bytes (take (nat w) b) mp3" and ?ms = "ms @ notify callback LH_COMPUTED"
  have f: "at_end ?mp3" "wf_content ?mp3 = pre @ all_answers lame now"
    using write_at_end [of mp3 "take (nat w) b"] 1(3,4) l by (simp_all add: at_end_def now_def all_answers_snoc answered_def)
  have step: "encode_samples lame callback rest calls ms mp3 =
     (if r = 0 then Inr (now, ?ms, ?mp3) else encode_samples lame callback (drop (4 * r) rest) now ?ms ?mp3)"
    unfolding encode_samples.simps [of lame callback rest calls ms mp3] Let_def r_def [symmetric] now_def [symmetric] l
    using w by simp
  show ?case
  proof (cases "r = 0")
    case True
    then have "length rest div 4 = 0" by (simp add: r_def)
    then show ?thesis unfolding step using f True by (auto simp: given_append now_def)
  next
    case False
    from 1(1) [OF r_def now_def l [symmetric] w refl refl False 1(2) f] obtain calls' ms' mp3' where
      e: "encode_samples lame callback (drop (4 * r) rest) now ?ms ?mp3 = Inr (calls', ms', mp3')" "at_end mp3'"
        "wf_content mp3' = pre @ all_answers lame calls'"
        "given calls' = given now @ take (4 * (length (drop (4 * r) rest) div 4)) (drop (4 * r) rest)"
        "last calls' = Flush" "set calls' \<subseteq> set now \<union> {Flush} \<union> range Block" by blast
    have "given now @ take (4 * (length (drop (4 * r) rest) div 4)) (drop (4 * r) rest) =
        given calls @ take (4 * r + 4 * ((length rest - 4 * r) div 4)) rest"
      using False by (simp add: given_append take_add now_def)
    also have "4 * r + 4 * ((length rest - 4 * r) div 4) = 4 * (length rest div 4)"
    proof -
      have "r \<le> length rest div 4" by (simp add: r_def)
      then have "4 * r \<le> length rest" by linarith
      then obtain m where "length rest = 4 * r + m" by (metis le_Suc_ex)
      then show ?thesis by simp
    qed
    finally have "given calls' = given calls @ take (4 * (length rest div 4)) rest" using e(4) by simp
    moreover have "set calls' \<subseteq> set calls \<union> {Flush} \<union> range Block" using e(6) False by (auto simp: now_def)
    ultimately show ?thesis unfolding step if_not_P [OF False] using e(1,2,3,5) by blast
  qed
qed

subsection \<open>Slots\<close>

text \<open>A thread is started in the first slot that is not running, and no other slot is touched.\<close>
lemma start_async_result:
  "start_async created i ss = (r, ss') \<Longrightarrow>
   (if \<forall>s \<in> set ss. s = Running then r = No_Thread_Left \<and> ss' = ss
    else \<exists>k < length ss. ss ! k \<noteq> Running \<and> (\<forall>j < k. ss ! j = Running) \<and>
      r = (if created then Thread_In (i + k) else Thread_Failed) \<and> ss' = ss[k := if created then Running else Unused])"
proof (induction ss arbitrary: i r ss')
  case (Cons s ss)
  show ?case
  proof (cases "s = Running")
    case True
    obtain r2 ss2 where e: "start_async created (Suc i) ss = (r2, ss2)" by force
    note IH = Cons.IH [OF e]
    have "r = r2" "ss' = s # ss2" using Cons.prems True e by simp_all
    show ?thesis
    proof (cases "\<forall>s \<in> set ss. s = Running")
      case True
      then show ?thesis using IH \<open>r = r2\<close> \<open>ss' = s # ss2\<close> \<open>s = Running\<close> by simp
    next
      case False
      then obtain k where "k < length ss" "ss ! k \<noteq> Running" "\<forall>j < k. ss ! j = Running"
        "r2 = (if created then Thread_In (Suc i + k) else Thread_Failed)" "ss2 = ss[k := if created then Running else Unused]"
        using IH unfolding if_not_P [OF False] by blast
      then have "Suc k < length (s # ss)" "(s # ss) ! Suc k \<noteq> Running" "\<forall>j < Suc k. (s # ss) ! j = Running"
        "r = (if created then Thread_In (i + Suc k) else Thread_Failed)"
        "ss' = (s # ss)[Suc k := if created then Running else Unused]"
        using \<open>r = r2\<close> \<open>ss' = s # ss2\<close> \<open>s = Running\<close> by (simp_all add: nth_Cons split: nat.split)
      then show ?thesis using False by auto
    qed
  qed (use Cons.prems in \<open>auto split: if_splits\<close>)
qed simp

end
