(* ===== verification/Client_Interface.thy ===== *)
theory Client_Interface
  imports Application Storm_Manager Timer
begin

text \<open>
  The C interface of the library (src/dot_net_interface.cc): the global application, and the exported
  functions that hand their arguments to it, to the subscriber manager and to the namespace.  A C string is
  None when the pointer is null, and building a std::string from it is then undefined.  Where a function
  can wait for a mutex its result holds an option: None while it waits.  The trace it prints is left out.
\<close>

section \<open>The state\<close>

text \<open>The pointer \<open>app\<close>: null, to an application, or to one that has been deleted.\<close>
datatype app_ptr = No_App | Live application | Deleted

record 'd client =
  cl_app :: app_ptr
  cl_storm :: storm_manager          \<comment> \<open>the subscriber manager\<close>
  cl_objects :: "'d manager"

definition to_string :: "string option \<Rightarrow> string res" where
  "to_string s = (case s of None \<Rightarrow> Inl Undefined | Some t \<Rightarrow> Inr t)"

text \<open>A call through the pointer without a test.\<close>
definition the_app :: "'d client \<Rightarrow> application res" where
  "the_app s = (case cl_app s of No_App \<Rightarrow> Inl Null_Deref | Live ap \<Rightarrow> Inr ap | Deleted \<Rightarrow> Inl Undefined)"

text \<open>A call behind \<open>if (app != NULL)\<close>.\<close>
definition if_app :: "(application \<Rightarrow> application res) \<Rightarrow> 'd client \<Rightarrow> 'd client res" where
  "if_app f s =
     (case cl_app s of
        No_App \<Rightarrow> Inr s
      | Live ap \<Rightarrow> mapR (\<lambda>ap'. s\<lparr>cl_app := Live ap'\<rparr>) (f ap)
      | Deleted \<Rightarrow> Inl Undefined)"

section \<open>Start and end\<close>

text \<open>The XML configuration is always asked for: the constructor's third argument is left out.\<close>
definition IckCoreInit :: "bool \<Rightarrow> bool \<Rightarrow> 'd client \<Rightarrow> 'd client" where
  "IckCoreInit isServer isLoadConfig s = s\<lparr>cl_app := Live (new_application isServer isLoadConfig True)\<rparr>"

text \<open>The status of main is dropped; an exception that main does not catch goes on.\<close>
definition IckCoreStartUp ::
  "nat \<Rightarrow> string \<Rightarrow> flags \<Rightarrow> (string \<Rightarrow> string option) \<Rightarrow> (app_action \<Rightarrow> 'd client \<Rightarrow> 'd client res) \<Rightarrow>
     'd client \<Rightarrow> 'd client option res" where
  "IckCoreStartUp fuel cwd fl file perform s =
     bindR (the_app s) (\<lambda>ap.
       case app_actions fuel cwd fl file ap of
         None \<Rightarrow> Inr None
       | Some (_, ap') \<Rightarrow>
           (case app_run fuel cwd fl file perform ap (s\<lparr>cl_app := Live ap'\<rparr>) of
              None \<Rightarrow> Inr None
            | Some (Status _, s') \<Rightarrow> Inr (Some s')
            | Some (Terminated e, _) \<Rightarrow> Inl e))"

text \<open>The destructor stops a thread that was never started (\<open>joined\<close>: whether joining it worked) and shuts the
  namespace down.  The pointer keeps its value.\<close>
definition IckCoreShutDown :: "platform \<Rightarrow> bool \<Rightarrow> 'd client \<Rightarrow> 'd client res" where
  "IckCoreShutDown p joined s =
     (case cl_app s of
        No_App \<Rightarrow> Inr s
      | Deleted \<Rightarrow> Inl Undefined
      | Live ap \<Rightarrow>
          bindR (thread_stop p joined new_thread) (\<lambda>_.
          bindR (shutdownNamespace (cl_objects s)) (\<lambda>_. Inr (s\<lparr>cl_app := Deleted\<rparr>))))"

section \<open>Objects, subscriptions and services\<close>

definition RegisterObject ::
  "(string \<times> ctrl_object option) list \<Rightarrow> nat \<Rightarrow> string option \<Rightarrow> string option \<Rightarrow> 'd client \<Rightarrow> 'd client res" where
  "RegisterObject classList fresh className fullName s =
     bindR (to_string className) (\<lambda>c.
     bindR (to_string fullName) (\<lambda>n.
     mapR (\<lambda>m. s\<lparr>cl_objects := m\<rparr>) (registerByClass classList fresh c n (cl_objects s))))"

text \<open>The overload of the subscriber manager it calls has its body commented out and returns true.\<close>
definition Subscribe :: "string option \<Rightarrow> nat option \<Rightarrow> 'd client \<Rightarrow> 'd client res" where
  "Subscribe fullName subscriber s =
     mapR (\<lambda>n. s\<lparr>cl_storm := snd (clone_subscriber_remote n subscriber (cl_storm s))\<rparr>) (to_string fullName)"

text \<open>What a call to the manager leaves; a thrown text goes on.\<close>
definition after_call ::
  "(call_result \<times> storm_manager) option \<Rightarrow> 'd client \<Rightarrow> 'd client option res" where
  "after_call r s =
     (case r of
        None \<Rightarrow> Inr None
      | Some (Throws msg, _) \<Rightarrow> Inl (Throw msg)
      | Some (_, m) \<Rightarrow> Inr (Some (s\<lparr>cl_storm := m\<rparr>)))"

definition SubscribeWithCallBack ::
  "platform \<Rightarrow> nat \<Rightarrow> string option \<Rightarrow> nat option \<Rightarrow> 'd client \<Rightarrow> 'd client option res" where
  "SubscribeWithCallBack p t fullName callback s =
     bindR (to_string fullName) (\<lambda>n.
     bindR (the_app s) (\<lambda>ap.
       if \<not> ap_isNetworkLan ap then after_call (clone_subscriber_callback p t n callback (cl_storm s)) s
       else after_call (clone_subscriber_object p t (channelPath n) callback (cl_storm s)) s))"

text \<open>The parameters are printed, as a std::string, before the test for null; the body of runService is
  commented out.\<close>
definition RunService ::
  "string option \<Rightarrow> string option \<Rightarrow> string option \<Rightarrow> 'd client \<Rightarrow> 'd client res" where
  "RunService objectName serviceName params s =
     bindR (to_string objectName) (\<lambda>_.
     bindR (to_string serviceName) (\<lambda>_.
     bindR (to_string params) (\<lambda>_. if_app Inr s)))"

definition Unsubscribe :: "string option \<Rightarrow> 'd client \<Rightarrow> 'd client res" where
  "Unsubscribe fullName s =
     mapR (\<lambda>n. s\<lparr>cl_storm := snd (clone_unsubscriber n (cl_storm s))\<rparr>) (to_string fullName)"

text \<open>Both branches of the test for the network do the same.\<close>
definition AddNodeInfoCallBack :: "nat option \<Rightarrow> 'd client \<Rightarrow> 'd client res" where
  "AddNodeInfoCallBack callback s =
     mapR (\<lambda>_. s\<lparr>cl_objects := addNodeInfoCallBack callback (cl_objects s)\<rparr>) (the_app s)"

definition GetNodeInfoList :: "string option \<Rightarrow> 'd client \<Rightarrow> 'd client res" where
  "GetNodeInfoList node s =
     mapR (\<lambda>n. s\<lparr>cl_storm := clone_getNodeInfoList n (cl_storm s)\<rparr>) (to_string node)"

section \<open>Settings\<close>

definition client_setNetworkType :: "bool \<Rightarrow> 'd client \<Rightarrow> 'd client res" where
  "client_setNetworkType isNetworkLan = if_app (\<lambda>ap. Inr (setNetworkType isNetworkLan ap))"

definition setIckServiceEndpoint :: "string option \<Rightarrow> 'd client \<Rightarrow> 'd client res" where
  "setIckServiceEndpoint endpoint = if_app (\<lambda>ap. mapR (\<lambda>e. setServiceEndPoint e ap) (to_string endpoint))"

definition setIckSubscriberEndpoint :: "string option \<Rightarrow> 'd client \<Rightarrow> 'd client res" where
  "setIckSubscriberEndpoint endpoint = if_app (\<lambda>ap. mapR (\<lambda>e. setSubscriberEndpoint e ap) (to_string endpoint))"

definition setIckTopicManagerEndpoint :: "string option \<Rightarrow> 'd client \<Rightarrow> 'd client res" where
  "setIckTopicManagerEndpoint endpoint = if_app (\<lambda>ap. mapR (\<lambda>e. setTopicManagerEndPoint e ap) (to_string endpoint))"

definition setIckSubscriberListener :: "string option \<Rightarrow> int \<Rightarrow> 'd client \<Rightarrow> 'd client res" where
  "setIckSubscriberListener host port =
     if_app (\<lambda>ap. mapR (\<lambda>h. setSubscriberListener h port ap) (to_string host))"

definition setIckServiceListener :: "string option \<Rightarrow> int \<Rightarrow> 'd client \<Rightarrow> 'd client res" where
  "setIckServiceListener host port =
     if_app (\<lambda>ap. mapR (\<lambda>h. setServiceListener h port ap) (to_string host))"

section \<open>Performing the actions of a start\<close>

text \<open>The actions the interface's state knows; the others, which open sockets and read files, are \<open>other\<close>.\<close>
definition perform_client ::
  "(app_action \<Rightarrow> 'd client \<Rightarrow> 'd client res) \<Rightarrow> app_action \<Rightarrow> 'd client \<Rightarrow> 'd client res" where
  "perform_client other a s =
     (case a of
        SetNamespaceInterval i \<Rightarrow> Inr (s\<lparr>cl_objects := om_setInterval i (cl_objects s)\<rparr>)
      | UseSubscriberSocket \<Rightarrow> Inr (s\<lparr>cl_storm := clone_setIckStormSubscriberSocket True (cl_storm s)\<rparr>)
      | _ \<Rightarrow> other a s)"

text \<open>The other actions succeed and leave the pointer and the manager alone.\<close>
definition others_succeed :: "(app_action \<Rightarrow> 'd client \<Rightarrow> 'd client res) \<Rightarrow> bool" where
  "others_succeed other =
     (\<forall>a s. \<exists>s'. other a s = Inr s' \<and> cl_app s' = cl_app s \<and> cl_storm s' = cl_storm s)"

lemma perform_client_step:
  assumes "others_succeed other"
  shows "\<exists>s'. perform_client other a s = Inr s' \<and> cl_app s' = cl_app s \<and>
     cl_storm s' = (if a = UseSubscriberSocket then (cl_storm s)\<lparr>sm_socket := True\<rparr> else cl_storm s)"
  using assms by (cases a) (auto simp: perform_client_def others_succeed_def clone_setIckStormSubscriberSocket_def
      setIckStormSubscriberSocket_def)

lemma perform_client_run:
  assumes "others_succeed other"
  shows "\<exists>s'. run_actions (perform_client other) as s = (None, s') \<and> cl_app s' = cl_app s \<and>
     cl_storm s' = (if UseSubscriberSocket \<in> set as then (cl_storm s)\<lparr>sm_socket := True\<rparr> else cl_storm s)"
proof (induction "as" arbitrary: s)
  case (Cons a as)
  obtain s1 where s1: "perform_client other a s = Inr s1" "cl_app s1 = cl_app s"
    "cl_storm s1 = (if a = UseSubscriberSocket then (cl_storm s)\<lparr>sm_socket := True\<rparr> else cl_storm s)"
    using perform_client_step [OF assms] by blast
  then show ?case using Cons.IH [of s1] by auto
qed simp

text \<open>A start whose actions succeed.\<close>
lemma start_up_succeeds:
  assumes "others_succeed other" "app_actions fuel cwd fl file ap = Some (as, ap')" "cl_app s = Live ap"
  shows "\<exists>s'. IckCoreStartUp fuel cwd fl file (perform_client other) s = Inr (Some s') \<and> cl_app s' = Live ap' \<and>
     cl_storm s' = (if UseSubscriberSocket \<in> set as then (cl_storm s)\<lparr>sm_socket := True\<rparr> else cl_storm s)"
proof -
  obtain s' where "run_actions (perform_client other) as (s\<lparr>cl_app := Live ap'\<rparr>) = (None, s')" "cl_app s' = Live ap'"
    "cl_storm s' = (if UseSubscriberSocket \<in> set as then (cl_storm s)\<lparr>sm_socket := True\<rparr> else cl_storm s)"
    using perform_client_run [OF assms(1), of "as" "s\<lparr>cl_app := Live ap'\<rparr>"] by auto
  then show ?thesis using assms(2,3) by (simp add: IckCoreStartUp_def the_app_def app_run_def)
qed

text \<open>What the start of a client without a configuration file comes to.\<close>
lemma client_start_actions:
  assumes "config_directory fuel cwd (fl_config fl) = Some dir" "\<not> ap_isServer ap" "\<not> ap_isLoadIniConfig ap"
    "ap_isSubscriberEnable ap"
  shows "\<exists>as. app_actions fuel cwd fl file ap = Some (as, ap) \<and>
     (UseSubscriberSocket \<in> set as \<longleftrightarrow> \<not> ap_isNetworkLan ap)"
  using assms by (auto simp: app_actions_def client_actions_def client_network_def app_network_lan_def enabled_def
      bool_text_def Let_def)

end
