(* ===== verification/Storm_System.thy ===== *)
theory Storm_System
  imports Publication
begin

text \<open>
  The composition of a server and one of its clients: the scan of the server's namespace
  (src/object_manager.cc), the subscription socket on both sides
  (src/ick_storm_subscriber_socket.cc) and the connection between them, as a step relation over the
  state of both programs and the messages under way.  A step is one object of the server's scan, one
  write of the server's program, one round of the client's requests, or the handling of one message;
  the order is arbitrary.  The two directions of the connection keep the order of the messages and
  lose none; what the server has sent to the client's socket so far is kept by the model of send.
\<close>

section \<open>The state\<close>

text \<open>\<open>sy_log\<close> goes with the texts sent to the client: an update is entered as the point was when it was
  sent, any other text as None.  It records; no step depends on it.\<close>
record 'd system =
  sy_server :: "'d sub_socket"
  sy_client :: "'d sub_socket"
  sy_requests :: "string list"               \<comment> \<open>messages on the way to the server\<close>
  sy_log :: "'d any_data option list"
  sy_handled :: nat                           \<comment> \<open>how many of the texts the client has handled\<close>

text \<open>What the server has sent to the socket \<open>s\<close>.\<close>
definition inbox :: "nat \<Rightarrow> 'd sub_socket \<Rightarrow> string list" where
  "inbox s st = map snd (filter (\<lambda>e. fst e = s) (net_sent (sk_net st)))"

definition log_sent ::
  "nat \<Rightarrow> 'd any_data option \<Rightarrow> 'd sub_socket \<Rightarrow> 'd sub_socket \<Rightarrow> 'd any_data option list \<Rightarrow>
     'd any_data option list" where
  "log_sent s x before after lg = lg @ replicate (length (inbox s after) - length (inbox s before)) x"

text \<open>The messages of the texts the client's round has put on the wire.\<close>
definition requests_of :: "string \<Rightarrow> string list" where
  "requests_of t = (case split t '';'' of Inr ms \<Rightarrow> ms | Inl _ \<Rightarrow> [])"

definition new_requests :: "'d sub_socket \<Rightarrow> 'd sub_socket \<Rightarrow> string list" where
  "new_requests before after =
     concat (map (\<lambda>e. requests_of (snd e)) (drop (length (net_sent (sk_net before))) (net_sent (sk_net after))))"

section \<open>The server's program and its scan\<close>

text \<open>What a program does to a point: setValue of a writable one, setSimulatedValue of another.\<close>
datatype 'd set_value = SetInt int | SetDouble 'd | SetString string

fun set_point ::
  "('d \<Rightarrow> 'd \<Rightarrow> bool) \<Rightarrow> int writer \<Rightarrow> 'd writer \<Rightarrow> string writer \<Rightarrow> 'd set_value \<Rightarrow> 'd any_data \<Rightarrow>
     'd any_data option" where
  "set_point differs wi wd ws (SetInt v) (RWI p) = Some (RWI (ReadWriteInt_setValue wi v p))"
| "set_point differs wi wd ws (SetDouble v) (RWD p) = Some (RWD (ReadWriteDouble_setValue differs wd v p))"
| "set_point differs wi wd ws (SetString v) (RWS p) = Some (RWS (ReadWriteString_setValue ws v p))"
| "set_point differs wi wd ws (SetInt v) (ROI p) =
     (case ReadOnlyInt_setSimulatedValue v p of Inr q \<Rightarrow> Some (ROI q) | Inl _ \<Rightarrow> None)"
| "set_point differs wi wd ws (SetDouble v) (ROD p) =
     (case ReadOnlyDouble_setSimulatedValue v p of Inr q \<Rightarrow> Some (ROD q) | Inl _ \<Rightarrow> None)"
| "set_point differs wi wd ws (SetString v) (ROS p) =
     (case ReadOnlyString_setSimulatedValue v p of Inr q \<Rightarrow> Some (ROS q) | Inl _ \<Rightarrow> None)"
| "set_point differs wi wd ws _ _ = None"

definition put_point :: "nat \<Rightarrow> 'd any_data \<Rightarrow> 'd sub_socket \<Rightarrow> 'd sub_socket" where
  "put_point d a st = st\<lparr>sk_mgr := (sk_mgr st)\<lparr>om_data_store := om_put d a (om_data_store (sk_mgr st))\<rparr>\<rparr>"

text \<open>One object of the scan: it is read; when it is changed and the socket is among its subscribers, the
  socket's update sends it; then the mark of the change is cleared.\<close>
definition scan_publish ::
  "('d \<Rightarrow> string) \<Rightarrow> 'd \<Rightarrow> ('d \<Rightarrow> 'd \<Rightarrow> bool) \<Rightarrow> int reader \<Rightarrow> 'd reader \<Rightarrow> string reader \<Rightarrow> nat \<Rightarrow> int \<Rightarrow>
     nat \<Rightarrow> 'd any_data \<Rightarrow> 'd sub_socket \<Rightarrow> 'd sub_socket res" where
  "scan_publish print zero differs ri rd rs self now d a st =
     (let st1 = put_point d (scan_read differs ri rd rs a) st
      in mapR (put_point d (snd (scan_one differs ri rd rs a)))
           (if (self, scan_read differs ri rd rs a) \<in> set (fst (scan_one differs ri rd rs a))
            then sk_update print zero now d st1 else Inr st1))"

text \<open>A point whose text survives the wire.\<close>
definition point_clean :: "(string \<Rightarrow> 'd) \<Rightarrow> ('d \<Rightarrow> string) \<Rightarrow> 'd any_data \<Rightarrow> bool" where
  "point_clean atof print a =
     (let n = ud_fullName (the_ud a)
      in wire_ok atof print a \<and> name_clean n \<and> hd n = CHR ''/'' \<and> n \<noteq> ''/'' \<and> length n < CHANNEL_MAX_LENGTH)"

section \<open>Steps\<close>

text \<open>The server is asked for its node lists by other clients only: their pages carry the names of all
  nodes.\<close>
inductive system_step ::
  "('d \<Rightarrow> string) \<Rightarrow> (string \<Rightarrow> 'd) \<Rightarrow> 'd \<Rightarrow> ('d \<Rightarrow> 'd \<Rightarrow> bool) \<Rightarrow> nat \<Rightarrow> nat \<Rightarrow> nat \<Rightarrow>
     'd system \<Rightarrow> 'd system \<Rightarrow> bool"
  for print atof zero differs self s c where
  scan: "om_find (om_data_store (sk_mgr (sy_server y))) d = Some a \<Longrightarrow>
    ((self, scan_read differs ri rd rs a) \<in> set (fst (scan_one differs ri rd rs a)) \<longrightarrow>
       point_clean atof print (scan_read differs ri rd rs a)) \<Longrightarrow>
    scan_publish print zero differs ri rd rs self now d a (sy_server y) = Inr sv \<Longrightarrow>
    system_step print atof zero differs self s c y
      (y\<lparr>sy_server := sv, sy_log := log_sent s (Some (scan_read differs ri rd rs a)) (sy_server y) sv (sy_log y)\<rparr>)"
| set_value: "om_find (om_data_store (sk_mgr (sy_server y))) d = Some a \<Longrightarrow>
    set_point differs wi wd ws v a = Some a' \<Longrightarrow>
    system_step print atof zero differs self s c y (y\<lparr>sy_server := put_point d a' (sy_server y)\<rparr>)"
| subscribe: "system_step print atof zero differs self s c y
    (y\<lparr>sy_client := sk_subscribe n (sy_client y)\<rparr>)"
| request: "subscribeChannelHandler now c (sy_client y) = (ok, cl) \<Longrightarrow>
    system_step print atof zero differs self s c y
      (y\<lparr>sy_client := cl, sy_requests := sy_requests y @ new_requests (sy_client y) cl\<rparr>)"
| serve: "sy_requests y = m # ms \<Longrightarrow> split m '':'' = Inr tmp \<Longrightarrow>
    tmp ! 0 \<notin> {''ChannelList'', ''ServiceList''} \<Longrightarrow>
    server_message self now (Some s) m (sy_server y) = Inr (out, sv) \<Longrightarrow>
    system_step print atof zero differs self s c y
      (y\<lparr>sy_server := sv, sy_requests := ms, sy_log := log_sent s None (sy_server y) sv (sy_log y)\<rparr>)"
| serve_other: "t \<noteq> s \<Longrightarrow> server_message self now (Some t) m (sy_server y) = Inr (out, sv) \<Longrightarrow>
    system_step print atof zero differs self s c y (y\<lparr>sy_server := sv\<rparr>)"
| handle: "sy_handled y < length (inbox s (sy_server y)) \<Longrightarrow>
    inbox s (sy_server y) ! sy_handled y = msg @ '';'' \<Longrightarrow>
    \<not> om_has (om_data_store (sk_mgr (sy_client y))) fresh \<Longrightarrow>
    client_message atof zero differs wi wd ws fresh msg (sy_client y) = Inr cl \<Longrightarrow>
    system_step print atof zero differs self s c y
      (y\<lparr>sy_client := cl, sy_handled := sy_handled y + 1\<rparr>)"

inductive_cases system_stepE: "system_step print atof zero differs self s c y y'"

text \<open>The client starts without objects, and nothing has been sent to it.\<close>
definition system_start :: "nat \<Rightarrow> 'd system \<Rightarrow> bool" where
  "system_start s y =
     (om_ok (om_data_store (sk_mgr (sy_server y))) \<and> net_raw (sk_net (sy_server y)) = [] \<and> inbox s (sy_server y) = [] \<and>
      manager_ok (sk_mgr (sy_client y)) \<and> om_datas (sk_mgr (sy_client y)) = [] \<and>
      om_entites (sk_mgr (sy_client y)) = [] \<and>
      sy_requests y = [] \<and> sy_log y = [] \<and> sy_handled y = 0)"

inductive system_reach ::
  "('d \<Rightarrow> string) \<Rightarrow> (string \<Rightarrow> 'd) \<Rightarrow> 'd \<Rightarrow> ('d \<Rightarrow> 'd \<Rightarrow> bool) \<Rightarrow> nat \<Rightarrow> nat \<Rightarrow> nat \<Rightarrow> 'd system \<Rightarrow> bool"
  for print atof zero differs self s c where
  start: "system_start s y \<Longrightarrow> system_reach print atof zero differs self s c y"
| step: "system_reach print atof zero differs self s c y \<Longrightarrow>
    system_step print atof zero differs self s c y y' \<Longrightarrow> system_reach print atof zero differs self s c y'"

section \<open>What the client should hold\<close>

text \<open>The states of a point that were sent, oldest first, and the client's copy of it.\<close>
definition sent_of :: "string \<Rightarrow> 'd any_data option list \<Rightarrow> 'd any_data list" where
  "sent_of n lg = filter (\<lambda>a. ud_fullName (the_ud a) = n) (List.map_filter id lg)"

definition copy_of :: "string \<Rightarrow> 'd sub_socket \<Rightarrow> 'd any_data option" where
  "copy_of n st =
     (case data_ref (getObject n (sk_mgr st)) of
        None \<Rightarrow> None
      | Some i \<Rightarrow> om_find (om_data_store (sk_mgr st)) i)"

text \<open>The copy shows a value: it is of its type and holds it, a double up to the accuracy.\<close>
definition shows_value :: "('d \<Rightarrow> 'd \<Rightarrow> bool) \<Rightarrow> 'd value_info \<Rightarrow> 'd value_info \<Rightarrow> bool" where
  "shows_value differs v w =
     (vi_accessMode w = READWRITE \<and> vi_dataType w = vi_dataType v \<and> vi_iValue w = vi_iValue v \<and>
      vi_sValue w = vi_sValue v \<and> (vi_dValue w = vi_dValue v \<or> \<not> differs (vi_dValue w) (vi_dValue v)))"

definition copy_ok :: "'d \<Rightarrow> ('d \<Rightarrow> 'd \<Rightarrow> bool) \<Rightarrow> 'd any_data list \<Rightarrow> 'd any_data option \<Rightarrow> bool" where
  "copy_ok zero differs as b =
     (case b of
        None \<Rightarrow> as = []
      | Some b' \<Rightarrow> as \<noteq> [] \<and>
          (if length as = 1 then value_of zero b' = arrived zero (last as)
           else shows_value differs (value_of zero (last as)) (value_of zero b')))"


section \<open>Texts that change nothing in the client\<close>

lemma split_loop_head:
  assumes "c \<notin> set f" "split_loop [c] (f @ c # r) = Inr tmp"
  shows "tmp \<noteq> [] \<and> hd tmp = f"
proof -
  have "str_find (f @ c # r) [c] = Some (length f)" by (rule str_find_single [OF assms(1)])
  then show ?thesis using assms(2)
    by (subst (asm) split_loop.simps) (auto simp: str_substr_def res_simps split: if_splits)
qed

text \<open>The first field of a text that has one.\<close>
lemma split_head:
  assumes "c \<notin> set f" "f \<noteq> []" "hd f \<noteq> CHR '' ''" "c \<noteq> CHR '' ''" "split (f @ c # r) [c] = Inr tmp"
  shows "tmp \<noteq> [] \<and> hd tmp = f"
proof -
  let ?sp = "\<lambda>x. x = CHR '' ''"
  have front: "dropWhile ?sp (f @ c # r) = f @ c # r" using assms(2,3) by (cases f) auto
  have bk: "dropWhile ?sp (rev (f @ c # r)) = dropWhile ?sp (rev r) @ c # rev f"
    using assms(4) by (auto simp: dropWhile_append)
  have "\<not> (\<forall>x \<in> set (f @ c # r). ?sp x)" using assms(4) by auto
  then have "trim (f @ c # r) = Inr (f @ c # rev (dropWhile ?sp (rev r)))"
    unfolding trim_eq front bk by simp
  then have "split_loop [c] (f @ c # rev (dropWhile ?sp (rev r))) = Inr tmp"
    using assms(5) by (simp add: split_def)
  then show ?thesis by (rule split_loop_head [OF assms(1)])
qed

text \<open>What the server answers to anything but a request for a list.\<close>
definition reply_text :: "string \<Rightarrow> bool" where
  "reply_text t = (\<exists>f r. f \<in> {''Subscribe'', ''Unsubscribe'', ''RunService''} \<and> t = f @ CHR '':'' # r @ '';'')"

lemma reply_texts:
  "reply_text (''Subscribe:Success:'' @ n @ '';'')" "reply_text (''Unsubscribe:Success:'' @ n @ '';'')"
  "reply_text (''RunService:Success:'' @ n @ '';'')"
  unfolding reply_text_def
  by (rule exI [of _ "''Subscribe''"] exI [of _ "''Unsubscribe''"] exI [of _ "''RunService''"],
      rule exI [of _ "''Success:'' @ n"], simp)+

lemma client_reply:
  assumes "reply_text (msg @ '';'')" "client_message atof zero differs wi wd ws fresh msg cl = Inr cl'"
  shows "sk_mgr cl' = sk_mgr cl"
proof -
  obtain f r where f: "f \<in> {''Subscribe'', ''Unsubscribe'', ''RunService''}" "msg = f @ CHR '':'' # r"
    using assms(1) by (auto simp: reply_text_def)
  from assms(2) obtain tmp where tmp: "split msg '':'' = Inr tmp"
    by (auto simp: client_message_def res_simps)
  have "tmp \<noteq> [] \<and> hd tmp = f"
    by (rule split_head [of "CHR '':''" f r]) (use f tmp in auto)
  then have "tmp ! 0 \<notin> {''Update'', ''ChannelList''}" using f(1) by (auto simp: hd_conv_nth)
  then show ?thesis using assms(2)
    by (auto simp: client_message_def tmp client_confirm_def split: if_splits option.splits)
qed

section \<open>What the server sends\<close>

text \<open>All that is sent goes to one socket and is of one kind, and sending goes on working.\<close>
definition sends_text :: "nat \<Rightarrow> (string \<Rightarrow> bool) \<Rightarrow> 'd sub_socket \<Rightarrow> 'd sub_socket \<Rightarrow> bool" where
  "sends_text t P st st' =
     (net_raw (sk_net st) = [] \<longrightarrow> net_raw (sk_net st') = [] \<and>
        (\<exists>xs. net_sent (sk_net st') = net_sent (sk_net st) @ map (Pair t) xs \<and> (\<forall>x \<in> set xs. P x)))"

lemma sends_refl: "sk_net st' = sk_net st \<Longrightarrow> sends_text t P st st'"
  by (auto simp: sends_text_def)

lemma sends_trans: "sends_text t P a b \<Longrightarrow> sends_text t P b c \<Longrightarrow> sends_text t P a c"
proof -
  assume ab: "sends_text t P a b" and bc: "sends_text t P b c"
  show ?thesis unfolding sends_text_def
  proof (intro impI)
    assume "net_raw (sk_net a) = []"
    then obtain xs where xs: "net_raw (sk_net b) = []" "net_sent (sk_net b) = net_sent (sk_net a) @ map (Pair t) xs"
      "\<forall>x \<in> set xs. P x" using ab by (auto simp: sends_text_def)
    then obtain ys where "net_raw (sk_net c) = []" "net_sent (sk_net c) = net_sent (sk_net b) @ map (Pair t) ys"
      "\<forall>x \<in> set ys. P x" using bc by (auto simp: sends_text_def)
    then show "net_raw (sk_net c) = [] \<and>
        (\<exists>xs. net_sent (sk_net c) = net_sent (sk_net a) @ map (Pair t) xs \<and> (\<forall>x \<in> set xs. P x))"
      using xs by (intro conjI exI [of _ "xs @ ys"]) auto
  qed
qed

lemma sends_send: "P d \<Longrightarrow> sk_send d (Some t) st = (r, st') \<Longrightarrow> sends_text t P st st'"
  by (auto simp: sends_text_def sk_send_def isocket_send_def intro!: exI [of _ "[d]"])

lemma sends_reply: "P d \<Longrightarrow> server_reply d (Some t) st = (out, st') \<Longrightarrow> sends_text t P st st'"
  by (auto simp: server_reply_def sends_send split: prod.splits if_splits)

lemma subscribe_names_net: "sk_net (subscribe_names self now sock ns st) = sk_net st"
proof (induction ns arbitrary: st)
  case (Cons n ns)
  obtain ok st1 where o: "subscribe_one self now sock n st = (ok, st1)" by force
  then have "sk_net st1 = sk_net st" by (auto simp: subscribe_one_def split: option.splits)
  then show ?case using Cons o by simp
qed simp

lemma addSubscribe_net: "sk_addSubscribe self now sock n st = Inr st' \<Longrightarrow> sk_net st' = sk_net st"
  by (auto simp: sk_addSubscribe_def subscribe_names_net simp del: subscribe_names.simps split: if_splits)

lemma sends_page_loop:
  "page_loop (Some t) header ns index strTmp sendData st = (failed, x, y, st') \<Longrightarrow> sends_text t (\<lambda>_. True) st st'"
proof (induction ns arbitrary: index strTmp sendData st)
  case (Cons n ns)
  show ?case
  proof (cases "index < 10")
    case True
    then show ?thesis using Cons.IH Cons.prems by simp
  next
    case False
    obtain r st1 where s: "sk_send (sendData @ convertToString 10 @ '':'' @ strTmp) (Some t) st = (r, st1)" by force
    have 1: "sends_text t (\<lambda>_. True) st st1" by (rule sends_send [OF _ s]) simp
    show ?thesis
    proof (cases "r < 0")
      case True
      then show ?thesis using Cons.prems False s 1 by simp
    next
      case False
      then have "page_loop (Some t) header ns 1 n header st1 = (failed, x, y, st')"
        using Cons.prems s \<open>\<not> index < 10\<close> by simp
      then show ?thesis by (rule sends_trans [OF 1 Cons.IH])
    qed
  qed
qed (simp add: sends_refl)

lemma sends_list:
  assumes "server_list kind nodes (Some t) node st = (out, st')"
  shows "sends_text t (\<lambda>_. True) st st'"
proof -
  let ?h = "kind @ '':'' @ node @ '':'' @ convertToString (int (length (nodes node (sk_mgr st)))) @ '':''"
  obtain failed x y st1 where p: "page_loop (Some t) ?h (nodes node (sk_mgr st)) 0 [] ?h st = (failed, x, y, st1)"
    by (metis prod_cases4)
  note 1 = sends_page_loop [OF p]
  obtain r2 st2 where 2: "sk_send y (Some t) st1 = (r2, st2)" by force
  obtain r3 st3 where 3: "sk_send y (Some t) st2 = (r3, st3)" by force
  have "sends_text t (\<lambda>_. True) st1 st2" "sends_text t (\<lambda>_. True) st2 st3"
    by (auto intro: sends_send [OF _ 2] sends_send [OF _ 3])
  then have "sends_text t (\<lambda>_. True) st st2" "sends_text t (\<lambda>_. True) st st3" using 1 by (blast intro: sends_trans)+
  then show ?thesis using assms 1 p 2 3 by (auto simp: server_list_def Let_def split: if_splits)
qed

lemma server_run_sends: "server_run (Some t) tmp st = (out, st') \<Longrightarrow> sends_text t reply_text st st'"
proof -
  assume run: "server_run (Some t) tmp st = (out, st')"
  let ?d = "''RunService:Success:'' @ tmp ! 1 @ '':'' @ tmp ! 2 @ '';''"
  obtain r st1 where s: "sk_send ?d (Some t) st = (r, st1)" by force
  have "reply_text ?d" using reply_texts(3) [of "tmp ! 1 @ '':'' @ tmp ! 2"] by simp
  then have 1: "sends_text t reply_text st st1" by (rule sends_send [OF _ s])
  have "sk_net st' = sk_net st1" using run s
    by (auto simp: server_run_def Let_def split: if_splits option.splits object_ref.splits)
  then show ?thesis by (rule sends_trans [OF 1 sends_refl])
qed


lemma sends_mono: "sends_text t P st st' \<Longrightarrow> (\<And>x. P x \<Longrightarrow> Q x) \<Longrightarrow> sends_text t Q st st'"
  unfolding sends_text_def by blast

text \<open>Everything a message of a client makes the server send goes back to that client.\<close>
lemma server_message_sends:
  assumes "server_message self now (Some t) m st = Inr (out, st')" "split m '':'' = Inr tmp"
  shows "sends_text t (\<lambda>x. tmp ! 0 \<in> {''ChannelList'', ''ServiceList''} \<or> reply_text x) st st'"
proof -
  let ?P = "\<lambda>x. tmp ! 0 \<in> {''ChannelList'', ''ServiceList''} \<or> reply_text x"
  have none: "sends_text t ?P st st'" if "Inr (Continue, st) = (Inr (out, st') :: (outcome \<times> 'a sub_socket) res)"
    using that by (simp add: sends_refl)
  have sub: "sends_text t ?P st st'"
    if "mapR (server_reply (''Subscribe:Success:'' @ tmp ! 1 @ '';'') (Some t)) (sk_addSubscribe self now (Some t) (tmp ! 1) st) =
      Inr (out, st')"
  proof -
    from that obtain st1 where 1: "sk_addSubscribe self now (Some t) (tmp ! 1) st = Inr st1"
      "server_reply (''Subscribe:Success:'' @ tmp ! 1 @ '';'') (Some t) st1 = (out, st')" by (auto simp: res_simps)
    have "sends_text t ?P st1 st'" using sends_reply [OF _ 1(2), of ?P] reply_texts(1) by blast
    then show ?thesis by (rule sends_trans [OF sends_refl [OF addSubscribe_net [OF 1(1)]]])
  qed
  have unsub: "sends_text t ?P st st'"
    if "Inr (server_reply (''Unsubscribe:Success:'' @ tmp ! 1 @ '';'') (Some t) st) = (Inr (out, st') :: (outcome \<times> 'a sub_socket) res)"
    using sends_reply [of ?P _ t st out st'] reply_texts(2) that by blast
  have run: "sends_text t ?P st st'" if "Inr (server_run (Some t) tmp st) = (Inr (out, st') :: (outcome \<times> 'a sub_socket) res)"
    by (rule sends_mono [OF server_run_sends]) (use that in auto)
  have lists: "sends_text t ?P st st'"
    if "tmp ! 0 \<in> {''ChannelList'', ''ServiceList''}"
      "Inr (server_list kind nodes (Some t) (tmp ! 1) st) = (Inr (out, st') :: (outcome \<times> 'a sub_socket) res)" for kind nodes
    by (rule sends_mono [OF sends_list]) (use that in auto)
  let ?is = "\<lambda>k w. k < length tmp \<and> tmp ! 0 = w"
  note m = assms(1) [unfolded server_message_def assms(2) bindR.simps]
  show ?thesis
  proof (cases "?is 0 ''HeartBeat''")
    case True
    then show ?thesis using m none by (simp only: if_True simp_thms)
  next
    case a: False
    note m = m [unfolded if_not_P [OF a]]
    show ?thesis
    proof (cases "?is 1 ''Subscribe''")
      case True
      then show ?thesis using m sub by (simp only: if_True simp_thms)
    next
      case b: False
      note m = m [unfolded if_not_P [OF b]]
      show ?thesis
      proof (cases "?is 1 ''Unsubscribe''")
        case True
        then show ?thesis using m unsub by (simp only: if_True simp_thms)
      next
        case c: False
        note m = m [unfolded if_not_P [OF c]]
        show ?thesis
          by (cases "?is 2 ''RunService''"; cases "?is 2 ''ChannelList''"; cases "?is 2 ''ServiceList''")
            (use m run none lists in \<open>force\<close>)+
      qed
    qed
  qed
qed

lemma inbox_sends:
  assumes "sends_text t P st st'" "net_raw (sk_net st) = []"
  shows "net_raw (sk_net st') = [] \<and>
    (\<exists>xs. inbox s st' = inbox s st @ xs \<and> (\<forall>x \<in> set xs. P x) \<and> (t \<noteq> s \<longrightarrow> xs = []))"
proof -
  obtain xs where xs: "net_raw (sk_net st') = []" "net_sent (sk_net st') = net_sent (sk_net st) @ map (Pair t) xs"
    "\<forall>x \<in> set xs. P x" using assms by (auto simp: sends_text_def)
  have "inbox s st' = inbox s st @ (if t = s then xs else [])"
    by (simp add: inbox_def xs(2) filter_map comp_def)
  then show ?thesis using xs(1,3) by (intro conjI exI [of _ "if t = s then xs else []"]) auto
qed

section \<open>The log goes with what was sent\<close>

definition sent_as :: "(string \<Rightarrow> 'd) \<Rightarrow> ('d \<Rightarrow> string) \<Rightarrow> 'd \<Rightarrow> string \<Rightarrow> 'd any_data option \<Rightarrow> bool" where
  "sent_as atof print zero t x =
     (case x of
        None \<Rightarrow> reply_text t
      | Some a \<Rightarrow> point_clean atof print a \<and>
          (\<exists>now. t = update_text print now (ud_fullName (the_ud a)) (value_of zero a)))"

definition log_ok :: "(string \<Rightarrow> 'd) \<Rightarrow> ('d \<Rightarrow> string) \<Rightarrow> 'd \<Rightarrow> nat \<Rightarrow> 'd sub_socket \<Rightarrow> 'd any_data option list \<Rightarrow> bool" where
  "log_ok atof print zero s sv lg =
     (net_raw (sk_net sv) = [] \<and> list_all2 (sent_as atof print zero) (inbox s sv) lg)"

lemma log_ok_sent:
  assumes "log_ok atof print zero s sv lg" "net_raw (sk_net sv') = []" "inbox s sv' = inbox s sv @ xs"
    "\<forall>x \<in> set xs. sent_as atof print zero x e"
  shows "log_ok atof print zero s sv' (log_sent s e sv sv' lg)"
proof -
  have "list_all2 (sent_as atof print zero) xs (replicate (length xs) e)"
    using assms(4) by (simp add: list_all2_conv_all_nth)
  then show ?thesis using assms(1-3) by (simp add: log_ok_def log_sent_def list_all2_appendI)
qed

lemma log_ok_same: "log_ok atof print zero s sv lg \<Longrightarrow> sk_net sv' = sk_net sv \<Longrightarrow> log_ok atof print zero s sv' lg"
  by (simp add: log_ok_def inbox_def)

lemma put_point_net [simp]: "sk_net (put_point d a st) = sk_net st"
  by (simp add: put_point_def)

lemma sk_update_inbox:
  assumes "sk_update print zero now d st = Inr st'" "om_find (om_data_store (sk_mgr st)) d = Some a"
    "net_raw (sk_net st) = []" "length (ud_fullName (the_ud a)) < CHANNEL_MAX_LENGTH"
  shows "sk_mgr st' = sk_mgr st \<and> net_raw (sk_net st') = [] \<and> (\<exists>k. inbox s st' = inbox s st @
     replicate k (update_text print now (ud_fullName (the_ud a)) (value_of zero a)))"
proof -
  let ?t = "update_text print now (ud_fullName (the_ud a)) (value_of zero a)"
  let ?cs = "filter (\<lambda>c. fst c \<in> set (sk_alive st) \<and> om_has (snd c) d) (sk_clients st)"
  have "st' = st\<lparr>sk_net := (sk_net st)\<lparr>net_sent := net_sent (sk_net st) @ map (\<lambda>c. (fst c, ?t)) ?cs\<rparr>\<rparr>"
    using assms(1,2) update_clients_sent [OF assms(3,4), of print now d "value_of zero a" "sk_clients st"]
    by (simp add: sk_update_def)
  then have n: "net_raw (sk_net st') = []" "net_sent (sk_net st') = net_sent (sk_net st) @ map (\<lambda>c. (fst c, ?t)) ?cs"
    "sk_mgr st' = sk_mgr st" using assms(3) by simp_all
  have "map snd (filter (\<lambda>e. fst e = s) (map (\<lambda>c. (fst c, ?t)) cs)) = replicate (length (filter (\<lambda>c. fst c = s) cs)) ?t"
    for cs :: "(nat \<times> (nat, channel_info) omap) list" by (induction cs) simp_all
  then show ?thesis using n by (auto simp: inbox_def)
qed

lemma scan_publish_log:
  assumes "log_ok atof print zero s sv lg" "om_find (om_data_store (sk_mgr sv)) d = Some a" "om_ok (om_data_store (sk_mgr sv))"
    "scan_publish print zero differs ri rd rs self now d a sv = Inr sv'"
    "(self, scan_read differs ri rd rs a) \<in> set (fst (scan_one differs ri rd rs a)) \<longrightarrow>
       point_clean atof print (scan_read differs ri rd rs a)"
  shows "log_ok atof print zero s sv' (log_sent s (Some (scan_read differs ri rd rs a)) sv sv' lg)"
proof -
  let ?r = "scan_read differs ri rd rs a"
  let ?st = "put_point d ?r sv"
  have raw: "net_raw (sk_net ?st) = []" using assms(1) by (simp add: log_ok_def)
  have f: "om_find (om_data_store (sk_mgr ?st)) d = Some ?r" using assms(3) by (simp add: put_point_def om_find_put)
  have ib: "inbox s ?st = inbox s sv" "\<And>u. inbox s (put_point d (snd (scan_one differs ri rd rs a)) u) = inbox s u"
    by (simp_all add: inbox_def)
  show ?thesis
  proof (cases "(self, ?r) \<in> set (fst (scan_one differs ri rd rs a))")
    case True
    then obtain u where u: "sk_update print zero now d ?st = Inr u"
      "sv' = put_point d (snd (scan_one differs ri rd rs a)) u"
      using assms(4) by (auto simp: scan_publish_def Let_def res_simps)
    have c: "point_clean atof print ?r" using True assms(5) by blast
    then have "length (ud_fullName (the_ud ?r)) < CHANNEL_MAX_LENGTH" by (simp add: point_clean_def Let_def)
    from sk_update_inbox [OF u(1) f raw this, of s] obtain k where
      k: "net_raw (sk_net u) = []" "inbox s u = inbox s sv @
         replicate k (update_text print now (ud_fullName (the_ud ?r)) (value_of zero ?r))"
      by (auto simp: ib)
    show ?thesis
      by (rule log_ok_sent [OF assms(1), where xs = "replicate k (update_text print now (ud_fullName (the_ud ?r)) (value_of zero ?r))"])
        (use k c u(2) ib in \<open>auto simp: sent_as_def\<close>)
  next
    case False
    then have "sk_net sv' = sk_net sv" using assms(4) by (auto simp: scan_publish_def Let_def)
    then show ?thesis using log_ok_same [OF assms(1)] by (simp add: log_sent_def inbox_def)
  qed
qed


section \<open>The client\<close>

text \<open>The objects of the client have no driver, no object has two names, and the copies are as they should
  be for what has been handled.\<close>
definition client_inv :: "'d \<Rightarrow> ('d \<Rightarrow> 'd \<Rightarrow> bool) \<Rightarrow> 'd any_data option list \<Rightarrow> 'd sub_socket \<Rightarrow> bool" where
  "client_inv zero differs lg cl =
     (manager_ok (sk_mgr cl) \<and> om_entites (sk_mgr cl) = [] \<and>
      (\<forall>n n' i. om_find (om_datas (sk_mgr cl)) n = Some i \<longrightarrow> om_find (om_datas (sk_mgr cl)) n' = Some i \<longrightarrow> n = n') \<and>
      (\<forall>n b. copy_of n cl = Some b \<longrightarrow> ud_driver (the_ud b) = None) \<and>
      (\<forall>n. copy_ok zero differs (sent_of n lg) (copy_of n cl)))"

lemma copy_of_eq:
  "om_entites (sk_mgr cl) = [] \<Longrightarrow> copy_of n cl =
     (if n = [] then None else Option.bind (om_find (om_datas (sk_mgr cl)) n) (om_find (om_data_store (sk_mgr cl))))"
  by (simp add: copy_of_def getObject_def data_ref_def split: option.split)

lemma client_inv_mgr: "client_inv zero differs lg cl \<Longrightarrow> sk_mgr cl' = sk_mgr cl \<Longrightarrow> client_inv zero differs lg cl'"
  by (simp add: client_inv_def copy_of_def cong: option.case_cong)

lemma sent_of_snoc:
  "sent_of n (lg @ [Some a]) = (if ud_fullName (the_ud a) = n then sent_of n lg @ [a] else sent_of n lg)"
  "sent_of n (lg @ [None]) = sent_of n lg"
  by (simp_all add: sent_of_def map_filter_def)

lemma client_inv_reply: "client_inv zero differs lg cl \<Longrightarrow> client_inv zero differs (lg @ [None]) cl"
  by (simp add: client_inv_def sent_of_snoc)

lemma copy_ok_None: "copy_ok zero differs as None \<longleftrightarrow> as = []"
  by (simp add: copy_ok_def)

text \<open>The objects of the client's constructors.\<close>
lemma new_client_data_driver: "new_client_data atof z m t v = Some b \<Longrightarrow> ud_driver (the_ud b) = None"
  by (cases m; cases t) (auto simp: new_client_data_def ReadOnlyInt_def ReadWriteInt_def ReadOnlyDouble_def
      ReadWriteDouble_def ReadOnlyString_def ReadWriteString_def typed_point_def new_untyped_def untyped_data.defs data_point.defs)

lemma setFullName_driver [simp]: "ud_driver (setFullName n d) = ud_driver d"
  by (simp add: setFullName_def)

text \<open>The first update of a channel.\<close>
lemma client_inv_new:
  assumes inv: "client_inv zero differs lg cl" and a: "point_clean atof print a"
    and n: "copy_of (ud_fullName (the_ud a)) cl = None"
    and fresh: "\<not> om_has (om_data_store (sk_mgr cl)) fresh"
    and msg: "client_message atof zero differs wi wd ws fresh
       (join (CHR '':'') (update_fields print now (ud_fullName (the_ud a)) (value_of zero a))) cl = Inr cl'"
  shows "client_inv zero differs (lg @ [Some a]) cl'"
proof -
  let ?n = "ud_fullName (the_ud a)" and ?m = "sk_mgr cl" and ?v = "value_of zero a"
  have name: "?n \<noteq> []" "hd ?n = CHR ''/''" "?n \<noteq> ''/''" "name_clean ?n" "wire_ok atof print a"
    using a by (auto simp: point_clean_def Let_def name_clean_def)
  have ok: "om_ok (om_datas ?m)" "om_ok (om_data_store ?m)" "om_entites ?m = []" "manager_ok ?m"
    using inv by (simp_all add: client_inv_def manager_ok_def)
  have free: "om_find (om_datas ?m) ?n = None"
  proof (rule ccontr)
    assume "om_find (om_datas ?m) ?n \<noteq> None"
    then obtain i where i: "om_find (om_datas ?m) ?n = Some i" by blast
    then have "om_has (om_data_store ?m) i" using ok(4) om_find_in_set [OF ok(1)] by (force simp: manager_ok_def)
    then show False using n i name(1) by (auto simp: copy_of_eq [OF ok(3)] om_has_def)
  qed
  obtain b where b: "new_client_data atof zero (vi_accessMode ?v) (vi_dataType ?v) (plain_text print a) = Some b"
    "value_of zero b = arrived zero a" using new_client_data_arrived [OF name(5)] by blast
  let ?m1 = "?m\<lparr>om_data_store := om_put fresh b (om_data_store ?m)\<rparr>"
  have f1: "om_find (om_data_store ?m1) fresh = Some b" "om_find (om_datas ?m1) ?n = None"
    using ok free by (simp_all add: om_find_put)
  from registerData_cases [OF f1(1) name(1-3) f1(2)] obtain segs where
    r: "registerData (Some fresh) ?n ?m1 = Inr (?m1
       \<lparr>om_data_store := om_put fresh (on_ud (setFullName ?n) b) (om_data_store ?m1),
        om_datas := om_insert ?n fresh (om_datas ?m1),
        om_dataNodeNames := add_path ''/'' segs (om_dataNodeNames ?m1)\<rparr>)" (is "_ = Inr ?m2") by blast
  have nr: "\<not> isObjectRegisted ?n ?m" using free ok(3) by (simp add: isObjectRegisted_def)
  have "client_message atof zero differs wi wd ws fresh (join (CHR '':'') (update_fields print now ?n ?v)) cl =
      Inr (notify_listeners ?n (Some fresh) (cl\<lparr>sk_mgr := ?m2\<rparr>))"
    unfolding client_message_def update_split [OF name(4) wire_ok_clean [OF name(5)]]
    using nr b(1) r
    by (simp add: update_fields_def client_update_def Let_def type_of_text access_of_text wire_ok_decode [OF name(5)])
  then have m2: "sk_mgr cl' = ?m2" using msg by (simp add: notify_listeners_def)
  have unused: "om_find (om_datas ?m) k \<noteq> Some fresh" for k
    using ok(4) fresh om_find_in_set [OF ok(1), of k fresh] by (force simp: manager_ok_def)
  have c: "copy_of k cl' = (if k = ?n then Some (on_ud (setFullName ?n) b) else copy_of k cl)" for k
    using ok(1-3) free name(1) unused [of k]
    by (auto simp: copy_of_eq m2 om_find_put om_find_insert om_ok_put split: bind_splits)
  have "sent_of ?n lg = []" using inv n by (auto simp: client_inv_def dest!: spec [of _ ?n] simp: copy_ok_None)
  then have "copy_ok zero differs (sent_of k (lg @ [Some a])) (copy_of k cl')" for k
    using inv b(2) by (auto simp: c sent_of_snoc client_inv_def copy_ok_def)
  moreover have "ud_driver (the_ud b') = None" if "copy_of k cl' = Some b'" for k b'
    using that inv new_client_data_driver [OF b(1)] by (auto simp: c client_inv_def split: if_splits)
  moreover have "manager_ok ?m2"
    by (rule manager_ok_registerData [OF _ r]) (use ok(4) in \<open>auto simp: manager_ok_def om_ok_put\<close>)
  moreover have "k = k'" if "om_find (om_datas ?m2) k = Some i" "om_find (om_datas ?m2) k' = Some i" for k k' i
    using that inv unused ok(1) free by (auto simp: om_find_insert client_inv_def split: if_splits)
  ultimately show ?thesis unfolding client_inv_def m2 using ok(3) by simp
qed


text \<open>A later update: setValue of a copy without a driver.\<close>
lemma set_client_data_shows:
  assumes "wire_ok atof print a" "ud_driver (the_ud b) = None"
    and "set_client_data atof differs wi wd ws (vi_dataType (value_of zero a)) (plain_text print a) (Some b) = Inr (Some b')"
  shows "shows_value differs (value_of zero a) (value_of zero b') \<and> ud_driver (the_ud b') = None"
  using assms
  by (cases a; cases b) (auto simp: set_client_data_def shows_value_def ReadWriteInt_setValue_def ReadWriteString_setValue_def
      ReadWriteDouble_setValue_def drv_write_def Let_def untyped_data.defs atoi_show_int double_ok_def split: if_splits)

lemma client_inv_set:
  assumes inv: "client_inv zero differs lg cl" and a: "point_clean atof print a"
    and n: "copy_of (ud_fullName (the_ud a)) cl = Some b"
    and msg: "client_message atof zero differs wi wd ws fresh
       (join (CHR '':'') (update_fields print now (ud_fullName (the_ud a)) (value_of zero a))) cl = Inr cl'"
  shows "client_inv zero differs (lg @ [Some a]) cl'"
proof -
  let ?n = "ud_fullName (the_ud a)" and ?m = "sk_mgr cl"
  have name: "name_clean ?n" "?n \<noteq> []" "wire_ok atof print a" using a by (auto simp: point_clean_def Let_def name_clean_def)
  have ok: "om_ok (om_data_store ?m)" "om_entites ?m = []" "manager_ok ?m"
    using inv by (simp_all add: client_inv_def manager_ok_def)
  obtain i where i: "getObject ?n ?m = Some (DataRef i)" "om_find (om_data_store ?m) i = Some b"
    using n by (auto simp: copy_of_def data_ref_def split: option.splits object_ref.splits)
  have di: "om_find (om_datas ?m) ?n = Some i" using i(1) ok(2) by (simp add: getObject_def split: if_splits)
  have drv: "ud_driver (the_ud b) = None" using inv n by (auto simp: client_inv_def)
  obtain b' where b': "set_client_data atof differs wi wd ws (vi_dataType (value_of zero a)) (plain_text print a) (Some b) = Inr (Some b')"
    and m2: "sk_mgr cl' = ?m\<lparr>om_data_store := om_put i b' (om_data_store ?m)\<rparr>" (is "_ = ?m2")
    using msg unfolding client_knows [OF name(3,1) i]
    by (auto simp: notify_listeners_def res_simps split: option.splits)
  note shown = set_client_data_shows [OF name(3) drv b']
  have c: "copy_of k cl' = (if k = ?n then Some b' else copy_of k cl)" for k
    using inv di name(2) ok(1,2)
    by (auto simp: copy_of_eq m2 om_find_put client_inv_def split: bind_splits)
  have "sent_of ?n lg \<noteq> []" using inv n by (auto simp: client_inv_def copy_ok_def dest!: spec [of _ ?n])
  then have "copy_ok zero differs (sent_of k (lg @ [Some a])) (copy_of k cl')" for k
    using inv shown by (auto simp: c sent_of_snoc client_inv_def copy_ok_def)
  moreover have "ud_driver (the_ud b'') = None" if "copy_of k cl' = Some b''" for k b''
    using that inv shown by (auto simp: c client_inv_def split: if_splits)
  moreover have "manager_ok ?m2" using ok(1,3) by (auto simp: manager_ok_def om_ok_put)
  ultimately show ?thesis using inv unfolding client_inv_def m2 by simp
qed

lemma client_inv_handle:
  assumes inv: "client_inv zero differs lg cl" and sent: "sent_as atof print zero (msg @ '';'') x"
    and fresh: "\<not> om_has (om_data_store (sk_mgr cl)) fresh"
    and msg: "client_message atof zero differs wi wd ws fresh msg cl = Inr cl'"
  shows "client_inv zero differs (lg @ [x]) cl'"
proof (cases x)
  case None
  then have "sk_mgr cl' = sk_mgr cl" using client_reply [OF _ msg] sent by (simp add: sent_as_def)
  then show ?thesis using client_inv_mgr [OF client_inv_reply [OF inv]] None by simp
next
  case (Some a)
  then obtain now where a: "point_clean atof print a"
    "msg = join (CHR '':'') (update_fields print now (ud_fullName (the_ud a)) (value_of zero a))"
    using sent by (auto simp: sent_as_def update_text_join)
  show ?thesis unfolding Some
    using client_inv_new [OF inv a(1) _ fresh msg [unfolded a(2)]] client_inv_set [OF inv a(1) _ msg [unfolded a(2)]]
    by (cases "copy_of (ud_fullName (the_ud a)) cl") blast+
qed

text \<open>The client's own steps leave its objects alone.\<close>
lemma sk_subscribe_mgr: "sk_mgr (sk_subscribe n st) = sk_mgr st"
  by (simp add: sk_subscribe_def Let_def)

lemma sk_send_mgr: "sk_send d sock st = (r, st') \<Longrightarrow> sk_mgr st' = sk_mgr st"
  by (auto simp: sk_send_def split: prod.splits)

lemma raw_send_mgr [simp]: "sk_mgr (raw_send d sock st) = sk_mgr st"
  by (simp add: raw_send_def sk_send_def split: prod.split)

lemma subscribe_batch_mgr: "subscribe_batch t sock es i str st = (str', st') \<Longrightarrow> sk_mgr st' = sk_mgr st"
proof (induction es arbitrary: i str st)
  case (Cons e es)
  obtain name info where "e = (name, info)" by force
  then show ?case using Cons by (auto simp: Let_def split: if_splits)
qed simp

lemma queue_batch_mgr: "queue_batch sock ds i str st = (failed, str', st') \<Longrightarrow> sk_mgr st' = sk_mgr st"
proof (induction ds arbitrary: i str st)
  case (Cons d ds)
  then show ?case by (auto simp: Let_def dest: sk_send_mgr split: if_splits prod.splits)
qed simp

lemma subscribeChannelHandler_mgr: "subscribeChannelHandler t sock st = (ok, st') \<Longrightarrow> sk_mgr st' = sk_mgr st"
  by (auto simp: subscribeChannelHandler_def Let_def dest!: subscribe_batch_mgr queue_batch_mgr sk_send_mgr
      split: prod.splits if_splits)

section \<open>The invariant of the system\<close>

definition system_inv ::
  "('d \<Rightarrow> string) \<Rightarrow> (string \<Rightarrow> 'd) \<Rightarrow> 'd \<Rightarrow> ('d \<Rightarrow> 'd \<Rightarrow> bool) \<Rightarrow> nat \<Rightarrow> 'd system \<Rightarrow> bool" where
  "system_inv print atof zero differs s y =
     (om_ok (om_data_store (sk_mgr (sy_server y))) \<and> log_ok atof print zero s (sy_server y) (sy_log y) \<and>
      sy_handled y \<le> length (sy_log y) \<and>
      client_inv zero differs (take (sy_handled y) (sy_log y)) (sy_client y))"


lemma page_loop_mgr: "page_loop sock header ns index strTmp sendData st = (failed, x, y, st') \<Longrightarrow> sk_mgr st' = sk_mgr st"
proof (induction ns arbitrary: index strTmp sendData st)
  case (Cons n ns)
  show ?case
  proof (cases "index < 10")
    case True
    then show ?thesis using Cons.IH Cons.prems by simp
  next
    case False
    obtain r st1 where "sk_send (sendData @ convertToString 10 @ '':'' @ strTmp) sock st = (r, st1)" by force
    then show ?thesis using Cons.prems False Cons.IH [of 1 n header st1] sk_send_mgr by (fastforce split: if_splits)
  qed
qed simp

lemma server_list_mgr: "server_list kind nodes sock node st = (out, st') \<Longrightarrow> sk_mgr st' = sk_mgr st"
  by (auto simp: server_list_def Let_def dest!: page_loop_mgr sk_send_mgr split: prod.splits if_splits)

lemma server_reply_mgr: "server_reply d sock st = (out, st') \<Longrightarrow> sk_mgr st' = sk_mgr st"
  by (auto simp: server_reply_def dest!: sk_send_mgr split: prod.splits if_splits)

lemma server_run_mgr: "server_run sock tmp st = (out, st') \<Longrightarrow> sk_mgr st' = sk_mgr st"
  by (auto simp: server_run_def Let_def dest!: sk_send_mgr split: prod.splits if_splits option.splits object_ref.splits)

lemma subscribe_names_store:
  "om_ok (om_data_store (sk_mgr st)) \<Longrightarrow> om_ok (om_data_store (sk_mgr (subscribe_names self now sock ns st)))"
proof (induction ns arbitrary: st)
  case (Cons n ns)
  obtain ok st1 where o: "subscribe_one self now sock n st = (ok, st1)" by force
  then have "om_ok (om_data_store (sk_mgr st1))" using Cons.prems
    by (auto simp: subscribe_one_def on_store_ok split: option.splits)
  then show ?case using Cons.IH o by simp
qed simp

lemma addSubscribe_store:
  "sk_addSubscribe self now sock n st = Inr st' \<Longrightarrow> om_ok (om_data_store (sk_mgr st)) \<Longrightarrow> om_ok (om_data_store (sk_mgr st'))"
  by (auto simp: sk_addSubscribe_def subscribe_names_store simp del: subscribe_names.simps split: if_splits)

lemma server_message_store:
  assumes "server_message self now sock m st = Inr (out, st')" "om_ok (om_data_store (sk_mgr st))"
  shows "om_ok (om_data_store (sk_mgr st'))"
  using assms
  by (fastforce simp: server_message_def res_simps simp del: append.simps
      dest: server_list_mgr server_run_mgr server_reply_mgr addSubscribe_store split: if_splits)

lemma scan_publish_store:
  assumes "scan_publish print zero differs ri rd rs self now d a sv = Inr sv'" "om_find (om_data_store (sk_mgr sv)) d = Some a"
    "om_ok (om_data_store (sk_mgr sv))" "net_raw (sk_net sv) = []"
    "(self, scan_read differs ri rd rs a) \<in> set (fst (scan_one differs ri rd rs a)) \<longrightarrow>
       point_clean atof print (scan_read differs ri rd rs a)"
  shows "om_ok (om_data_store (sk_mgr sv'))"
proof -
  let ?r = "scan_read differs ri rd rs a"
  let ?st = "put_point d ?r sv"
  have f: "om_find (om_data_store (sk_mgr ?st)) d = Some ?r" "om_ok (om_data_store (sk_mgr ?st))" "net_raw (sk_net ?st) = []"
    using assms(3,4) by (simp_all add: put_point_def om_find_put om_ok_put)
  obtain u where u: "sv' = put_point d (snd (scan_one differs ri rd rs a)) u" "sk_mgr u = sk_mgr ?st"
    using assms(1,5) sk_update_inbox [OF _ f(1,3)]
    by (auto simp: scan_publish_def Let_def res_simps point_clean_def split: if_splits)
  then show ?thesis using f(2) by (simp add: put_point_def om_ok_put)
qed

lemma system_step_inv:
  assumes "system_step print atof zero differs self s c y y'" "system_inv print atof zero differs s y"
  shows "system_inv print atof zero differs s y'"
  using assms
proof (induction rule: system_step.induct)
  case (scan y d a ri rd rs now sv)
  then have i: "om_ok (om_data_store (sk_mgr (sy_server y)))" "log_ok atof print zero s (sy_server y) (sy_log y)"
    "sy_handled y \<le> length (sy_log y)" by (simp_all add: system_inv_def)
  then have "net_raw (sk_net (sy_server y)) = []" by (simp add: log_ok_def)
  then show ?case
    using scan_publish_log [OF i(2) scan(1) i(1) scan(3,2)] scan_publish_store [OF scan(3,1) i(1) _ scan(2)] scan.prems i(3)
    by (simp add: system_inv_def log_sent_def)
next
  case (set_value y d a wi wd ws v a')
  then show ?case by (simp add: system_inv_def put_point_def om_ok_put log_ok_def inbox_def)
next
  case (subscribe y n)
  then show ?case by (auto simp: system_inv_def intro: client_inv_mgr [OF _ sk_subscribe_mgr])
next
  case (request now y ok cl)
  then show ?case using client_inv_mgr [OF _ subscribeChannelHandler_mgr] by (fastforce simp: system_inv_def)
next
  case (serve y m ms tmp now out sv)
  then have i: "log_ok atof print zero s (sy_server y) (sy_log y)" "net_raw (sk_net (sy_server y)) = []"
    by (simp_all add: system_inv_def log_ok_def)
  from inbox_sends [OF server_message_sends [OF serve(4,2)] i(2), of s] obtain xs where
    "net_raw (sk_net sv) = []" "inbox s sv = inbox s (sy_server y) @ xs" "\<forall>x \<in> set xs. sent_as atof print zero x None"
    using serve(3) by (auto simp: sent_as_def)
  then have "log_ok atof print zero s sv (log_sent s None (sy_server y) sv (sy_log y))"
    by (rule log_ok_sent [OF i(1)])
  then show ?case using serve.prems server_message_store [OF serve(4)] by (simp add: system_inv_def log_sent_def)
next
  case (serve_other t now m y out sv)
  obtain tmp where tmp: "split m '':'' = Inr tmp" using serve_other(2) by (auto simp: server_message_def res_simps)
  have i: "log_ok atof print zero s (sy_server y) (sy_log y)" "net_raw (sk_net (sy_server y)) = []"
    using serve_other.prems by (simp_all add: system_inv_def log_ok_def)
  have "net_raw (sk_net sv) = []" "inbox s sv = inbox s (sy_server y)"
    using inbox_sends [OF server_message_sends [OF serve_other(2) tmp] i(2), of s] serve_other(1) by auto
  then show ?case using serve_other.prems server_message_store [OF serve_other(2)]
    by (simp add: system_inv_def log_ok_def)
next
  case (handle y msg fresh wi wd ws cl)
  then have i: "list_all2 (sent_as atof print zero) (inbox s (sy_server y)) (sy_log y)"
    by (simp add: system_inv_def log_ok_def)
  then have len: "sy_handled y < length (sy_log y)" using handle(1) by (simp add: list_all2_lengthD)
  have "sent_as atof print zero (msg @ '';'') (sy_log y ! sy_handled y)"
    using list_all2_nthD [OF i handle(1)] handle(2) by simp
  from client_inv_handle [OF _ this handle(3,4)] have
    "client_inv zero differs (take (sy_handled y) (sy_log y) @ [sy_log y ! sy_handled y]) cl"
    using handle.prems by (simp add: system_inv_def)
  then show ?case using handle.prems len by (simp add: system_inv_def take_Suc_conv_app_nth)
qed

lemma system_start_inv: "system_start s y \<Longrightarrow> system_inv print atof zero differs s y"
  by (auto simp: system_start_def system_inv_def log_ok_def client_inv_def copy_of_eq sent_of_def map_filter_def copy_ok_def)

lemma system_reach_inv: "system_reach print atof zero differs self s c y \<Longrightarrow> system_inv print atof zero differs s y"
  by (induction rule: system_reach.induct) (auto intro: system_start_inv system_step_inv)


section \<open>Writes between two scans\<close>

text \<open>A writable point without a driver keeps the value before the last write, and the scan looks for a
  change by comparing the two.\<close>
lemma writes_int:
  assumes "ud_driver p = None" "dp_oldValue p = dp_value p"
  shows "fold (ReadWriteInt_setValue wi) vs p =
     (if vs = [] then p else p\<lparr>dp_oldValue := last (dp_value p # butlast vs), dp_value := last vs, ud_isValid := True\<rparr>)"
proof (induction vs rule: rev_induct)
  case (snoc v vs)
  have "ReadWriteInt_setValue wi v q = q\<lparr>dp_oldValue := dp_value q, dp_value := v, ud_isValid := True\<rparr>"
    if "ud_driver q = None" for q using that by (simp add: ReadWriteInt_setValue_def drv_write_def)
  then show ?case using snoc assms by (auto split: if_splits)
qed simp

lemma writes_string:
  assumes "ud_driver p = None" "dp_oldValue p = dp_value p"
  shows "fold (ReadWriteString_setValue ws) vs p =
     (if vs = [] then p else p\<lparr>dp_oldValue := last (dp_value p # butlast vs), dp_value := last vs, ud_isValid := True\<rparr>)"
proof (induction vs rule: rev_induct)
  case (snoc v vs)
  have "ReadWriteString_setValue ws v q = q\<lparr>dp_oldValue := dp_value q, dp_value := v, ud_isValid := True\<rparr>"
    if "ud_driver q = None" for q using that by (simp add: ReadWriteString_setValue_def drv_write_def)
  then show ?case using snoc assms by (auto split: if_splits)
qed simp

text \<open>A point as a scan leaves it: no driver, no change pending.\<close>
definition settled :: "data_type \<Rightarrow> 'v data_point \<Rightarrow> bool" where
  "settled t p = (ud_driver p = None \<and> ud_dataType p = t \<and> ud_accessMode p = READWRITE \<and>
     \<not> ud_isChanged p \<and> dp_oldValue p = dp_value p)"

lemma scan_writes_int:
  assumes "settled INTDATA p"
  shows "map fst (fst (scan_one differs ri rd rs (RWI (fold (ReadWriteInt_setValue wi) vs p)))) =
     (if last (dp_value p # vs) = last (dp_value p # butlast vs) then [] else ud_subscribers p)"
  using assms
  by (cases "vs = []") (auto simp: settled_def writes_int scan_one_def scan_read_def ReadWriteInt_getValue_def drv_read_def
      ud_update_def untyped_data.defs Let_def comp_def)

lemma scan_writes_string:
  assumes "settled STRINGDATA p"
  shows "map fst (fst (scan_one differs ri rd rs (RWS (fold (ReadWriteString_setValue ws) vs p)))) =
     (if last (dp_value p # vs) = last (dp_value p # butlast vs) then [] else ud_subscribers p)"
  using assms
  by (cases "vs = []") (auto simp: settled_def writes_string scan_one_def scan_read_def ReadWriteString_getValue_def drv_read_def
      ud_update_def untyped_data.defs Let_def comp_def)

lemma settled_again:
  assumes "settled INTDATA p"
  shows "\<exists>q. snd (scan_one differs ri rd rs (RWI (fold (ReadWriteInt_setValue wi) vs p))) = RWI q \<and>
     settled INTDATA q \<and> dp_value q = last (dp_value p # vs)"
  using assms
  by (cases "vs = []") (auto simp: settled_def writes_int scan_one_def scan_read_def ReadWriteInt_getValue_def drv_read_def
      ud_update_def lift_ud_def untyped_data.defs data_point.defs Let_def)

end
