(* ===== verification/Class_Lists.thy ===== *)
theory Class_Lists
  imports Object_Manager Cmd_Target
begin

text \<open>
  The list of classes by which objects are created from their class name (ClassList and ClassJoint of
  src/managed_object.h and src/managed_object.cc, and the macro IMPLEMENT_CLASS_DYNAMIC), the walk along
  it in src/object_manager.cc, the macro SET of src/cmd_target.h that resolves an object by its path, and
  the state of a driver (src/driver.cc).  A ClassList is a node at an address of a memory; the nodes are
  static objects, joined by the constructors of static ClassJoint objects before main.
\<close>

section \<open>The joined list\<close>

text \<open>\<open>cn_object\<close> stands for \<open>m_pCreateObject\<close>: the control object it makes, None when the made object is not
  a control object or is NULL.\<close>
record class_node =
  cn_className :: string
  cn_baseList :: "nat option"
  cn_nextList :: "nat option"
  cn_object :: "ctrl_object option"

text \<open>\<open>cl_names\<close> are the static strings \<open>m_className\<close>, by the class they belong to; a class made by the macro
  starts with an empty one.\<close>
record class_lists =
  cl_nodes :: "nat \<Rightarrow> class_node"
  cl_header :: "nat option"                    \<comment> \<open>m_headerList\<close>
  cl_map :: "(string, nat) omap"               \<comment> \<open>the constructor's own map, which nothing reads\<close>
  cl_names :: "string \<Rightarrow> string"

definition ClassJoint :: "nat \<Rightarrow> class_lists \<Rightarrow> class_lists" where
  "ClassJoint p w =
     w\<lparr>cl_map := om_insert (cn_className (cl_nodes w p)) p (cl_map w),
       cl_nodes := (cl_nodes w)(p := (cl_nodes w p)\<lparr>cn_nextList := cl_header w\<rparr>),
       cl_header := Some p\<rparr>"

text \<open>CreateObject of the macro names the class; then the object is made.\<close>
definition createObject :: "nat \<Rightarrow> class_lists \<Rightarrow> ctrl_object option \<times> class_lists" where
  "createObject p w =
     (let name = cn_className (cl_nodes w p)
      in (cn_object (cl_nodes w p), w\<lparr>cl_names := (cl_names w)(name := name)\<rparr>))"

definition getClassName :: "string \<Rightarrow> class_lists \<Rightarrow> string" where
  "getClassName c w = cl_names w c"

text \<open>The loop of registerObject along the list: the node of the class, or the end.\<close>
partial_function (option) class_walk ::
  "(nat \<Rightarrow> class_node) \<Rightarrow> string \<Rightarrow> nat option \<Rightarrow> nat option option" where
  "class_walk nodes name p =
     (case p of
        None \<Rightarrow> Some None
      | Some a \<Rightarrow> if cn_className (nodes a) = name then Some (Some a)
                 else class_walk nodes name (cn_nextList (nodes a)))"

text \<open>Registration by class name on the memory: None when the loop does not end.\<close>
definition registerClassObject ::
  "nat \<Rightarrow> string \<Rightarrow> string \<Rightarrow> class_lists \<Rightarrow> 'd manager \<Rightarrow> ('d manager \<times> class_lists) res option" where
  "registerClassObject fresh className fullName w m =
     (case class_walk (cl_nodes w) className (cl_header w) of
        None \<Rightarrow> None
      | Some None \<Rightarrow>
          Some (Inl (Throw (''object '' @ quoted fullName @ '' register failed because class '' @
                 quoted className @ '' can not be found!'')))
      | Some (Some p) \<Rightarrow>
          (case createObject p w of
             (None, w') \<Rightarrow> Some (Inl Null_Deref)
           | (Some c, w') \<Rightarrow>
               Some (Inr (m\<lparr>om_ctrl_store := om_put fresh (c\<lparr>ct_fullName := fullName,
                               ct_selfName := self_name fullName\<rparr>) (om_ctrl_store m),
                            om_entites := om_insert fullName fresh (om_entites m)\<rparr>, w'))))"

section \<open>The list the memory holds\<close>

text \<open>The addresses from a pointer on, up to NULL.\<close>
fun class_chain :: "(nat \<Rightarrow> class_node) \<Rightarrow> nat option \<Rightarrow> nat list \<Rightarrow> bool" where
  "class_chain nodes p [] = (p = None)"
| "class_chain nodes p (a # as) = (p = Some a \<and> class_chain nodes (cn_nextList (nodes a)) as)"

lemma class_chain_upd: "a \<notin> set as \<Longrightarrow> class_chain (nodes(a := n)) p as \<longleftrightarrow> class_chain nodes p as"
  by (induction as arbitrary: p) auto

text \<open>The class list of the namespace's model, read off the memory.\<close>
definition class_entries :: "(nat \<Rightarrow> class_node) \<Rightarrow> nat list \<Rightarrow> (string \<times> ctrl_object option) list" where
  "class_entries nodes as = map (\<lambda>a. (cn_className (nodes a), cn_object (nodes a))) as"

lemma ClassJoint_chain:
  "class_chain (cl_nodes w) (cl_header w) as \<Longrightarrow> p \<notin> set as \<Longrightarrow>
   class_chain (cl_nodes (ClassJoint p w)) (cl_header (ClassJoint p w)) (p # as)"
  by (simp add: ClassJoint_def class_chain_upd)

lemma ClassJoint_node:
  "cn_className (cl_nodes (ClassJoint p w) a) = cn_className (cl_nodes w a)"
  "cn_object (cl_nodes (ClassJoint p w) a) = cn_object (cl_nodes w a)"
  by (simp_all add: ClassJoint_def)

lemma ClassJoints:
  assumes "distinct (ps @ as)" "class_chain (cl_nodes w) (cl_header w) as"
  shows "class_chain (cl_nodes (fold ClassJoint ps w)) (cl_header (fold ClassJoint ps w)) (rev ps @ as) \<and>
     class_entries (cl_nodes (fold ClassJoint ps w)) bs = class_entries (cl_nodes w) bs"
  using assms
proof (induction ps arbitrary: w as)
  case (Cons p ps)
  have "distinct (ps @ p # as)" using Cons.prems(1) by auto
  from Cons.IH [OF this ClassJoint_chain [OF Cons.prems(2)]] Cons.prems(1) show ?case
    by (simp add: class_entries_def ClassJoint_node)
qed simp

lemma class_walk_chain:
  "class_chain nodes p as \<Longrightarrow> class_walk nodes name p = Some (List.find (\<lambda>a. cn_className (nodes a) = name) as)"
  by (induction as arbitrary: p) (simp_all add: class_walk.simps)

lemma find_entries:
  "List.find (\<lambda>(n, _). n = name) (class_entries nodes as) =
     map_option (\<lambda>a. (cn_className (nodes a), cn_object (nodes a))) (List.find (\<lambda>a. cn_className (nodes a) = name) as)"
  by (induction as) (simp_all add: class_entries_def)

text \<open>On a joined list the walk ends, and the registration is that of the namespace's model.\<close>
lemma registerClassObject_refines:
  assumes "class_chain (cl_nodes w) (cl_header w) as"
  shows "\<exists>r. registerClassObject fresh className fullName w m = Some r \<and>
     mapR fst r = registerByClass (class_entries (cl_nodes w) as) fresh className fullName m \<and>
     (\<forall>m' w'. r = Inr (m', w') \<longrightarrow> cl_nodes w' = cl_nodes w \<and> cl_header w' = cl_header w \<and>
        getClassName className w' = className)"
proof (cases "List.find (\<lambda>a. cn_className (cl_nodes w a) = className) as")
  case None
  then show ?thesis
    by (simp add: registerClassObject_def class_walk_chain [OF assms] registerByClass_def find_entries)
next
  case (Some a)
  then have "cn_className (cl_nodes w a) = className" by (auto simp: find_Some_iff)
  then show ?thesis using Some
    by (auto simp: registerClassObject_def class_walk_chain [OF assms] registerByClass_def find_entries createObject_def
        getClassName_def Let_def split: option.split)
qed

text \<open>A node joined a second time at the head points to itself: a search for an unknown class never ends.\<close>
lemma class_walk_self:
  assumes "cn_nextList (nodes p) = Some p" "cn_className (nodes p) \<noteq> name"
  shows "class_walk nodes name (Some p) = None"
proof -
  have "\<not> (ns = nodes \<and> n = name \<and> q = Some p)" if "class_walk ns n q = Some r" for ns n q r
    by (rule class_walk.raw_induct [where P = "\<lambda>ns n q _. \<not> (ns = nodes \<and> n = name \<and> q = Some p)", OF _ that])
      (use assms in \<open>auto split: option.splits if_splits\<close>)
  then show ?thesis by (cases "class_walk nodes name (Some p)") blast+
qed

lemma ClassJoint_twice:
  assumes "cn_className (cl_nodes w p) \<noteq> name"
  shows "class_walk (cl_nodes (ClassJoint p (ClassJoint p w))) name (cl_header (ClassJoint p (ClassJoint p w))) = None"
  using class_walk_self [of "cl_nodes (ClassJoint p (ClassJoint p w))" p name] assms by (simp add: ClassJoint_def)

section \<open>An object set by its path\<close>

text \<open>The method the macro SET defines: the object of the path is cast to the type of the variable; its own
  exception is caught and thrown again.  \<open>cast\<close> is the dynamic_cast.\<close>
definition SET_method ::
  "string \<Rightarrow> string \<Rightarrow> (object_ref \<Rightarrow> 'x option) \<Rightarrow> string \<Rightarrow> 'd manager \<Rightarrow> 'x res" where
  "SET_method selfName method_name cast fullPath m =
     (case Option.bind (getObject fullPath m) cast of
        Some x \<Rightarrow> Inr x
      | None \<Rightarrow> Inl (Throw (''Exception occured in '' @ selfName @ '': set '' @ method_name @ '' failed!'')))"

section \<open>Drivers\<close>

record idriver =
  dv_fullName :: string
  dv_simulated :: bool
  dv_nodeNumber :: int
  dv_protocol :: "nat option"
  dv_retryTimes :: int

definition new_IDriver :: idriver where
  "new_IDriver = \<lparr> dv_fullName = [], dv_simulated = False, dv_nodeNumber = 0, dv_protocol = None, dv_retryTimes = 3 \<rparr>"

definition setRetryTimes :: "int \<Rightarrow> idriver \<Rightarrow> idriver" where
  "setRetryTimes num d = d\<lparr>dv_retryTimes := num\<rparr>"

definition driver_setNodeNumber :: "int \<Rightarrow> idriver \<Rightarrow> idriver" where
  "driver_setNodeNumber nodeNumber d = d\<lparr>dv_nodeNumber := nodeNumber\<rparr>"

text \<open>The protocol is the address of an object that is one.\<close>
definition setProtocol :: "(object_ref \<Rightarrow> nat option) \<Rightarrow> string \<Rightarrow> 'd manager \<Rightarrow> idriver \<Rightarrow> idriver res" where
  "setProtocol cast fullPath m d =
     mapR (\<lambda>x. d\<lparr>dv_protocol := Some x\<rparr>) (SET_method (dv_fullName d) ''setProtocol'' cast fullPath m)"

text \<open>What a driver that overrides nothing reads and writes.\<close>
definition registReadInt :: "int reader" where "registReadInt drv pfn channel = Some 0"
definition registReadDouble :: "'d \<Rightarrow> 'd reader" where "registReadDouble zero drv pfn channel = Some zero"
definition registReadString :: "string reader" where "registReadString drv pfn channel = None"
definition registWriteInt :: "int writer" where "registWriteInt drv pfn channel v = True"
definition registWriteDouble :: "'d writer" where "registWriteDouble drv pfn channel v = True"
definition registWriteString :: "string writer" where "registWriteString drv pfn channel v = True"

datatype driver_method = D_setRetryTimes | D_setNodeNumber | D_setProtocol | D_setNotSimulated | D_setSimulated

text \<open>The tables of IDriver, ControlObject and CmdTarget.\<close>
definition driver_messages :: "driver_method msg_entity list list" where
  "driver_messages =
     [[\<lparr> m_msg = ''setRetryTimes'', m_msgType = METHOD_I, methodMap = D_setRetryTimes \<rparr>,
       \<lparr> m_msg = ''setNodeNumber'', m_msgType = METHOD_I, methodMap = D_setNodeNumber \<rparr>,
       \<lparr> m_msg = ''setProtocol'', m_msgType = METHOD_S, methodMap = D_setProtocol \<rparr>,
       \<lparr> m_msg = [], m_msgType = METHOD_END, methodMap = D_setRetryTimes \<rparr>],
      [\<lparr> m_msg = ''setNotSimulated'', m_msgType = METHOD_B, methodMap = D_setNotSimulated \<rparr>,
       \<lparr> m_msg = [], m_msgType = METHOD_END, methodMap = D_setNotSimulated \<rparr>],
      [\<lparr> m_msg = ''setSimulated'', m_msgType = METHOD_B, methodMap = D_setSimulated \<rparr>,
       \<lparr> m_msg = [], m_msgType = METHOD_END, methodMap = D_setSimulated \<rparr>]]"

definition driver_method ::
  "(object_ref \<Rightarrow> nat option) \<Rightarrow> 'd manager \<Rightarrow> driver_method \<Rightarrow> 'e arg list \<Rightarrow> idriver \<Rightarrow> idriver res" where
  "driver_method cast m f args d =
     (case (f, args) of
        (D_setRetryTimes, [ArgI n]) \<Rightarrow> Inr (setRetryTimes n d)
      | (D_setNodeNumber, [ArgI n]) \<Rightarrow> Inr (driver_setNodeNumber n d)
      | (D_setProtocol, [ArgS s]) \<Rightarrow> setProtocol cast s m d
      | (D_setNotSimulated, [ArgB b]) \<Rightarrow> Inr (d\<lparr>dv_simulated := \<not> b\<rparr>)
      | (D_setSimulated, [ArgB b]) \<Rightarrow> Inr (d\<lparr>dv_simulated := b\<rparr>)
      | _ \<Rightarrow> Inr d)"

definition driver_message ::
  "(string \<Rightarrow> 'e) \<Rightarrow> (object_ref \<Rightarrow> nat option) \<Rightarrow> 'd manager \<Rightarrow> string \<Rightarrow> string \<Rightarrow> idriver \<Rightarrow> idriver res" where
  "driver_message atof cast m msgName params d =
     bindR (dispatchMsg atof driver_messages (dv_fullName d) msgName params)
       (\<lambda>r. case r of None \<Rightarrow> Inr d | Some (f, args) \<Rightarrow> driver_method cast m f args d)"

lemma driver_numbers:
  assumes "int32 v"
  shows "driver_message atof cast m ''setRetryTimes'' (show_int v) d = Inr (setRetryTimes v d)"
    and "driver_message atof cast m ''setNodeNumber'' (show_int v) d = Inr (driver_setNodeNumber v d)"
  using plain_split [OF plain_number [of v]] atoi_show_int [OF assms]
  by (simp_all add: driver_message_def driver_messages_def dispatch_entity_def paramNum_def call_args_def driver_method_def)

text \<open>A writable integer bound to a driver that overrides nothing accepts a value and loses it in the next scan.\<close>
lemma plain_driver_forgets:
  assumes "ud_driver p = Some drv" "ud_pfn_read p = Some f" "ud_pfn_write p = Some g"
  shows "dp_value (ReadWriteInt_setValue registWriteInt v p) = v"
    and "fst (ReadWriteInt_getValue registReadInt (ReadWriteInt_setValue registWriteInt v p)) = 0"
  using assms
  by (simp_all add: ReadWriteInt_setValue_def ReadWriteInt_getValue_def drv_read_def drv_write_def registReadInt_def
      registWriteInt_def Let_def)

end
