(* ===== verification/Service_Threads.thy ===== *)
theory Service_Threads
  imports Services Mutex Class_Lists
begin

text \<open>
  Services and the threads that run them (src/service.cc, src/control_object.cc, src/ick_service_impl.cc): how a
  service comes to its owner, the call by path of the service interface, the thread that executes a
  service on Windows, and the interleavings of several callers of one service.  A call first writes its parameters
  into the service, which all callers share, and only then takes the owner's mutex; the step relation
  takes one parameter, one lock, one execute or one unlock at a time.  sleep is here too, because it
  calls itself on Linux.
\<close>

section \<open>Services and their owners\<close>

record service_object =
  sb_name :: string
  sb_owner :: "nat option"

definition new_Service :: service_object where
  "new_Service = \<lparr> sb_name = [], sb_owner = None \<rparr>"

definition setServiceName :: "string \<Rightarrow> service_object \<Rightarrow> service_object" where
  "setServiceName name s = s\<lparr>sb_name := name\<rparr>"

text \<open>\<open>this\<close> and \<open>ownerAddr\<close> are the addresses of the service and of its owner.\<close>
definition service_setOwner ::
  "nat \<Rightarrow> nat \<Rightarrow> control_object \<Rightarrow> service_object \<Rightarrow> service_object \<times> control_object" where
  "service_setOwner this ownerAddr object s = (s\<lparr>sb_owner := Some ownerAddr\<rparr>, addService (sb_name s) (Some this) object)"

text \<open>The constructor with an owner registers the service before it can have a name.\<close>
definition Service_owned :: "nat \<Rightarrow> nat \<Rightarrow> control_object \<Rightarrow> service_object \<times> control_object" where
  "Service_owned this ownerAddr object = service_setOwner this ownerAddr object new_Service"

text \<open>SERVICE_MAKE, by which a control object takes its services.\<close>
definition SERVICE_MAKE ::
  "string \<Rightarrow> nat \<Rightarrow> nat \<Rightarrow> control_object \<Rightarrow> service_object \<Rightarrow> service_object \<times> control_object" where
  "SERVICE_MAKE service_name this ownerAddr object s =
     service_setOwner this ownerAddr object (setServiceName service_name s)"

text \<open>Adding a parameter to a service compares the result of find with the end of a container reached through an
  iterator that was never set.\<close>
definition service_addServiceParam :: "string \<Rightarrow> string \<Rightarrow> service_object \<Rightarrow> service_object res" where
  "service_addServiceParam paramName paramType s = Inl Undefined"

definition control_addServiceParam ::
  "(nat \<Rightarrow> service_object) \<Rightarrow> string \<Rightarrow> string \<Rightarrow> string \<Rightarrow> control_object \<Rightarrow> (nat \<Rightarrow> service_object) res" where
  "control_addServiceParam services serviceName paramName paramType object =
     (case om_find (co_services object) serviceName of
        None \<Rightarrow> Inr services
      | Some i \<Rightarrow> mapR (\<lambda>s. services(i := s)) (service_addServiceParam paramName paramType (services i)))"

lemma control_addServiceParam_ok:
  "is_ok (control_addServiceParam services name paramName paramType object) \<longleftrightarrow> om_find (co_services object) name = None"
  by (auto simp: control_addServiceParam_def service_addServiceParam_def is_ok_iff res_simps split: option.split)

lemma addService_found:
  "om_ok (co_services object) \<Longrightarrow> om_find (co_services (addService name (Some s) object)) n =
     (if n = name then Some s else om_find (co_services object) n)"
  by (auto simp: addService_def om_find_put om_find_insert)

lemma SERVICE_MAKE_registers:
  assumes "om_ok (co_services object)"
  shows "om_find (co_services (snd (SERVICE_MAKE name this addr object s))) name = Some this"
    and "sb_owner (fst (SERVICE_MAKE name this addr object s)) = Some addr"
  using addService_found [OF assms]
  by (simp_all add: SERVICE_MAKE_def service_setOwner_def setServiceName_def)

text \<open>A service made with its owner is found under no name but the empty one.\<close>
lemma Service_owned_unnamed:
  assumes "om_ok (co_services object)" "n \<noteq> []"
  shows "om_find (co_services (snd (Service_owned this addr object))) n = om_find (co_services object) n"
  using addService_found [OF assms(1)] assms(2) by (simp add: Service_owned_def service_setOwner_def new_Service_def)

text \<open>The service interface: the object of the path is called when it is a control object.\<close>
definition runService ::
  "(string \<Rightarrow> 'd) \<Rightarrow> 'd \<Rightarrow> 'd service_map \<Rightarrow> (nat \<Rightarrow> control_object) \<Rightarrow> 'm manager \<Rightarrow> string \<Rightarrow> string \<Rightarrow> string \<Rightarrow>
     'd svc_state \<Rightarrow> 'd svc_state res" where
  "runService atof zero serviceMap objects m objectName serviceName param st =
     (case getObject objectName m of
        Some (CtrlRef c) \<Rightarrow> call_named atof zero serviceMap (objects c) serviceName param st
      | _ \<Rightarrow> Inr st)"

text \<open>An object that was not made by its class name has an empty class name until another one was, and then none
  of its services is run.\<close>
lemma unnamed_class_calls_nothing:
  assumes "find_info serviceMap (co_className obj) name = None"
  shows "call_named atof zero serviceMap obj name params st = Inr st"
  using assms by (simp add: call_named_def split: option.split)

section \<open>sleep\<close>

text \<open>On Linux sleep finds itself: None when the call does not return.\<close>
partial_function (option) sleep_Linux :: "int \<Rightarrow> unit option" where
  "sleep_Linux second = sleep_Linux second"

definition control_sleep :: "platform \<Rightarrow> int \<Rightarrow> unit option" where
  "control_sleep p second = (case p of Windows \<Rightarrow> Some () | Linux \<Rightarrow> sleep_Linux second)"

lemma sleep_Linux_None: "sleep_Linux second = None"
proof -
  have "False" if "sleep_Linux s = Some r" for s r
    by (rule sleep_Linux.raw_induct [where P = "\<lambda>_ _. False", OF _ that])
  then show ?thesis by (cases "sleep_Linux second") blast+
qed

lemma control_sleep_returns: "control_sleep p second = Some () \<longleftrightarrow> p = Windows"
  by (cases p) (simp_all add: control_sleep_def sleep_Linux_None)

section \<open>Several callers of one service\<close>

text \<open>Where a caller is: about to write the parameter of a position, inside the lock, after execute, done.\<close>
datatype call_loc = Assigning nat | Locked | Ran | Done

record 'd call_world =
  cw_params :: "(string, 'd service_param) omap"     \<comment> \<open>the service's Params\<close>
  cw_mutex :: mutex                                    \<comment> \<open>the owner's \<open>mutex_service\<close>\<close>
  cw_runs :: "(nat \<times> (string, 'd service_param) omap) list"
  cw_loc :: "nat \<Rightarrow> call_loc"

text \<open>\<open>texts t\<close> are the parameter texts of the caller \<open>t\<close>; a thread made by start has none.\<close>
inductive call_step ::
  "platform \<Rightarrow> (string \<Rightarrow> 'd) \<Rightarrow> 'd \<Rightarrow> (string, 'd service_param) omap \<Rightarrow> (nat \<Rightarrow> string list) \<Rightarrow>
     'd call_world \<Rightarrow> 'd call_world \<Rightarrow> bool"
  for p atof zero infos texts where
  assign: "cw_loc w t = Assigning i \<Longrightarrow> i < length (texts t) \<Longrightarrow>
    assign_param atof zero infos (int i) (texts t ! i) (cw_params w) = Inr ps \<Longrightarrow>
    call_step p atof zero infos texts w (w\<lparr>cw_params := ps, cw_loc := (cw_loc w)(t := Assigning (i + 1))\<rparr>)"
| lock: "cw_loc w t = Assigning (length (texts t)) \<Longrightarrow> mutex_lock p t (cw_mutex w) = Some m \<Longrightarrow>
    call_step p atof zero infos texts w (w\<lparr>cw_mutex := m, cw_loc := (cw_loc w)(t := Locked)\<rparr>)"
| run: "cw_loc w t = Locked \<Longrightarrow>
    call_step p atof zero infos texts w (w\<lparr>cw_runs := cw_runs w @ [(t, cw_params w)], cw_loc := (cw_loc w)(t := Ran)\<rparr>)"
| unlock: "cw_loc w t = Ran \<Longrightarrow>
    call_step p atof zero infos texts w
      (w\<lparr>cw_mutex := mutex_unlock p t (cw_mutex w), cw_loc := (cw_loc w)(t := Done)\<rparr>)"

inductive_cases call_stepE: "call_step p atof zero infos texts w w'"

definition call_start :: "(string, 'd service_param) omap \<Rightarrow> 'd call_world" where
  "call_start ps = \<lparr> cw_params = ps, cw_mutex = new_mutex, cw_runs = [], cw_loc = \<lambda>_. Assigning 0 \<rparr>"

inductive call_reach ::
  "platform \<Rightarrow> (string \<Rightarrow> 'd) \<Rightarrow> 'd \<Rightarrow> (string, 'd service_param) omap \<Rightarrow> (nat \<Rightarrow> string list) \<Rightarrow>
     (string, 'd service_param) omap \<Rightarrow> 'd call_world \<Rightarrow> bool"
  for p atof zero infos texts ps where
  start: "call_reach p atof zero infos texts ps (call_start ps)"
| step: "call_reach p atof zero infos texts ps w \<Longrightarrow> call_step p atof zero infos texts w w' \<Longrightarrow>
    call_reach p atof zero infos texts ps w'"

subsection \<open>The callers as threads in a critical section\<close>

definition call_section :: "'d call_world \<Rightarrow> section_state" where
  "call_section w = (\<lambda>t. if cw_loc w t = Locked \<or> cw_loc w t = Ran then Inside else Outside, cw_mutex w)"

lemma call_step_refines:
  assumes "call_step p atof zero infos texts w w'"
  shows "call_section w' = call_section w \<or> cs_step p (call_section w) (call_section w')"
  using assms
proof (cases rule: call_step.cases)
  case (assign t i ps)
  then show ?thesis by (auto simp: call_section_def)
next
  case (lock t m)
  have "call_section w' = ((fst (call_section w))(t := Inside), m)" using lock by (auto simp: call_section_def)
  moreover have "call_section w = (fst (call_section w), cw_mutex w)" by (simp add: call_section_def)
  moreover have "fst (call_section w) t = Outside" using lock by (simp add: call_section_def)
  ultimately show ?thesis using cs_enter [of "fst (call_section w)" t p "cw_mutex w" m] lock(3) by simp
next
  case (run t)
  then show ?thesis by (auto simp: call_section_def)
next
  case (unlock t)
  have "call_section w' = ((fst (call_section w))(t := Outside), mutex_unlock p t (cw_mutex w))"
    using unlock by (auto simp: call_section_def)
  moreover have "call_section w = (fst (call_section w), cw_mutex w)" by (simp add: call_section_def)
  moreover have "fst (call_section w) t = Inside" using unlock by (simp add: call_section_def)
  ultimately show ?thesis using cs_leave [of "fst (call_section w)" t p "cw_mutex w"] by simp
qed

lemma call_reach_refines: "call_reach p atof zero infos texts ps w \<Longrightarrow> cs_reach p (call_section w)"
proof (induction rule: call_reach.induct)
  case start
  then show ?case using cs_init [of p] by (simp add: call_section_def call_start_def)
next
  case (step w w')
  then show ?case using call_step_refines [OF step(2)] cs_next by metis
qed


lemma call_exclusive:
  assumes "call_reach Windows atof zero infos texts ps w" "cw_loc w t \<in> {Locked, Ran}" "cw_loc w u \<in> {Locked, Ran}"
  shows "t = u"
proof -
  have r: "cs_reach Windows (fst (call_section w), cw_mutex w)"
    using call_reach_refines [OF assms(1)] by (simp add: call_section_def)
  have "fst (call_section w) t = Inside" "fst (call_section w) u = Inside" using assms(2,3) by (auto simp: call_section_def)
  then show ?thesis using cs_inside_owner [OF r] by (metis option.inject)
qed

subsection \<open>The parameters of another caller\<close>

lemma call_steps_assign:
  assumes "call_reach p atof zero infos texts ps0 w" "cw_loc w t = Assigning i" "i \<le> length (texts t)"
    and "assign_params atof zero infos (int i) (drop i (texts t)) (cw_params w) = Inr ps"
  shows "call_reach p atof zero infos texts ps0
     (w\<lparr>cw_params := ps, cw_loc := (cw_loc w)(t := Assigning (length (texts t)))\<rparr>)"
  using assms
proof (induction "length (texts t) - i" arbitrary: i w)
  case 0
  then have "i = length (texts t)" by simp
  then have "ps = cw_params w" "(cw_loc w)(t := Assigning (length (texts t))) = cw_loc w" using 0 by auto
  then show ?case using 0(2) by simp
next
  case (Suc k)
  then have i: "i < length (texts t)" by simp
  then have d: "drop i (texts t) = texts t ! i # drop (Suc i) (texts t)" by (simp add: Cons_nth_drop_Suc)
  from Suc(6) obtain ps1 where ps1: "assign_param atof zero infos (int i) (texts t ! i) (cw_params w) = Inr ps1"
    "assign_params atof zero infos (int (Suc i)) (drop (Suc i) (texts t)) ps1 = Inr ps"
    by (auto simp: d res_simps add.commute)
  let ?w = "w\<lparr>cw_params := ps1, cw_loc := (cw_loc w)(t := Assigning (i + 1))\<rparr>"
  have "call_reach p atof zero infos texts ps0 ?w"
    by (rule call_reach.step [OF Suc(3)], rule call_step.assign) (use Suc(4) i ps1(1) in simp_all)
  from Suc(1) [of "Suc i", OF _ this] Suc(2) i ps1(2) show ?case by simp
qed

text \<open>A caller's execute can run with every parameter from a later caller, whatever both pass.\<close>
lemma call_overtaken:
  assumes "indexed infos names" "om_ok ps0" "t \<noteq> u"
    and "\<And>v. v \<in> {t, u} \<Longrightarrow> length (texts v) = length names \<and> (\<forall>x \<in> set (texts v). is_ok (decodeParam x))"
  shows "\<exists>w ps. call_reach p atof zero infos texts ps0 w \<and> cw_runs w = [(t, ps)] \<and>
     (\<forall>k < length names. \<exists>q r d. om_find infos (names ! k) = Some q \<and> om_find ps (names ! k) = Some r \<and>
        decodeParam (texts u ! k) = Inr d \<and> param_holds atof (sp_type q) d r)"
proof -
  have len: "length (texts t) = length names" "length (texts u) = length names" using assms(4) by auto
  have dec: "\<forall>x \<in> set (texts t). is_ok (decodeParam x)" "\<forall>x \<in> set (texts u). is_ok (decodeParam x)" using assms(4) by auto
  obtain ps1 where 1: "assign_params atof zero infos 0 (texts t) ps0 = Inr ps1" "om_ok ps1"
    using assign_params_from [OF assms(1), of 0 "texts t" ps0 atof zero] len(1) dec(1) assms(2) by auto
  obtain ps2 where 2: "assign_params atof zero infos 0 (texts u) ps1 = Inr ps2"
    and holds: "\<forall>k < length names. \<exists>q r d. om_find infos (names ! k) = Some q \<and> om_find ps2 (names ! k) = Some r \<and>
        decodeParam (texts u ! k) = Inr d \<and> param_holds atof (sp_type q) d r"
    using assign_params_from [OF assms(1), of 0 "texts u" ps1 atof zero] len(2) dec(2) 1(2) by auto
  let ?w0 = "call_start ps0"
  let ?w1 = "?w0\<lparr>cw_params := ps1, cw_loc := (cw_loc ?w0)(t := Assigning (length (texts t)))\<rparr>"
  let ?w2 = "?w1\<lparr>cw_params := ps2, cw_loc := (cw_loc ?w1)(u := Assigning (length (texts u)))\<rparr>"
  have "call_reach p atof zero infos texts ps0 ?w1"
    by (rule call_steps_assign [OF call_reach.start, where i = 0]) (simp_all add: call_start_def 1(1))
  then have r2: "call_reach p atof zero infos texts ps0 ?w2"
    by (rule call_steps_assign [where i = 0]) (use assms(3) 2 in \<open>simp_all add: call_start_def\<close>)
  obtain m where m: "mutex_lock p t (cw_mutex ?w2) = Some m"
    by (cases p) (simp_all add: call_start_def mutex_lock_def new_mutex_def)
  let ?w3 = "?w2\<lparr>cw_mutex := m, cw_loc := (cw_loc ?w2)(t := Locked)\<rparr>"
  have r3: "call_reach p atof zero infos texts ps0 ?w3"
    by (rule call_reach.step [OF r2 call_step.lock [OF _ m]]) (use assms(3) in simp)
  let ?w4 = "?w3\<lparr>cw_runs := cw_runs ?w3 @ [(t, cw_params ?w3)], cw_loc := (cw_loc ?w3)(t := Ran)\<rparr>"
  have "call_reach p atof zero infos texts ps0 ?w4"
    by (rule call_reach.step [OF r3], rule call_step.run) simp
  moreover have "cw_runs ?w4 = [(t, ps2)]" by (simp add: call_start_def)
  ultimately show ?thesis using holds by blast
qed


section \<open>The thread of a service\<close>

text \<open>start makes a thread on Windows only: the services whose execute some thread will run.\<close>
definition control_start :: "platform \<Rightarrow> nat option \<Rightarrow> nat list \<Rightarrow> nat list" where
  "control_start p service threads =
     (case service of None \<Rightarrow> threads | Some s \<Rightarrow> if p = Windows then threads @ [s] else threads)"

text \<open>ThreadHandler of the thread \<open>t\<close>: a service without an owner is executed without the mutex; None when the
  thread waits.\<close>
definition ThreadHandler :: "platform \<Rightarrow> nat \<Rightarrow> service_object option \<Rightarrow> 'd call_world \<Rightarrow> 'd call_world option" where
  "ThreadHandler p t service w =
     (case service of
        None \<Rightarrow> Some w
      | Some s \<Rightarrow>
          (let executed = (\<lambda>w. w\<lparr>cw_runs := cw_runs w @ [(t, cw_params w)], cw_loc := (cw_loc w)(t := Done)\<rparr>)
           in case sb_owner s of
                None \<Rightarrow> Some (executed w)
              | Some _ \<Rightarrow>
                  (case mutex_lock p t (cw_mutex w) of
                     None \<Rightarrow> None
                   | Some m \<Rightarrow> Some ((executed w)\<lparr>cw_mutex := mutex_unlock p t m\<rparr>))))"

text \<open>The thread of an owned service is a caller without parameters that is not interrupted.\<close>
lemma ThreadHandler_reach:
  assumes "call_reach p atof zero infos texts ps w" "texts t = []" "cw_loc w t = Assigning 0"
    and "ThreadHandler p t (Some s) w = Some w'" "sb_owner s \<noteq> None"
  shows "call_reach p atof zero infos texts ps w'"
proof -
  obtain m where m: "mutex_lock p t (cw_mutex w) = Some m"
    and w': "w' = w\<lparr>cw_runs := cw_runs w @ [(t, cw_params w)], cw_mutex := mutex_unlock p t m, cw_loc := (cw_loc w)(t := Done)\<rparr>"
    using assms(4,5) by (auto simp: ThreadHandler_def Let_def split: option.splits)
  let ?a = "w\<lparr>cw_mutex := m, cw_loc := (cw_loc w)(t := Locked)\<rparr>"
  let ?b = "?a\<lparr>cw_runs := cw_runs ?a @ [(t, cw_params ?a)], cw_loc := (cw_loc ?a)(t := Ran)\<rparr>"
  have "call_reach p atof zero infos texts ps ?a"
    by (rule call_reach.step [OF assms(1)], rule call_step.lock) (use assms(2,3) m in simp_all)
  then have "call_reach p atof zero infos texts ps ?b" by (rule call_reach.step, intro call_step.run) simp
  then have "call_reach p atof zero infos texts ps
     (?b\<lparr>cw_mutex := mutex_unlock p t (cw_mutex ?b), cw_loc := (cw_loc ?b)(t := Done)\<rparr>)"
    by (rule call_reach.step, intro call_step.unlock) simp
  then show ?thesis by (simp add: w')
qed

end
