(* ===== verification/Time_Text.thy ===== *)
theory Time_Text
  imports Time_Converter Storm_Lists
begin

text \<open>
  Reading a time with sscanf (getTimeFromString of src/time_converter.cc), and what of that file needs
  the clock of Windows only.  The format is a list of conversions and literal characters; a conversion
  that fails ends the call and leaves the rest of the fields as they were.
\<close>

section \<open>sscanf of integers\<close>

datatype scan_item = Scan_int | Scan_char char | Scan_space

text \<open>\<open>%d\<close>: white space, a sign, at least one digit; the value is stored in an int.\<close>
definition scan_int :: "string \<Rightarrow> (int \<times> string) option" where
  "scan_int s =
     (let t = dropWhile is_space s;
          neg = (t \<noteq> [] \<and> hd t = CHR ''-'');
          u = (if t \<noteq> [] \<and> hd t \<in> {CHR ''-'', CHR ''+''} then tl t else t);
          n = int (read_digits 0 (takeWhile is_digit u))
      in if takeWhile is_digit u = [] then None
         else Some (wrap32 (max long_min (min long_max (if neg then - n else n))), dropWhile is_digit u))"

fun scan_items :: "scan_item list \<Rightarrow> string \<Rightarrow> int list" where
  "scan_items [] s = []"
| "scan_items (Scan_int # is) s = (case scan_int s of None \<Rightarrow> [] | Some (v, r) \<Rightarrow> v # scan_items is r)"
| "scan_items (Scan_char c # is) s = (case s of [] \<Rightarrow> [] | x # r \<Rightarrow> if x = c then scan_items is r else [])"
| "scan_items (Scan_space # is) s = scan_items is (dropWhile is_space s)"

text \<open>"%d-%d-%d %d:%d:%d"\<close>
definition time_format :: "scan_item list" where
  "time_format = [Scan_int, Scan_char (CHR ''-''), Scan_int, Scan_char (CHR ''-''), Scan_int, Scan_space,
     Scan_int, Scan_char (CHR '':''), Scan_int, Scan_char (CHR '':''), Scan_int]"

text \<open>The addresses passed, in their order.\<close>
definition time_setters :: "(int \<Rightarrow> time_item \<Rightarrow> time_item) list" where
  "time_setters = [\<lambda>v t. t\<lparr>ti_year := v\<rparr>, \<lambda>v t. t\<lparr>ti_month := v\<rparr>, \<lambda>v t. t\<lparr>ti_day := v\<rparr>,
     \<lambda>v t. t\<lparr>ti_hour := v\<rparr>, \<lambda>v t. t\<lparr>ti_minute := v\<rparr>, \<lambda>v t. t\<lparr>ti_sec := v\<rparr>]"

definition getTimeFromString :: "string \<Rightarrow> string \<Rightarrow> time_item" where
  "getTimeFromString str format =
     (if format = ''yyyy-MM-dd HH:mm:ss''
      then fold (\<lambda>(set, v). set v) (zip time_setters (scan_items time_format (c_string str))) new_time_item
      else new_time_item)"

section \<open>The clock of Windows\<close>

text \<open>getCurrentTime fills the item from the clock on Windows and is empty on Linux; the other overload of
  getTimeFromTimeStamp fills it from a time stamp.\<close>
definition getCurrentTime :: "platform \<Rightarrow> time_item \<Rightarrow> time_item \<Rightarrow> (string \<times> time_item) res" where
  "getCurrentTime p sys t =
     (case p of
        Linux \<Rightarrow> Inr ([], t)
      | Windows \<Rightarrow>
          mapR (\<lambda>s. (s, sys))
            (sprintf_tmp (pad_zeros 4 (ti_year sys) @ ''-'' @ pad_zeros 2 (ti_month sys) @ ''-'' @ pad_zeros 2 (ti_day sys) @
               '' '' @ clock_text (ti_hour sys) (ti_minute sys) (ti_sec sys))))"

definition getTimeItemFromTimeStamp ::
  "platform \<Rightarrow> (int \<Rightarrow> time_item) \<Rightarrow> int \<Rightarrow> time_item \<Rightarrow> (string \<times> time_item) res" where
  "getTimeItemFromTimeStamp p localtime timeStamp t =
     (case p of
        Linux \<Rightarrow> Inr ([], t)
      | Windows \<Rightarrow>
          (let i = localtime timeStamp
           in mapR (\<lambda>s. (s, i\<lparr>ti_msec := ti_msec t\<rparr>))
                (sprintf_tmp (date_text (CHR ''/'') (ti_year i) (ti_month i) (ti_day i) @ '' '' @
                   clock_text (ti_hour i) (ti_minute i) (ti_sec i)))))"

definition timeToString :: "time_item \<Rightarrow> bool \<Rightarrow> string" where
  "timeToString t format = []"

section \<open>Facts\<close>

lemma takeWhile_digits: "\<forall>x \<in> set ds. is_digit x \<Longrightarrow> r = [] \<or> \<not> is_digit (hd r) \<Longrightarrow>
   takeWhile is_digit (ds @ r) = ds \<and> dropWhile is_digit (ds @ r) = r"
  by (cases r) (auto simp: takeWhile_append dropWhile_append)

text \<open>A non-negative number in decimal, however padded, is read up to the next character that is no digit.\<close>
lemma scan_int_digits:
  assumes "\<forall>x \<in> set ds. is_digit x" "ds \<noteq> []" "int (read_digits 0 ds) = v" "int32 v" "r = [] \<or> \<not> is_digit (hd r)"
    and "\<forall>x \<in> set sp. is_space x"
  shows "scan_int (sp @ ds @ r) = Some (v, r)"
proof -
  obtain d es where ds: "ds = d # es" using assms(2) by (cases ds) auto
  have d: "is_digit d" using assms(1) ds by simp
  have t: "dropWhile is_space (sp @ ds @ r) = ds @ r"
    using assms(6) is_digit_facts(1) [OF d] by (simp add: dropWhile_append ds)
  have h: "hd (ds @ r) \<noteq> CHR ''-''" "hd (ds @ r) \<noteq> CHR ''+''" using is_digit_facts(2,3) [OF d] by (simp_all add: ds)
  have "max long_min (min long_max v) = v" using assms(4) by (simp add: long_min_def long_max_def int32_def)
  then show ?thesis
    using takeWhile_digits [OF assms(1,5)] h assms(2,3) wrap32_id [OF assms(4)]
    by (simp add: scan_int_def Let_def t)
qed

lemma read_zeros: "read_digits 0 (replicate k (CHR ''0'') @ s) = read_digits 0 s"
  by (induction k) (simp_all add: is_digit_def digit_val_def)

lemma scan_pad_zeros:
  assumes "0 \<le> v" "int32 v" "r = [] \<or> \<not> is_digit (hd r)"
  shows "scan_int (pad_zeros w v @ r) = Some (v, r)"
proof -
  have z: "is_digit (CHR ''0'')" by (simp add: is_digit_def)
  have p: "pad_zeros w v = replicate (w - length (show_nat (nat v))) (CHR ''0'') @ show_nat (nat v)"
    using assms(1) by (simp add: pad_zeros_def)
  have "scan_int ([] @ pad_zeros w v @ r) = Some (v, r)"
    by (rule scan_int_digits) (use assms z in \<open>auto simp: p read_zeros show_nat_digits\<close>)
  then show ?thesis by simp
qed

lemma scan_pad_spaces:
  assumes "0 \<le> v" "int32 v" "r = [] \<or> \<not> is_digit (hd r)"
  shows "scan_int (pad_spaces w v @ r) = Some (v, r)"
proof -
  have s: "is_space (CHR '' '')" by (simp add: is_space_def)
  have "scan_int (replicate (w - length (show_int v)) (CHR '' '') @ show_int v @ r) = Some (v, r)"
    by (rule scan_int_digits) (use assms s in \<open>auto simp: show_int_def show_nat_digits\<close>)
  then show ?thesis by (simp add: pad_spaces_def)
qed

text \<open>The fields of a time that can be written without a sign.\<close>
definition plain_time :: "time_item \<Rightarrow> bool" where
  "plain_time t = (\<forall>v \<in> {ti_year t, ti_month t, ti_day t, ti_hour t, ti_minute t, ti_sec t}. 0 \<le> v \<and> int32 v)"

lemma scan_time_text:
  assumes "plain_time t" "r = [] \<or> \<not> is_digit (hd r)"
  shows "scan_items time_format (date_text (CHR ''-'') (ti_year t) (ti_month t) (ti_day t) @ '' '' @
     clock_text (ti_hour t) (ti_minute t) (ti_sec t) @ r) =
     [ti_year t, ti_month t, ti_day t, ti_hour t, ti_minute t, ti_sec t]"
proof -
  have f: "0 \<le> v \<and> int32 v" if "v \<in> {ti_year t, ti_month t, ti_day t, ti_hour t, ti_minute t, ti_sec t}" for v
    using assms(1) that unfolding plain_time_def by blast
  have sep: "\<not> is_digit (CHR ''-'')" "\<not> is_digit (CHR '':'')" "\<not> is_digit (CHR '' '')" "is_space (CHR '' '')"
    by (simp_all add: is_digit_def is_space_def)
  have sp: "dropWhile is_space (pad_zeros 2 (ti_hour t) @ u) = pad_zeros 2 (ti_hour t) @ u" for u
  proof -
    have "is_digit (hd (pad_zeros 2 (ti_hour t)))" "pad_zeros 2 (ti_hour t) \<noteq> []"
      using f [of "ti_hour t"] hd_show_nat_digit
      by (auto simp: pad_zeros_def hd_append is_digit_def [of "CHR ''0''"])
    then show ?thesis
      by (cases "pad_zeros 2 (ti_hour t)") (auto simp: is_digit_facts)
  qed
  show ?thesis
    using f assms(2) sep by (simp add: time_format_def date_text_def clock_text_def scan_pad_zeros scan_pad_spaces sp)
qed

lemma digits_no_zero: "is_digit c \<Longrightarrow> c \<noteq> CHR 0x00"
  by (auto simp: is_digit_def)

lemma pads_no_zero: "c \<in> set (pad_zeros w v) \<Longrightarrow> c \<noteq> CHR 0x00" "c \<in> set (pad_spaces w v) \<Longrightarrow> c \<noteq> CHR 0x00"
  by (auto simp: pad_zeros_def pad_spaces_def show_int_def dest: show_nat_digits digits_no_zero split: if_splits)

lemma texts_no_zero:
  "c \<in> set (date_text sep y m d) \<Longrightarrow> sep \<noteq> CHR 0x00 \<Longrightarrow> c \<noteq> CHR 0x00"
  "c \<in> set (clock_text h mi s) \<Longrightarrow> c \<noteq> CHR 0x00"
  by (auto simp: date_text_def clock_text_def dest: pads_no_zero)

text \<open>What the library writes on Linux it reads back, but for the milliseconds.\<close>
lemma Linux_time_read_back:
  assumes "plain_time t" "getCurrentTimeAsStr Linux t = Inr s"
  shows "getTimeFromString s ''yyyy-MM-dd HH:mm:ss'' =
     new_time_item\<lparr>ti_year := ti_year t, ti_month := ti_month t, ti_day := ti_day t,
       ti_hour := ti_hour t, ti_minute := ti_minute t, ti_sec := ti_sec t\<rparr>"
proof -
  have s: "s = date_text (CHR ''-'') (ti_year t) (ti_month t) (ti_day t) @ '' '' @
     clock_text (ti_hour t) (ti_minute t) (ti_sec t) @ ''.'' @ pad_zeros 3 (ti_msec t)"
    using assms(2) by (simp add: getCurrentTimeAsStr_def sprintf_tmp_def split: if_splits)
  have "c_string s = s"
    unfolding c_string_def s takeWhile_eq_all_conv by (auto dest: texts_no_zero pads_no_zero)
  then show ?thesis
    using scan_time_text [OF assms(1), of "''.'' @ pad_zeros 3 (ti_msec t)"]
    by (simp add: getTimeFromString_def s time_setters_def is_digit_def)
qed

text \<open>The texts with slashes, that of Windows among them, give the year only.\<close>
lemma slash_time_year_only:
  assumes "plain_time t" "getTimeFromTimeItem t = Inr s"
  shows "getTimeFromString s ''yyyy-MM-dd HH:mm:ss'' = new_time_item\<lparr>ti_year := ti_year t\<rparr>"
proof -
  have s: "s = date_text (CHR ''/'') (ti_year t) (ti_month t) (ti_day t) @ '' '' @
     clock_text (ti_hour t) (ti_minute t) (ti_sec t)"
    using assms(2) by (simp add: getTimeFromTimeItem_def sprintf_tmp_def split: if_splits)
  have "c_string s = s"
    unfolding c_string_def s takeWhile_eq_all_conv by (auto dest: texts_no_zero)
  moreover have "0 \<le> ti_year t" "int32 (ti_year t)" "\<not> is_digit (CHR ''/'')"
    using assms(1) by (simp_all add: plain_time_def is_digit_def)
  then have "scan_items time_format s = [ti_year t]"
    by (simp add: s date_text_def time_format_def scan_pad_spaces)
  ultimately show ?thesis by (simp add: getTimeFromString_def time_setters_def)
qed

end
