(* ===== verification/Code_Pages.thy ===== *)
theory Code_Pages
  imports Storm_Lists Converter Mutex
begin

text \<open>
  The conversions of src/converter.cc between the code page of the system and UTF-8, and its conversion of
  a number with a caller's format.  MultiByteToWideChar and WideCharToMultiByte are the arguments
  \<open>widen\<close> and \<open>narrow\<close>: the units of a text and the bytes of units, both without the terminator.  A
  call with the length -1 reads up to the terminator and counts it.
\<close>

text \<open>The units are those of the text as a C string; the second call converts the whole text, and one with a zero
  byte inside may not fit the buffer measured for the C string.\<close>
definition through_units ::
  "(string \<Rightarrow> 16 word list) \<Rightarrow> (16 word list \<Rightarrow> string) \<Rightarrow> string \<Rightarrow> string res" where
  "through_units widen narrow str =
     (let nwLen = length (widen (c_string str)) + 1;
          units = widen str
      in if nwLen < length units then Inl Undefined
         else let wide = takeWhile (\<lambda>u. u \<noteq> 0) units;
                  pBuf = narrow wide @ [CHR 0x00]
              in Inr (c_string pBuf))"

definition convertToUtf8 ::
  "platform \<Rightarrow> (string \<Rightarrow> 16 word list) \<Rightarrow> (16 word list \<Rightarrow> string) \<Rightarrow> string \<Rightarrow> string res" where
  "convertToUtf8 p widen_acp narrow_utf8 str =
     (case p of Windows \<Rightarrow> through_units widen_acp narrow_utf8 str | Linux \<Rightarrow> Inr [])"

definition utf8ToString ::
  "platform \<Rightarrow> (string \<Rightarrow> 16 word list) \<Rightarrow> (16 word list \<Rightarrow> string) \<Rightarrow> string \<Rightarrow> string res" where
  "utf8ToString p widen_utf8 narrow_acp str =
     (case p of Windows \<Rightarrow> through_units widen_utf8 narrow_acp str | Linux \<Rightarrow> Inr [])"

text \<open>The overload on a C string asks for the code by name.\<close>
definition convertToUtf8_code ::
  "platform \<Rightarrow> (string \<Rightarrow> 16 word list) \<Rightarrow> (16 word list \<Rightarrow> string) \<Rightarrow> string \<Rightarrow> string \<Rightarrow> string" where
  "convertToUtf8_code p widen_acp narrow_utf8 gb2312 code =
     (if code = ''gb2312'' then
        (case p of Windows \<Rightarrow> c_string (narrow_utf8 (widen_acp (c_string gb2312))) | Linux \<Rightarrow> [])
      else [])"

text \<open>A number in a caller's format goes through a buffer of 32 bytes.\<close>
definition convertToString_format :: "(string \<Rightarrow> int \<Rightarrow> string) \<Rightarrow> int \<Rightarrow> string \<Rightarrow> string res" where
  "convertToString_format sprintf v format =
     (if length (sprintf format v) < 32 then Inr (sprintf format v) else Inl Undefined)"

lemma c_string_id: "CHR 0x00 \<notin> set s \<Longrightarrow> c_string s = s"
  by (auto simp: c_string_def takeWhile_eq_all_conv)

lemma through_units_text:
  assumes "CHR 0x00 \<notin> set s" "0 \<notin> set (widen s)"
  shows "through_units widen narrow s = Inr (c_string (narrow (widen s) @ [CHR 0x00]))"
proof -
  have "takeWhile (\<lambda>u. u \<noteq> 0) (widen s) = widen s" using assms(2) by (subst takeWhile_eq_all_conv) metis
  then have "through_units widen narrow s =
     (if length (widen s) + 1 < length (widen s) then Inl Undefined else Inr (c_string (narrow (widen s) @ [CHR 0x00])))"
    unfolding through_units_def Let_def c_string_id [OF assms(1)] by (rule arg_cong)
  then show ?thesis by simp
qed

text \<open>On Windows the two conversions undo each other for a text that the system's do; on Linux every text is lost.\<close>
lemma code_pages_round_trip:
  assumes "CHR 0x00 \<notin> set s" "0 \<notin> set (widen_acp s)" "CHR 0x00 \<notin> set (narrow_utf8 (widen_acp s))"
    and "widen_utf8 (narrow_utf8 (widen_acp s)) = widen_acp s" "narrow_acp (widen_acp s) = s"
  shows "bindR (convertToUtf8 Windows widen_acp narrow_utf8 s) (utf8ToString Windows widen_utf8 narrow_acp) = Inr s"
    and "bindR (convertToUtf8 Linux widen_acp narrow_utf8 s) (utf8ToString Linux widen_utf8 narrow_acp) = Inr []"
proof -
  have z: "c_string (x @ [CHR 0x00]) = x" if "CHR 0x00 \<notin> set x" for x
    using that unfolding c_string_def by (subst takeWhile_append2) auto
  let ?u = "narrow_utf8 (widen_acp s)"
  have 1: "convertToUtf8 Windows widen_acp narrow_utf8 s = Inr ?u"
    using through_units_text [of s widen_acp narrow_utf8] assms(1,2) z [of ?u] assms(3) by (simp add: convertToUtf8_def)
  have 2: "utf8ToString Windows widen_utf8 narrow_acp ?u = Inr s"
    using through_units_text [of ?u widen_utf8 narrow_acp] assms z [of s] by (simp add: utf8ToString_def)
  show "bindR (convertToUtf8 Windows widen_acp narrow_utf8 s) (utf8ToString Windows widen_utf8 narrow_acp) = Inr s"
    by (simp add: 1 2)
  show "bindR (convertToUtf8 Linux widen_acp narrow_utf8 s) (utf8ToString Linux widen_utf8 narrow_acp) = Inr []"
    by (simp add: convertToUtf8_def utf8ToString_def)
qed

end
