(* ===== verification/Http_Request.thy ===== *)
theory Http_Request
  imports Storm_Lists Http
begin

text \<open>
  A request as its handler sees it (src/http_request.cc): the buffers libevent keeps for it, its
  headers, query and peer, and what is sent.  evbuffer_add appends, evbuffer_pullup gives the
  contents, and evhttp_send_reply sends and empties the output buffer.  The lookup of a header, the
  parsing of a query and the text of the uri are libevent's and arguments.
\<close>

record http_request =
  rq_response_header :: "(string, string) omap"
  rq_input :: string
  rq_output :: string
  rq_headers :: "(string \<times> string) list"
  rq_out_headers :: "(string \<times> string) list"
  rq_uri :: string
  rq_connection :: "(string \<times> int) option"
  rq_sent :: "(int \<times> (string \<times> string) list \<times> string) list"

text \<open>The request libevent hands to a callback.\<close>
definition received_request :: "string \<Rightarrow> (string \<times> string) list \<Rightarrow> string \<Rightarrow> (string \<times> int) option \<Rightarrow> http_request" where
  "received_request uri headers body conn =
     \<lparr> rq_response_header = new_HttpRequest, rq_input = body, rq_output = [], rq_headers = headers,
       rq_out_headers = [], rq_uri = uri, rq_connection = conn, rq_sent = [] \<rparr>"

text \<open>More bytes than the caller's object has are read outside of it.\<close>
definition AddBufferOut :: "string \<Rightarrow> nat \<Rightarrow> http_request \<Rightarrow> http_request res" where
  "AddBufferOut data len r =
     (if length data < len then Inl Undefined else Inr (r\<lparr>rq_output := rq_output r @ take len data\<rparr>))"

definition SendReply_code :: "int \<Rightarrow> http_request \<Rightarrow> http_request" where
  "SendReply_code code r =
     r\<lparr>rq_sent := rq_sent r @ [(code, rq_out_headers r, rq_output r)], rq_output := []\<rparr>"

definition SendReply_data :: "string \<Rightarrow> int \<Rightarrow> http_request \<Rightarrow> http_request" where
  "SendReply_data data code r =
     SendReply_code code (r\<lparr>rq_out_headers := rq_out_headers r @ rq_response_header r, rq_output := rq_output r @ data\<rparr>)"

text \<open>A zero byte is put behind the body, and the contents are read as a C string.\<close>
definition getBody :: "http_request \<Rightarrow> string \<times> http_request" where
  "getBody r = (let input = rq_input r @ [CHR 0x00] in (c_string input, r\<lparr>rq_input := input\<rparr>))"

text \<open>A header that is not there is a null pointer made a std::string.\<close>
definition getHeader :: "((string \<times> string) list \<Rightarrow> string \<Rightarrow> string option) \<Rightarrow> string \<Rightarrow> http_request \<Rightarrow> string res" where
  "getHeader find_header key r = (case find_header (rq_headers r) key of None \<Rightarrow> Inl Null_Deref | Some v \<Rightarrow> Inr v)"

definition getQueryValue ::
  "(string \<Rightarrow> (string \<times> string) list) \<Rightarrow> ((string \<times> string) list \<Rightarrow> string \<Rightarrow> string option) \<Rightarrow> string \<Rightarrow>
     http_request \<Rightarrow> string" where
  "getQueryValue parse_query find_header key r =
     (case find_header (parse_query (rq_uri r)) key of None \<Rightarrow> [] | Some v \<Rightarrow> v)"

text \<open>evhttp_uri_join leaves the buffer unfilled when the text does not fit.\<close>
definition getRequestUri :: "(string \<Rightarrow> string) \<Rightarrow> http_request \<Rightarrow> string res" where
  "getRequestUri uri_text r =
     (let t = uri_text (rq_uri r) in if length t < 8192 then Inr t else Inl Undefined)"

definition getRequestAddress :: "http_request \<Rightarrow> string" where
  "getRequestAddress r = (case rq_connection r of None \<Rightarrow> [] | Some (addr, port) \<Rightarrow> addr @ '':'' @ show_int port)"

definition getRequestHost :: "http_request \<Rightarrow> string" where
  "getRequestHost r = (case rq_connection r of None \<Rightarrow> [] | Some (addr, port) \<Rightarrow> addr)"

definition getRequestPort :: "http_request \<Rightarrow> int" where
  "getRequestPort r = (case rq_connection r of None \<Rightarrow> 0 | Some (addr, port) \<Rightarrow> port)"

section \<open>Facts\<close>

lemma c_string_zero: "c_string (s @ CHR 0x00 # t) = c_string s"
  by (induction s) (simp_all add: c_string_def)

text \<open>The body is read up to its first zero byte, however often it was read before.\<close>
lemma getBody_once:
  "fst (getBody r) = c_string (rq_input r) \<and> c_string (rq_input (snd (getBody r))) = c_string (rq_input r)"
  using c_string_zero [of "rq_input r" "[]"] by (simp add: getBody_def Let_def)

lemma getBody_again: "fst (getBody (((\<lambda>r. snd (getBody r)) ^^ n) r)) = c_string (rq_input r)"
proof (induction n)
  case 0
  show ?case by (simp add: getBody_once)
next
  case (Suc n)
  then show ?case by (simp add: getBody_once)
qed

text \<open>A reply carries all that was added since the last one, once.\<close>
lemma replies_split:
  "rq_sent (SendReply_data b c2 (SendReply_data a c1 r)) = rq_sent r @
     [(c1, rq_out_headers r @ rq_response_header r, rq_output r @ a),
      (c2, (rq_out_headers r @ rq_response_header r) @ rq_response_header r, b)]"
  by (simp add: SendReply_data_def SendReply_code_def)

lemma reply_after_buffer:
  assumes "AddBufferOut data len r = Inr r1"
  shows "rq_sent (SendReply_data rest code r1) = rq_sent r @
     [(code, rq_out_headers r @ rq_response_header r, rq_output r @ take len data @ rest)]"
  using assms by (auto simp: AddBufferOut_def SendReply_data_def SendReply_code_def split: if_splits)

text \<open>The address of a peer is its host and port.\<close>
lemma request_address:
  "rq_connection r \<noteq> None \<Longrightarrow> getRequestAddress r = getRequestHost r @ '':'' @ show_int (getRequestPort r)"
  by (auto simp: getRequestAddress_def getRequestHost_def getRequestPort_def)

end
