(* ===== verification/Driver_Binding.thy ===== *)
theory Driver_Binding
  imports Object_Manager
begin

text \<open>
  What the first loop of startNamespace in src/object_manager.cc does to one data object: it is bound to the
  drivers of its node number in the order of the map of control objects, and each binding overwrites
  the one before, so that the last driver of the node reads and writes it.
\<close>

text \<open>The drivers among the entries \<open>es\<close> that have the node number \<open>node\<close>.\<close>
definition drivers_of :: "'d manager \<Rightarrow> (string \<times> nat) list \<Rightarrow> int \<Rightarrow> nat list" where
  "drivers_of m es node =
     map snd (filter (\<lambda>e. Option.bind (om_find (om_ctrl_store m) (snd e)) ct_driverNode = Some node) es)"

definition addressed :: "untyped_data \<Rightarrow> bool" where
  "addressed u = (ud_nodeNumber u \<noteq> 0 \<and> ud_channelNumber u \<noteq> 0)"

definition bind_drivers :: "nat list \<Rightarrow> untyped_data \<Rightarrow> untyped_data" where
  "bind_drivers drvs u = (if addressed u then fold regist_channel drvs u else u)"

text \<open>A kind of data a driver can be bound to.\<close>
definition bindable :: "untyped_data \<Rightarrow> bool" where
  "bindable u = (ud_dataType u \<in> {INTDATA, DOUBLEDATA, STRINGDATA} \<and> ud_accessMode u \<in> {READONLY, READWRITE})"

lemma lift_ud_lift_ud [simp]: "lift_ud f (lift_ud g d) = lift_ud (\<lambda>u. f (g u)) d"
  unfolding lift_ud_def [of f "lift_ud g d"] lift_ud_def [of "\<lambda>u. f (g u)"] lift_ud_truncate lift_ud_value ..

lemma lift_ud_ident: "f (untyped_data.truncate d) = untyped_data.truncate d \<Longrightarrow> lift_ud f d = d"
  by (simp add: lift_ud_def untyped_data.defs data_point.defs)

lemma on_ud_on_ud [simp]: "on_ud f (on_ud g a) = on_ud (\<lambda>u. f (g u)) a"
  by (cases a) simp_all

lemma on_ud_ident: "f (the_ud a) = the_ud a \<Longrightarrow> on_ud f a = a"
  by (cases a) (simp_all add: lift_ud_ident)

lemma regist_channel_keeps [simp]:
  "ud_nodeNumber (regist_channel drv u) = ud_nodeNumber u" "ud_channelNumber (regist_channel drv u) = ud_channelNumber u"
  "ud_fullName (regist_channel drv u) = ud_fullName u" "ud_dataType (regist_channel drv u) = ud_dataType u"
  "ud_accessMode (regist_channel drv u) = ud_accessMode u"
  by (auto simp: regist_channel_def registChannelRead_def registChannelWrite_def split: data_type.split access_mode.split)

lemma regist_channel_overwrites [simp]: "regist_channel b (regist_channel a u) = regist_channel b u"
  unfolding regist_channel_def
  by (cases "ud_dataType u"; cases "ud_accessMode u") (simp_all add: registChannelRead_def registChannelWrite_def)

lemma fold_regist_channel: "fold regist_channel drvs u = (if drvs = [] then u else regist_channel (last drvs) u)"
  by (induction drvs arbitrary: u) auto

lemma bind_drivers_simps [simp]:
  "ud_nodeNumber (bind_drivers drvs u) = ud_nodeNumber u" "ud_channelNumber (bind_drivers drvs u) = ud_channelNumber u"
  "ud_fullName (bind_drivers drvs u) = ud_fullName u" "bind_drivers [] u = u"
  by (simp_all add: bind_drivers_def fold_regist_channel)

lemma bind_drivers_last:
  "bindable u \<Longrightarrow> addressed u \<Longrightarrow> drvs \<noteq> [] \<Longrightarrow> ud_driver (bind_drivers drvs u) = Some (last drvs)"
  by (auto simp: bind_drivers_def fold_regist_channel bindable_def regist_channel_def registChannelRead_def
      registChannelWrite_def)

section \<open>One driver\<close>

lemma on_store_keeps [simp]:
  "om_datas (on_store oid f m) = om_datas m" "om_ctrl_store (on_store oid f m) = om_ctrl_store m"
  "om_interval (on_store oid f m) = om_interval m"
  by (auto simp: on_store_def split: option.split)

lemma fold_on_store_keeps [simp]:
  "om_datas (fold (\<lambda>(n, oid). on_store oid g) xs m) = om_datas m"
  "om_ctrl_store (fold (\<lambda>(n, oid). on_store oid g) xs m) = om_ctrl_store m"
  "om_interval (fold (\<lambda>(n, oid). on_store oid g) xs m) = om_interval m"
  by (induction xs arbitrary: m) (auto split: prod.split)

lemma registChannels_keeps [simp]:
  "om_datas (registChannels drv node m) = om_datas m" "om_ctrl_store (registChannels drv node m) = om_ctrl_store m"
  "om_interval (registChannels drv node m) = om_interval m"
  by (simp_all add: registChannels_def)

lemma on_store_find:
  "om_ok (om_data_store m) \<Longrightarrow> om_find (om_data_store (on_store oid f m)) i =
     (if i = oid then map_option (on_ud f) (om_find (om_data_store m) i) else om_find (om_data_store m) i)"
  by (auto simp: on_store_def om_find_put split: option.split)

lemma fold_on_store_find:
  assumes "\<And>u. g (g u) = g u" "om_ok (om_data_store m)"
  shows "om_find (om_data_store (fold (\<lambda>(n, oid). on_store oid g) xs m)) i =
     (if i \<in> snd ` set xs then map_option (on_ud g) (om_find (om_data_store m) i) else om_find (om_data_store m) i)"
  using assms(2)
proof (induction xs arbitrary: m)
  case (Cons x xs)
  obtain n oid where x: "x = (n, oid)" by force
  show ?case using Cons.IH [OF on_store_ok [OF Cons.prems]] on_store_find [OF Cons.prems] assms(1)
    by (auto simp: x option.map_comp comp_def)
qed simp

lemma registChannels_find:
  assumes "om_ok (om_data_store m)" "oid \<in> snd ` set (om_datas m)" "om_find (om_data_store m) oid = Some a"
  shows "om_find (om_data_store (registChannels drv node m)) oid =
     Some (on_ud (bind_drivers (if ud_nodeNumber (the_ud a) = node then [drv] else [])) a)"
proof -
  have "oid \<in> snd ` set (getDatasOfNode node m) \<longleftrightarrow> addressed (the_ud a) \<and> ud_nodeNumber (the_ud a) = node"
    using assms(2,3) by (force simp: getDatasOfNode_def addressed_def)
  moreover have "on_ud (bind_drivers []) a = a" by (simp add: on_ud_ident)
  moreover have "\<not> addressed (the_ud a) \<Longrightarrow> on_ud (bind_drivers [drv]) a = a"
    by (simp add: on_ud_ident bind_drivers_def)
  moreover have "addressed (the_ud a) \<Longrightarrow> on_ud (bind_drivers [drv]) a = on_ud (regist_channel drv) a"
    by (cases a) (simp_all add: lift_ud_def bind_drivers_def)
  ultimately show ?thesis
    unfolding registChannels_def
    by (subst fold_on_store_find) (use assms(1,3) in auto)
qed

section \<open>All drivers\<close>

lemma bind_drivers_Cons: "bind_drivers drvs (bind_drivers [d] u) = bind_drivers (d # drvs) u"
  by (auto simp: bind_drivers_def addressed_def)

lemma regist_drivers_Cons:
  "snd (regist_drivers (e # es) m) = snd (regist_drivers es
     (case Option.bind (om_find (om_ctrl_store m) (snd e)) ct_driverNode of
        None \<Rightarrow> m | Some node \<Rightarrow> registChannels (snd e) node m))"
  by (auto split: option.splits prod.splits simp: bind_eq_Some_conv bind_eq_None_conv)

lemma regist_drivers_keeps:
  fixes m :: "'d manager"
  shows "om_datas (snd (regist_drivers es m)) = om_datas m \<and> om_ctrl_store (snd (regist_drivers es m)) = om_ctrl_store m \<and>
   om_interval (snd (regist_drivers es m)) = om_interval m"
proof (induction es arbitrary: m)
  case (Cons e es)
  show ?case unfolding regist_drivers_Cons using Cons.IH by (simp split: option.split)
qed simp

lemma regist_drivers_find:
  assumes "manager_ok m" "oid \<in> snd ` set (om_datas m)" "om_find (om_data_store m) oid = Some a"
  shows "om_find (om_data_store (snd (regist_drivers es m))) oid =
     Some (on_ud (bind_drivers (drivers_of m es (ud_nodeNumber (the_ud a)))) a)"
  using assms
proof (induction es arbitrary: m a)
  case Nil
  then show ?case by (simp add: drivers_of_def on_ud_ident)
next
  case (Cons e es)
  let ?n = "Option.bind (om_find (om_ctrl_store m) (snd e)) ct_driverNode"
  show ?case
  proof (cases ?n)
    case None
    then have "snd (regist_drivers (e # es) m) = snd (regist_drivers es m)" unfolding regist_drivers_Cons by simp
    then show ?thesis using Cons.IH [OF Cons.prems] None by (simp add: drivers_of_def)
  next
    case (Some node)
    let ?m = "registChannels (snd e) node m"
    have s: "snd (regist_drivers (e # es) m) = snd (regist_drivers es ?m)"
      unfolding regist_drivers_Cons by (simp only: Some option.simps)
    let ?ds = "if ud_nodeNumber (the_ud a) = node then [snd e] else []"
    have f: "om_find (om_data_store ?m) oid = Some (on_ud (bind_drivers ?ds) a)"
      by (rule registChannels_find) (use Cons.prems in \<open>simp_all add: manager_ok_def\<close>)
    have i: "om_find (om_data_store (snd (regist_drivers es ?m))) oid =
       Some (on_ud (bind_drivers (drivers_of ?m es (ud_nodeNumber (the_ud (on_ud (bind_drivers ?ds) a)))))
         (on_ud (bind_drivers ?ds) a))"
      by (rule Cons.IH [OF manager_ok_registChannels [OF Cons.prems(1)]]) (use Cons.prems(2) f in simp_all)
    have "drivers_of m (e # es) (ud_nodeNumber (the_ud a)) = ?ds @ drivers_of ?m es (ud_nodeNumber (the_ud a))"
      using Some by (simp add: drivers_of_def)
    then show ?thesis using s i by (simp add: bind_drivers_Cons)
  qed
qed

text \<open>After the start a data object is bound to the last driver of its node, if its channel is not zero.\<close>
lemma startNamespace_binds:
  assumes "manager_ok m" "om_find (om_datas m) name = Some oid" "om_find (om_data_store m) oid = Some a"
  shows "om_find (om_data_store (snd (startNamespace cbs m))) oid =
     Some (on_ud (bind_drivers (drivers_of m (om_entites m) (ud_nodeNumber (the_ud a)))) a)"
proof -
  have "oid \<in> snd ` set (om_datas m)" using assms(1,2) om_find_in_set [of "om_datas m" name oid]
    by (force simp: manager_ok_def)
  from regist_drivers_find [OF assms(1) this assms(3), of "om_entites m"] show ?thesis
    by (cases "regist_drivers (om_entites m) m") (simp add: startNamespace_def)
qed

lemma startNamespace_keeps:
  "om_entites (snd (startNamespace cbs m)) = om_entites m \<and> om_datas (snd (startNamespace cbs m)) = om_datas m \<and>
   om_interval (snd (startNamespace cbs m)) = om_interval m"
  using regist_drivers_keeps [of "om_entites m" m] regist_drivers_entites [of "om_entites m" m]
  by (auto simp: startNamespace_def split: prod.splits)

end
