(* ===== verification/Server_Start.thy ===== *)
theory Server_Start
  imports Application Xml_Parser Socket_Life Storm_Manager Driver_Binding Timer
begin

text \<open>
  The start of a server as a whole: the actions of IApplication::run (src/application.cc) performed on the
  state the components keep.  A socket is opened by its setters and connect, the XML configuration is
  loaded into the namespace, startNamespace binds the drivers and runs the phases.
\<close>

record 'd server =
  sv_xml :: "'d xml_state"                \<comment> \<open>the namespace and the next free address\<close>
  sv_subscribers :: storm_manager         \<comment> \<open>IckStormSubscriberManager\<close>
  sv_manager :: storm_manager             \<comment> \<open>IckStormManager\<close>
  sv_sockets :: "which_socket \<Rightarrow> live_socket"
  sv_events :: "ns_event list"
  sv_grpc :: "string option"

definition socket_setHost :: "string \<Rightarrow> live_socket \<Rightarrow> live_socket" where
  "socket_setHost host s = s\<lparr>lv_host := host\<rparr>"

definition socket_setPort :: "int \<Rightarrow> live_socket \<Rightarrow> live_socket" where
  "socket_setPort port s = s\<lparr>lv_port := port\<rparr>"

definition socket_setServer :: "bool \<Rightarrow> live_socket \<Rightarrow> live_socket" where
  "socket_setServer isServer s = s\<lparr>lv_isClient := \<not> isServer\<rparr>"

text \<open>What an action does; connect's answer is dropped.\<close>
definition perform_server ::
  "platform \<Rightarrow> net_env \<Rightarrow> (string \<Rightarrow> parse_result) \<Rightarrow> 'd data_dispatch \<Rightarrow> 'd ctrl_dispatch \<Rightarrow>
     (string \<times> ctrl_object option) list \<Rightarrow> 'd \<Rightarrow> callbacks \<Rightarrow> app_action \<Rightarrow> 'd server \<Rightarrow> 'd server res" where
  "perform_server p env parse dd cd classes zero cbs a s =
     (case a of
        SetNamespaceInterval i \<Rightarrow>
          Inr (s\<lparr>sv_xml := (sv_xml s)\<lparr>xs_mgr := om_setInterval i (xs_mgr (sv_xml s))\<rparr>\<rparr>)
      | UseSubscriberSocket \<Rightarrow>
          Inr (s\<lparr>sv_subscribers := clone_setIckStormSubscriberSocket True (sv_subscribers s)\<rparr>)
      | UseStormSocket w \<Rightarrow>
          Inr (s\<lparr>sv_manager := (if w = SubscriberSocket then setIckStormSubscriberSocket True (sv_manager s)
                                 else setIckStormServiceSocket True (sv_manager s))\<rparr>)
      | OpenSocket w host port isServer \<Rightarrow>
          mapR (\<lambda>(_, k). s\<lparr>sv_sockets := (sv_sockets s)(w := k)\<rparr>)
            (socket_connect p env (socket_setServer isServer (socket_setPort port (socket_setHost host (sv_sockets s w)))))
      | LoadXml dir \<Rightarrow> mapR (\<lambda>x. s\<lparr>sv_xml := x\<rparr>) (loadXmlConfig p parse dd cd classes zero dir (sv_xml s))
      | StartNamespace \<Rightarrow>
          (case startNamespace cbs (xs_mgr (sv_xml s)) of
             (ev, m) \<Rightarrow> Inr (s\<lparr>sv_xml := (sv_xml s)\<lparr>xs_mgr := m\<rparr>, sv_events := sv_events s @ ev\<rparr>))
      | StartGrpc port \<Rightarrow> Inr (s\<lparr>sv_grpc := Some port\<rparr>))"

section \<open>The start on both systems\<close>

text \<open>On Windows the configuration is beside the program: its path up to the last backslash, and one more
  when there is none.\<close>
definition module_directory :: "string \<Rightarrow> string" where
  "module_directory path =
     (if CHR 92 \<in> set path then rev (dropWhile (\<lambda>c. c \<noteq> CHR 92) (rev path)) else path @ [CHR 92])"

definition app_directory :: "platform \<Rightarrow> nat \<Rightarrow> string \<Rightarrow> string \<Rightarrow> flags \<Rightarrow> string option" where
  "app_directory p fuel cwd module fl =
     (case p of Linux \<Rightarrow> config_directory fuel cwd (fl_config fl) | Windows \<Rightarrow> Some (module_directory module))"

text \<open>The console of Windows gets the code page of the configuration, else UTF-8: the command given to it.\<close>
definition console_command :: "configures \<Rightarrow> string" where
  "console_command conf =
     (let charset = getValueByKey ''ICK_SERVER'' ''IckConsoleCharset'' conf
      in ''chcp '' @ (if charset \<noteq> [] then charset else ''65001''))"

text \<open>The configuration of a directory: None when it is never read to its end.\<close>
definition read_configuration :: "nat \<Rightarrow> (string \<Rightarrow> string option) \<Rightarrow> string \<Rightarrow> application \<Rightarrow> configures option" where
  "read_configuration fuel file dir ap =
     (if ap_isLoadIniConfig ap
      then map_option snd (loadConfigFile fuel (dir @ ''icklib.conf'') (file (dir @ ''icklib.conf'')) [])
      else Some [])"

definition actions_in :: "string \<Rightarrow> flags \<Rightarrow> configures \<Rightarrow> application \<Rightarrow> app_action list" where
  "actions_in dir fl conf ap =
     (if ap_isServer ap then server_actions conf else client_actions conf ap)
     @ (if ap_isLoadXmlConfig ap then [LoadXml dir, StartNamespace] else [])
     @ (if fl_enable_grpc_remote_service fl \<and> fl_grpc_remote_service_port fl \<noteq> []
        then [StartGrpc (fl_grpc_remote_service_port fl)] else [])"

text \<open>run on either system, with the commands given to the console.\<close>
definition run_on ::
  "platform \<Rightarrow> nat \<Rightarrow> string \<Rightarrow> string \<Rightarrow> flags \<Rightarrow> (string \<Rightarrow> string option) \<Rightarrow> (app_action \<Rightarrow> 's \<Rightarrow> 's res) \<Rightarrow>
     application \<Rightarrow> 's \<Rightarrow> (exit_kind \<times> string list \<times> 's) option" where
  "run_on p fuel cwd module fl file perform ap st =
     Option.bind (app_directory p fuel cwd module fl) (\<lambda>dir.
     map_option (\<lambda>conf.
       case run_actions perform (actions_in dir fl conf ap) st of
         (e, st') \<Rightarrow>
           (case e of None \<Rightarrow> Status 0 | Some (Throw msg) \<Rightarrow> Status 1 | Some x \<Rightarrow> Terminated x,
            case p of Windows \<Rightarrow> [console_command conf] | Linux \<Rightarrow> [], st'))
       (read_configuration fuel file dir ap))"

lemma run_on_Linux:
  "app_run fuel cwd fl file perform ap st =
     map_option (\<lambda>(k, cs, st'). (k, st')) (run_on Linux fuel cwd module fl file perform ap st)"
proof (cases "config_directory fuel cwd (fl_config fl)")
  case None
  then show ?thesis by (simp add: app_run_def run_on_def app_actions_def app_directory_def)
next
  case (Some dir)
  show ?thesis
  proof (cases "read_configuration fuel file dir ap")
    case None
    then show ?thesis using Some
      by (simp add: app_run_def run_on_def app_actions_def app_directory_def read_configuration_def)
  next
    case (Some conf)
    have "app_actions fuel cwd fl file ap =
        Some (actions_in dir fl conf ap, ap\<lparr>ap_isNetworkLan := app_network_lan conf ap\<rparr>)"
      using \<open>config_directory fuel cwd (fl_config fl) = Some dir\<close> Some
      by (simp add: app_actions_def read_configuration_def actions_in_def)
    moreover obtain e st' where "run_actions perform (actions_in dir fl conf ap) st = (e, st')" by force
    ultimately show ?thesis using \<open>config_directory fuel cwd (fl_config fl) = Some dir\<close> Some
      by (simp add: app_run_def run_on_def app_directory_def split: option.split err.split)
  qed
qed

section \<open>The other operations of the application\<close>

text \<open>The destructor stops the application's own thread and shuts the namespace down.\<close>
definition application_destroy :: "platform \<Rightarrow> bool \<Rightarrow> 'd manager \<Rightarrow> ns_event list res" where
  "application_destroy p joined m = bindR (thread_stop p joined new_thread) (\<lambda>_. shutdownNamespace m)"

text \<open>execute reads the configuration again; only the endpoint of a client is kept.\<close>
definition application_execute ::
  "nat \<Rightarrow> string \<Rightarrow> (string \<Rightarrow> string option) \<Rightarrow> application \<Rightarrow> application option" where
  "application_execute fuel dir file ap =
     (let load = map_option snd (loadConfigFile fuel (dir @ ''icklib.conf'') (file (dir @ ''icklib.conf'')) [])
      in if ap_isServer ap then map_option (\<lambda>_. ap) load
         else if ap_isLoadIniConfig ap then
           map_option (\<lambda>conf. ap\<lparr>ap_serviceEndPoint := getValueByKey ''ICK_CLIENT'' ''IckServiceEndPoint'' conf\<rparr>) load
         else Some ap)"

text \<open>loadConfig: without an argument Windows looks at the characters of an empty text, and Linux makes a
  std::string of the null pointer behind the arguments.\<close>
definition application_loadConfig ::
  "platform \<Rightarrow> (string \<Rightarrow> 's \<Rightarrow> 's res) \<Rightarrow> string list \<Rightarrow> 's \<Rightarrow> 's res" where
  "application_loadConfig p load argv st =
     (if p = Windows \<and> length argv = 1 then Inl Out_Of_Range
      else if length argv < 2 then Inl Undefined
      else load (argv ! 1) st)"

text \<open>The working directory goes through a buffer of MAX_PATH bytes, which a longer one leaves unfilled.\<close>
definition GetWorkDir :: "platform \<Rightarrow> string \<Rightarrow> string res" where
  "GetWorkDir p cwd = (case p of Linux \<Rightarrow> if length cwd < 260 then Inr cwd else Inl Undefined | Windows \<Rightarrow> Inr [])"

text \<open>The thread of the remote service: \<open>built\<close> says whether gRPC could build the server; without one the wait
  goes through a null pointer.\<close>
record grpc_thread =
  gt_listening_port :: string

definition new_GrpcRemoteServiceThread :: grpc_thread where
  "new_GrpcRemoteServiceThread = \<lparr> gt_listening_port = ''0.0.0.0:8090'' \<rparr>"

definition setListeningPort :: "string \<Rightarrow> grpc_thread \<Rightarrow> grpc_thread" where
  "setListeningPort listening_port th = th\<lparr>gt_listening_port := listening_port\<rparr>"

definition grpc_execute :: "(string \<Rightarrow> bool) \<Rightarrow> grpc_thread \<Rightarrow> unit res" where
  "grpc_execute built th = (if built (gt_listening_port th) then Inr () else Inl Null_Deref)"

lemma grpc_execute_port:
  "is_ok (grpc_execute built (setListeningPort p new_GrpcRemoteServiceThread)) \<longleftrightarrow> built p"
  by (simp add: grpc_execute_def setListeningPort_def)

lemma application_loadConfig_ok: "is_ok (application_loadConfig p load argv st) \<Longrightarrow> 2 \<le> length argv"
  by (auto simp: application_loadConfig_def split: if_splits)

section \<open>Loading a list of points\<close>

text \<open>An io element that describes one point, and the point it describes.\<close>
definition io_leaf :: "'d \<Rightarrow> dom_element \<Rightarrow> bool" where
  "io_leaf zero e =
     (de_children e = [] \<and> has_attr ''dataType'' e \<and> has_attr ''accessMode'' e \<and> has_attr ''Bd'' e \<and> has_attr ''Ch'' e \<and>
      atoi (getAttribute ''Bd'' e) \<noteq> 0 \<and>
      new_io_data zero (getAttribute ''dataType'' e) (getAttribute ''accessMode'' e) \<noteq> None)"

definition leaf_data :: "dom_element \<Rightarrow> string \<Rightarrow> untyped_data \<Rightarrow> bool" where
  "leaf_data e path u =
     (ud_fullName u = path \<and> ud_nodeNumber u = atoi (getAttribute ''Bd'' e) \<and>
      ud_channelNumber u = atoi (getAttribute ''Ch'' e) \<and> ud_driver u = None \<and> bindable u)"

definition xml_fresh :: "'d xml_state \<Rightarrow> bool" where
  "xml_fresh st = (xml_ok st \<and> (\<forall>i \<ge> xs_next st. om_find (om_data_store (xs_mgr st)) i = None))"

lemma new_io_data_bindable:
  "new_io_data zero t m = Some a \<Longrightarrow> ud_driver (the_ud a) = None \<and> bindable (the_ud a)"
  by (auto simp: new_io_data_def bindable_def ReadWriteInt_def ReadWriteDouble_def ReadWriteString_def ReadOnlyInt_def
      ReadOnlyDouble_def ReadOnlyString_def typed_point_def new_untyped_def untyped_data.defs data_point.defs split: if_splits)

lemma io_object_point:
  assumes "io_leaf zero e"
  shows "\<exists>b. io_object dispatch zero parents e = Inr b \<and> ud_nodeNumber (the_ud b) = atoi (getAttribute ''Bd'' e) \<and>
     ud_channelNumber (the_ud b) = atoi (getAttribute ''Ch'' e) \<and> ud_driver (the_ud b) = None \<and> bindable (the_ud b)"
proof -
  obtain a where a: "new_io_data zero (getAttribute ''dataType'' e) (getAttribute ''accessMode'' e) = Some a"
    using assms by (auto simp: io_leaf_def)
  from new_io_data_bindable [OF this] show ?thesis using assms a
    by (simp add: io_leaf_def io_object_def Let_def io_attributes_def set_if_def option.map_comp setDescription_def
        setSecondParamValue_def setFirstParamValue_def setChannelNumber_def setNodeNumber_def bindable_def)
qed

lemma load_leaf:
  assumes ok: "xml_fresh st" and leaf: "io_leaf zero e"
    and free: "\<not> isObjectRegisted (element_path parents (de_name e)) (xs_mgr st)" "element_path parents (de_name e) \<noteq> ''/''"
  defines "path \<equiv> element_path parents (de_name e)"
  shows "\<exists>st' b. LoadIO dispatch zero parents e st = Inr st' \<and> xml_fresh st' \<and> xs_next st' = xs_next st + 1 \<and>
     om_entites (xs_mgr st') = om_entites (xs_mgr st) \<and> om_ctrl_store (xs_mgr st') = om_ctrl_store (xs_mgr st) \<and>
     om_interval (xs_mgr st') = om_interval (xs_mgr st) \<and>
     (\<forall>n. om_find (om_datas (xs_mgr st')) n = (if n = path then Some (xs_next st) else om_find (om_datas (xs_mgr st)) n)) \<and>
     (\<forall>i. om_find (om_data_store (xs_mgr st')) i =
        (if i = xs_next st then Some b else om_find (om_data_store (xs_mgr st)) i)) \<and>
     leaf_data e path (the_ud b)"
proof -
  let ?m = "xs_mgr st" and ?i = "xs_next st"
  obtain c where c: "io_object dispatch zero parents e = Inr c" "ud_nodeNumber (the_ud c) = atoi (getAttribute ''Bd'' e)"
    "ud_channelNumber (the_ud c) = atoi (getAttribute ''Ch'' e)" "ud_driver (the_ud c) = None" "bindable (the_ud c)"
    using io_object_point [OF leaf] by blast
  let ?m1 = "?m\<lparr>om_data_store := om_put ?i c (om_data_store ?m)\<rparr>"
  have oks: "om_ok (om_datas ?m)" "om_ok (om_data_store ?m)" using ok by (simp_all add: xml_fresh_def xml_ok_def manager_ok_def)
  have p: "path \<noteq> []" "hd path = CHR ''/''" unfolding path_def by (cases "rev parents"; simp add: element_path_eq)+
  have fr: "om_find (om_datas ?m1) path = None"
    using free(1) p(1) by (simp add: isObjectRegisted_def path_def [symmetric] split: if_splits)
  have "om_find (om_data_store ?m1) ?i = Some c" using oks by (simp add: om_find_put)
  from registerData_cases [OF this p free(2) [folded path_def] fr] obtain segs where
    r: "registerData (Some ?i) path ?m1 = Inr (?m1
       \<lparr>om_data_store := om_put ?i (on_ud (setFullName path) c) (om_data_store ?m1),
        om_datas := om_insert path ?i (om_datas ?m1),
        om_dataNodeNames := add_path ''/'' segs (om_dataNodeNames ?m1)\<rparr>)" (is "_ = Inr ?m2") by blast
  let ?st = "\<lparr> xs_mgr = ?m2, xs_next = ?i + 1 \<rparr>"
  have l: "LoadIO dispatch zero parents e st = Inr ?st"
    using leaf c(1) r by (cases e) (simp add: load_io_object_def Let_def io_leaf_def path_def)
  have "xml_ok ?st" using xml_ok_LoadIO(1) [OF _ l] ok by (simp add: xml_fresh_def)
  then show ?thesis using l ok oks fr c(2-5)
    by (intro exI [of _ ?st] exI [of _ "on_ud (setFullName path) c"])
      (auto simp: xml_fresh_def om_find_put om_find_insert om_ok_put leaf_data_def bindable_def setFullName_def)
qed

text \<open>The point of an element in a namespace.\<close>
definition holds_point :: "string list \<Rightarrow> dom_element \<Rightarrow> 'd manager \<Rightarrow> bool" where
  "holds_point parents e m =
     (\<exists>oid b. om_find (om_datas m) (element_path parents (de_name e)) = Some oid \<and>
        om_find (om_data_store m) oid = Some b \<and> leaf_data e (element_path parents (de_name e)) (the_ud b))"

definition same_objects :: "'d manager \<Rightarrow> 'd manager \<Rightarrow> bool" where
  "same_objects m m' =
     (om_entites m' = om_entites m \<and> om_ctrl_store m' = om_ctrl_store m \<and> om_interval m' = om_interval m)"

lemma element_path_inj [simp]: "element_path ps a = element_path ps b \<longleftrightarrow> a = b"
  by (simp add: element_path_eq)

lemma load_leaves:
  assumes "xml_fresh st" "\<forall>e \<in> set es. io_leaf zero e" "distinct (map de_name es)"
    and "\<forall>e \<in> set es. \<not> isObjectRegisted (element_path parents (de_name e)) (xs_mgr st) \<and>
           element_path parents (de_name e) \<noteq> ''/''"
  shows "\<exists>st'. LoadIO_children dispatch zero parents es st = Inr st' \<and> xml_fresh st' \<and>
     same_objects (xs_mgr st) (xs_mgr st') \<and> (\<forall>e \<in> set es. holds_point parents e (xs_mgr st')) \<and>
     (\<forall>n. n \<notin> (\<lambda>e. element_path parents (de_name e)) ` set es \<longrightarrow>
        om_find (om_datas (xs_mgr st')) n = om_find (om_datas (xs_mgr st)) n) \<and>
     (\<forall>i < xs_next st. om_find (om_data_store (xs_mgr st')) i = om_find (om_data_store (xs_mgr st)) i)"
  using assms
proof (induction es arbitrary: st)
  case Nil
  then show ?case by (simp add: same_objects_def)
next
  case (Cons e es)
  let ?p = "\<lambda>e. element_path parents (de_name e)"
  obtain s1 b where 1: "LoadIO dispatch zero parents e st = Inr s1" "xml_fresh s1" "xs_next s1 = xs_next st + 1"
    "same_objects (xs_mgr st) (xs_mgr s1)"
    "\<And>n. om_find (om_datas (xs_mgr s1)) n = (if n = ?p e then Some (xs_next st) else om_find (om_datas (xs_mgr st)) n)"
    "\<And>i. om_find (om_data_store (xs_mgr s1)) i =
        (if i = xs_next st then Some b else om_find (om_data_store (xs_mgr st)) i)"
    "leaf_data e (?p e) (the_ud b)"
    using load_leaf [OF Cons.prems(1), of zero e parents dispatch] Cons.prems(2,4) by (auto simp: same_objects_def)
  have free: "\<forall>x \<in> set es. \<not> isObjectRegisted (?p x) (xs_mgr s1) \<and> ?p x \<noteq> ''/''"
    using Cons.prems(3,4) 1(4,5) by (auto simp: isObjectRegisted_def same_objects_def image_iff split: if_splits)
  obtain s2 where 2: "LoadIO_children dispatch zero parents es s1 = Inr s2" "xml_fresh s2"
    "same_objects (xs_mgr s1) (xs_mgr s2)" "\<forall>x \<in> set es. holds_point parents x (xs_mgr s2)"
    "\<And>n. n \<notin> ?p ` set es \<Longrightarrow> om_find (om_datas (xs_mgr s2)) n = om_find (om_datas (xs_mgr s1)) n"
    "\<And>i. i < xs_next s1 \<Longrightarrow> om_find (om_data_store (xs_mgr s2)) i = om_find (om_data_store (xs_mgr s1)) i"
    using Cons.IH [OF 1(2) _ _ free] Cons.prems(2,3) by auto
  have "?p e \<notin> ?p ` set es" using Cons.prems(3) by auto
  then have "holds_point parents e (xs_mgr s2)"
    unfolding holds_point_def using 2(5) 2(6) [of "xs_next st"] 1(3,5-7) by auto
  moreover have "de_attrs e \<noteq> []" using Cons.prems(2) by (auto simp: io_leaf_def has_attr_def getAttribute_def)
  ultimately show ?case using 1(1,3-6) 2 by (auto simp: same_objects_def)
qed

text \<open>The document of the points: a root without a type, and the points below it.\<close>
lemma load_points:
  assumes "xml_fresh st" "\<forall>e \<in> set es. io_leaf zero e" "distinct (map de_name es)"
    and "\<forall>e \<in> set es. \<not> isObjectRegisted (''/'' @ root @ ''/'' @ de_name e) (xs_mgr st)"
    and "dir \<noteq> []" "parse (xml_file_path p dir ''io_config.xml'') = Root (Elem root [] t es)"
    and "parse (xml_file_path p dir ''control_config.xml'') = Parse_Exception"
  shows "\<exists>st'. loadXmlConfig p parse dd cd classes zero dir st = Inr st' \<and> xml_fresh st' \<and>
     same_objects (xs_mgr st) (xs_mgr st') \<and> (\<forall>e \<in> set es. holds_point [root] e (xs_mgr st'))"
proof -
  have path: "element_path [root] n = ''/'' @ root @ ''/'' @ n" for n by (simp add: element_path_eq)
  obtain st' where "LoadIO_children dd zero [root] es st = Inr st'" "xml_fresh st'"
    "same_objects (xs_mgr st) (xs_mgr st')" "\<forall>e \<in> set es. holds_point [root] e (xs_mgr st')"
    using load_leaves [OF assms(1-3), of "[root]" dd] assms(4) by (auto simp: path)
  moreover have "load_io_object dd zero [] (Elem root [] t es) st = Inr st"
    by (simp add: load_io_object_def has_attr_def getAttribute_def)
  ultimately show ?thesis using assms(5-7) by (simp add: loadXmlConfig_def loadXmlFile_def)
qed

text \<open>A point after the start: bound to the last driver of its node.\<close>
definition running_point :: "(int \<Rightarrow> nat list) \<Rightarrow> string list \<Rightarrow> dom_element \<Rightarrow> 'd manager \<Rightarrow> bool" where
  "running_point drivers parents e m =
     (\<exists>oid b. getObject (element_path parents (de_name e)) m = Some (DataRef oid) \<and>
        om_find (om_data_store m) oid = Some b \<and> ud_fullName (the_ud b) = element_path parents (de_name e) \<and>
        ud_nodeNumber (the_ud b) = atoi (getAttribute ''Bd'' e) \<and>
        ud_channelNumber (the_ud b) = atoi (getAttribute ''Ch'' e) \<and>
        ud_driver (the_ud b) =
          (if drivers (atoi (getAttribute ''Bd'' e)) = [] \<or> atoi (getAttribute ''Ch'' e) = 0 then None
           else Some (last (drivers (atoi (getAttribute ''Bd'' e))))))"

lemma holds_point_runs:
  assumes "manager_ok m" "holds_point parents e m" "om_find (om_entites m) (element_path parents (de_name e)) = None"
    and "atoi (getAttribute ''Bd'' e) \<noteq> 0"
  shows "running_point (drivers_of m (om_entites m)) parents e (snd (startNamespace cbs m))"
proof -
  let ?p = "element_path parents (de_name e)"
  obtain oid b where b: "om_find (om_datas m) ?p = Some oid" "om_find (om_data_store m) oid = Some b"
    "leaf_data e ?p (the_ud b)" using assms(2) by (auto simp: holds_point_def)
  let ?ds = "drivers_of m (om_entites m) (ud_nodeNumber (the_ud b))"
  have f: "om_find (om_data_store (snd (startNamespace cbs m))) oid = Some (on_ud (bind_drivers ?ds) b)"
    by (rule startNamespace_binds [OF assms(1) b(1,2)])
  have "ud_driver (bind_drivers ?ds (the_ud b)) =
      (if ?ds = [] \<or> ud_channelNumber (the_ud b) = 0 then None else Some (last ?ds))"
    using bind_drivers_last [of "the_ud b" ?ds] b(3) assms(4)
    by (auto simp: leaf_data_def addressed_def bind_drivers_def)
  moreover have "?p \<noteq> []" by (simp add: element_path_eq)
  ultimately show ?thesis using f b startNamespace_keeps [of cbs m] assms(3)
    by (auto simp: running_point_def getObject_def leaf_data_def)
qed

section \<open>The whole start\<close>

definition enable_key :: "which_socket \<Rightarrow> string" where
  "enable_key w = (case w of SubscriberSocket \<Rightarrow> ''IckSubscriberEnable'' | ServiceSocket \<Rightarrow> ''IckServiceEnable''
     | DebuggerSocket \<Rightarrow> ''IckDebuggerEnable'')"

definition host_key :: "which_socket \<Rightarrow> string" where
  "host_key w = (case w of SubscriberSocket \<Rightarrow> ''IckSubscriberListenHost'' | ServiceSocket \<Rightarrow> ''IckServicerListenHost''
     | DebuggerSocket \<Rightarrow> ''IckDebuggerListenHost'')"

definition port_key :: "which_socket \<Rightarrow> string" where
  "port_key w = (case w of SubscriberSocket \<Rightarrow> ''IckSubscriberListenPort'' | ServiceSocket \<Rightarrow> ''IckServiceListenPort''
     | DebuggerSocket \<Rightarrow> ''IckDebuggerListenPort'')"

text \<open>The sockets of a server on the wide network, by the settings \<open>k\<close>: the enabled ones listen.\<close>
definition listening :: "(string \<Rightarrow> string) \<Rightarrow> (which_socket \<Rightarrow> live_socket) \<Rightarrow> which_socket \<Rightarrow> live_socket" where
  "listening k socks w =
     (if enabled (k (enable_key w)) then
        lv_start ((socks w)\<lparr>lv_host := k (host_key w), lv_port := atoi (k (port_key w)), lv_isClient := False\<rparr>)
      else socks w)"

definition configured_interval :: "(string \<Rightarrow> string) \<Rightarrow> int \<Rightarrow> int" where
  "configured_interval k i =
     (if k ''IckSubscriberInterval'' = [] \<or> atoi (k ''IckSubscriberInterval'') < 0 then i
      else atoi (k ''IckSubscriberInterval''))"

lemma run_actions_append:
  "run_actions perform (as @ bs) s =
     (case run_actions perform as s of (None, s') \<Rightarrow> run_actions perform bs s' | (Some e, s') \<Rightarrow> (Some e, s'))"
  by (induction "as" arbitrary: s) (simp_all split: sum.split)

lemma open_server_socket:
  assumes "ne_bind env" "ne_listen env" "lv_type (sv_sockets s w) = SOCKET_TCP"
  shows "perform_server p env parse dd cd classes zero cbs (OpenSocket w host port True) s =
     Inr (s\<lparr>sv_sockets := (sv_sockets s)(w :=
        lv_start ((sv_sockets s w)\<lparr>lv_host := host, lv_port := port, lv_isClient := False\<rparr>))\<rparr>)"
  using assms by (simp add: perform_server_def socket_setHost_def socket_setPort_def socket_setServer_def
      socket_connect_def connect_server_def)

lemma server_actions_run:
  assumes net: "ne_bind env" "ne_listen env" "\<And>w. lv_type (sv_sockets s w) = SOCKET_TCP"
    and wan: "k ''IckNetworkType'' = ''WAN''" and k: "\<And>key. getValueByKey ''ICK_SERVER'' key conf = k key"
  shows "\<exists>s1. run_actions (perform_server p env parse dd cd classes zero cbs) (server_actions conf) s = (None, s1) \<and>
     xs_mgr (sv_xml s1) = (xs_mgr (sv_xml s))\<lparr>om_interval := configured_interval k (om_interval (xs_mgr (sv_xml s)))\<rparr> \<and>
     xs_next (sv_xml s1) = xs_next (sv_xml s) \<and> sv_events s1 = sv_events s \<and> sv_grpc s1 = sv_grpc s \<and>
     sm_socket (sv_subscribers s1) = (enabled (k ''IckSubscriberEnable'') \<or> sm_socket (sv_subscribers s)) \<and>
     sv_sockets s1 = listening k (sv_sockets s)"
proof -
  let ?run = "run_actions (perform_server p env parse dd cd classes zero cbs)"
  let ?open = "\<lambda>w. OpenSocket w (k (host_key w)) (atoi (k (port_key w))) True"
  let ?sub = "if enabled (k ''IckSubscriberEnable'') then [UseSubscriberSocket, ?open SubscriberSocket] else []"
  let ?one = "\<lambda>w. if enabled (k (enable_key w)) then [?open w] else []"
  let ?int = "if k ''IckSubscriberInterval'' \<noteq> [] then [SetNamespaceInterval (atoi (k ''IckSubscriberInterval''))] else []"
  have acts: "server_actions conf = ?int @ ?sub @ ?one ServiceSocket @ ?one DebuggerSocket"
    by (simp add: server_actions_def Let_def k wan enable_key_def host_key_def port_key_def)
  define s0 where "s0 = s\<lparr>sv_xml := (sv_xml s)\<lparr>xs_mgr := (xs_mgr (sv_xml s))
     \<lparr>om_interval := configured_interval k (om_interval (xs_mgr (sv_xml s)))\<rparr>\<rparr>\<rparr>"
  have r0: "?run ?int s = (None, s0)"
    by (auto simp: s0_def perform_server_def om_setInterval_def configured_interval_def)
  have one: "?run (?one w) x = (None, x\<lparr>sv_sockets := (sv_sockets x)(w := listening k (sv_sockets x) w)\<rparr>)"
    if "lv_type (sv_sockets x w) = SOCKET_TCP" for w and x :: "'a server"
    using open_server_socket [OF net(1,2) that] by (auto simp: listening_def)
  define s1 where "s1 = (if enabled (k ''IckSubscriberEnable'')
     then s0\<lparr>sv_subscribers := clone_setIckStormSubscriberSocket True (sv_subscribers s0)\<rparr> else s0)"
  have "?run ?sub s0 = ?run (?one SubscriberSocket) s1"
    by (simp add: s1_def enable_key_def perform_server_def)
  also have "\<dots> = (None, s1\<lparr>sv_sockets := (sv_sockets s)(SubscriberSocket := listening k (sv_sockets s) SubscriberSocket)\<rparr>)"
    using net(3) by (subst one) (simp_all add: s1_def s0_def)
  finally have r1: "?run ?sub s0 = \<dots>" .
  have l: "listening k (f(a := x)) b = listening k f b" if "a \<noteq> b" for f a b x using that by (simp add: listening_def)
  have all: "(sv_sockets s)(SubscriberSocket := listening k (sv_sockets s) SubscriberSocket,
      ServiceSocket := listening k (sv_sockets s) ServiceSocket, DebuggerSocket := listening k (sv_sockets s) DebuggerSocket) =
      listening k (sv_sockets s)"
    proof (rule ext)
    show "((sv_sockets s)(SubscriberSocket := listening k (sv_sockets s) SubscriberSocket,
        ServiceSocket := listening k (sv_sockets s) ServiceSocket,
        DebuggerSocket := listening k (sv_sockets s) DebuggerSocket)) w = listening k (sv_sockets s) w" for w
      by (cases w) simp_all
  qed
  let ?s2 = "s1\<lparr>sv_sockets := (sv_sockets s)(SubscriberSocket := listening k (sv_sockets s) SubscriberSocket)\<rparr>"
  have r2: "?run (?one ServiceSocket) ?s2 = (None, ?s2\<lparr>sv_sockets :=
      (sv_sockets ?s2)(ServiceSocket := listening k (sv_sockets s) ServiceSocket)\<rparr>)" (is "_ = (None, ?s3)")
    using one [of ?s2 ServiceSocket] net(3) by (simp add: l)
  have r3: "?run (?one DebuggerSocket) ?s3 = (None, ?s3\<lparr>sv_sockets :=
      (sv_sockets ?s3)(DebuggerSocket := listening k (sv_sockets s) DebuggerSocket)\<rparr>)"
    using one [of ?s3 DebuggerSocket] net(3) by (simp add: l)
  have "?run (server_actions conf) s = (None, s1\<lparr>sv_sockets :=
      (sv_sockets s)(SubscriberSocket := listening k (sv_sockets s) SubscriberSocket,
        ServiceSocket := listening k (sv_sockets s) ServiceSocket, DebuggerSocket := listening k (sv_sockets s) DebuggerSocket)\<rparr>)"
    unfolding acts run_actions_append r0 r1 prod.case option.case r2 r3 by simp
  then have "?run (server_actions conf) s = (None, s1\<lparr>sv_sockets := listening k (sv_sockets s)\<rparr>)" unfolding all .
  then show ?thesis
    by (intro exI [of _ "s1\<lparr>sv_sockets := listening k (sv_sockets s)\<rparr>"])
      (simp add: s1_def s0_def clone_setIckStormSubscriberSocket_def setIckStormSubscriberSocket_def)
qed

text \<open>A setting of the section ICK_SERVER in a file of blocks.\<close>
definition server_setting :: "conf_block list \<Rightarrow> string \<Rightarrow> string" where
  "server_setting bs key = (case block_value bs ''ICK_SERVER'' key of None \<Rightarrow> [] | Some v \<Rightarrow> v)"

lemma registered_interval: "isObjectRegisted n (m\<lparr>om_interval := i\<rparr>) = isObjectRegisted n m"
  by (simp add: isObjectRegisted_def)

lemma server_starts:
  fixes s :: "'d server"
  assumes conf: "\<forall>b \<in> set bs. block_ok b" "length (concat (map block_lines bs)) + 1 < fuel"
      "app_directory p fuel cwd module fl = Some dir" "dir \<noteq> []"
      "file (dir @ ''icklib.conf'') = Some (file_text (concat (map block_lines bs)))"
      "server_setting bs ''IckNetworkType'' = ''WAN''"
    and net: "ne_bind env" "ne_listen env" "\<And>w. lv_type (sv_sockets s w) = SOCKET_TCP"
    and xml: "xml_fresh (sv_xml s)" "\<forall>e \<in> set es. io_leaf zero e" "distinct (map de_name es)"
      "\<forall>e \<in> set es. \<not> isObjectRegisted (''/'' @ root @ ''/'' @ de_name e) (xs_mgr (sv_xml s))"
      "parse (xml_file_path p dir ''io_config.xml'') = Root (Elem root [] t es)"
      "parse (xml_file_path p dir ''control_config.xml'') = Parse_Exception"
  defines "m \<equiv> xs_mgr (sv_xml s)" and "k \<equiv> server_setting bs"
  shows "\<exists>cs s'. run_on p fuel cwd module fl file (perform_server p env parse dd cd classes zero cbs)
       (new_application True True True) s = Some (Status 0, cs, s') \<and>
     (\<forall>e \<in> set es. running_point (drivers_of m (om_entites m)) [root] e (xs_mgr (sv_xml s'))) \<and>
     (\<exists>ev. sv_events s' = sv_events s @ ev \<and> concat (map run_of ev) =
        concat (map (\<lambda>p. map (\<lambda>e. (p, snd e)) (om_entites m)) [Make, Verify, Init, Startup])) \<and>
     om_interval (xs_mgr (sv_xml s')) = configured_interval k (om_interval m) \<and>
     sm_socket (sv_subscribers s') = (enabled (k ''IckSubscriberEnable'') \<or> sm_socket (sv_subscribers s)) \<and>
     sv_sockets s' = listening k (sv_sockets s) \<and>
     sv_grpc s' = (if fl_enable_grpc_remote_service fl \<and> fl_grpc_remote_service_port fl \<noteq> []
       then Some (fl_grpc_remote_service_port fl) else sv_grpc s)"
proof -
  let ?perform = "perform_server p env parse dd cd classes zero cbs"
  obtain conf where c: "loadConfigFile fuel (dir @ ''icklib.conf'') (file (dir @ ''icklib.conf'')) [] = Some (True, conf)"
    "\<And>key. getValueByKey ''ICK_SERVER'' key conf = k key"
    using load_blocks [OF conf(1) _ conf(2), of "dir @ ''icklib.conf''"] conf(5) by (auto simp: k_def server_setting_def)
  let ?grpc = "if fl_enable_grpc_remote_service fl \<and> fl_grpc_remote_service_port fl \<noteq> []
     then [StartGrpc (fl_grpc_remote_service_port fl)] else []"
  have acts: "read_configuration fuel file dir (new_application True True True) = Some conf"
    "actions_in dir fl conf (new_application True True True) = server_actions conf @ [LoadXml dir, StartNamespace] @ ?grpc"
    using c(1) by (simp_all add: read_configuration_def actions_in_def new_application_def)
  let ?cs = "case p of Windows \<Rightarrow> [console_command conf] | Linux \<Rightarrow> []"
  obtain s1 where 1: "run_actions ?perform (server_actions conf) s = (None, s1)"
    "xs_mgr (sv_xml s1) = m\<lparr>om_interval := configured_interval k (om_interval m)\<rparr>"
    "xs_next (sv_xml s1) = xs_next (sv_xml s)" "sv_events s1 = sv_events s" "sv_grpc s1 = sv_grpc s"
    "sm_socket (sv_subscribers s1) = (enabled (k ''IckSubscriberEnable'') \<or> sm_socket (sv_subscribers s))"
    "sv_sockets s1 = listening k (sv_sockets s)"
    using server_actions_run [OF net, of k conf p parse dd cd classes zero cbs] conf(6) c(2)
    by (auto simp: k_def m_def)
  have fresh: "xml_fresh (sv_xml s1)"
    using xml(1) 1(2,3) by (simp add: xml_fresh_def xml_ok_def manager_ok_def m_def)
  have free: "\<forall>e \<in> set es. \<not> isObjectRegisted (''/'' @ root @ ''/'' @ de_name e) (xs_mgr (sv_xml s1))"
    using xml(4) unfolding 1(2) m_def registered_interval .
  obtain x where x: "loadXmlConfig p parse dd cd classes zero dir (sv_xml s1) = Inr x" "xml_fresh x"
    "same_objects (xs_mgr (sv_xml s1)) (xs_mgr x)" "\<forall>e \<in> set es. holds_point [root] e (xs_mgr x)"
    using load_points [OF fresh xml(2,3) free conf(4) xml(5,6), of dd cd classes] by blast
  obtain ev m2 where start: "startNamespace cbs (xs_mgr x) = (ev, m2)" by force
  let ?s2 = "s1\<lparr>sv_xml := x\<lparr>xs_mgr := m2\<rparr>, sv_events := sv_events s1 @ ev\<rparr>"
  let ?s3 = "if ?grpc = [] then ?s2 else ?s2\<lparr>sv_grpc := Some (fl_grpc_remote_service_port fl)\<rparr>"
  have "run_actions ?perform ([LoadXml dir, StartNamespace] @ ?grpc) s1 = (None, ?s3)"
    using x(1) start by (simp add: perform_server_def)
  then have run: "run_on p fuel cwd module fl file ?perform (new_application True True True) s = Some (Status 0, ?cs, ?s3)"
    using conf(3) acts 1(1) by (simp add: run_on_def run_actions_append)
  have same: "om_entites (xs_mgr x) = om_entites m" "om_ctrl_store (xs_mgr x) = om_ctrl_store m"
    "om_interval (xs_mgr x) = configured_interval k (om_interval m)" using x(3) 1(2) by (simp_all add: same_objects_def)
  have pts: "running_point (drivers_of m (om_entites m)) [root] e m2" if "e \<in> set es" for e
  proof -
    have "manager_ok (xs_mgr x)" using x(2) by (simp add: xml_fresh_def xml_ok_def)
    moreover have "om_find (om_entites (xs_mgr x)) (element_path [root] (de_name e)) = None"
      using xml(4) that same(1) by (simp add: isObjectRegisted_def element_path_eq m_def split: if_splits)
    moreover have "atoi (getAttribute ''Bd'' e) \<noteq> 0" using xml(2) that by (simp add: io_leaf_def)
    moreover have "drivers_of (xs_mgr x) es' = drivers_of m es'" for es' by (simp add: drivers_of_def same(2) fun_eq_iff)
    ultimately show ?thesis
      using holds_point_runs [of "xs_mgr x" "[root]" e cbs] x(4) that same(1) start by simp
  qed
  have "concat (map run_of ev) = concat (map (\<lambda>p. map (\<lambda>e. (p, snd e)) (om_entites m)) [Make, Verify, Init, Startup])"
    using start_runs [of cbs "xs_mgr x"] start same(1) by simp
  moreover have "om_interval m2 = configured_interval k (om_interval m)"
    using startNamespace_keeps [of cbs "xs_mgr x"] start same(3) by simp
  ultimately show ?thesis using run pts 1(4-7) by (intro exI [of _ ?cs] exI [of _ ?s3]) simp
qed

end
