(* ===== verification/Socket_Threads.thy ===== *)
theory Socket_Threads
  imports Socket_Life
begin

text \<open>
  The rest of src/socket.cc: the two constructors, with the memory they find as an argument, what the handlers
  do that a class does not override, the thread that simulates data, the thread for sending, and sleep.  A handler is
  a function from the socket's state to its answer and the next state; a thread that never ends is None.
\<close>

record timed_socket = live_socket +
  ts_clientMaxNum :: int
  ts_interval :: int
  ts_timeout :: int
  ts_isRecvThreadAlive :: bool
  ts_isSendThreadAlive :: bool

section \<open>Constructors\<close>

text \<open>The constructor for clients: host, port and side are left as the memory \<open>u\<close> holds them.\<close>
definition ISocket_default :: "timed_socket \<Rightarrow> socket_type \<Rightarrow> timed_socket" where
  "ISocket_default u type =
     u\<lparr>lv_type := type, lv_udpClientHost := ''127.0.0.1'', lv_isReconnect := True, lv_reconnectTimeInterval := 1000,
       lv_isDataSimulated := False, lv_recvBlockMode := True, lv_clients := [], ts_clientMaxNum := 50, ts_interval := 1000,
       ts_timeout := 0, ts_isRecvThreadAlive := False, ts_isSendThreadAlive := False\<rparr>"

text \<open>The constructor with a host sets neither it nor the port nor the side.\<close>
definition ISocket_host :: "timed_socket \<Rightarrow> string \<Rightarrow> int \<Rightarrow> bool \<Rightarrow> socket_type \<Rightarrow> timed_socket" where
  "ISocket_host u host port isClient type =
     u\<lparr>lv_type := type, lv_udpClientHost := ''127.0.0.1'', lv_clients := [], ts_clientMaxNum := 50, ts_interval := 1000,
       ts_timeout := 1000\<rparr>"

lemma ISocket_host_ignores:
  "lv_host (ISocket_host u host port isClient type) = lv_host u"
  "lv_port (ISocket_host u host port isClient type) = lv_port u"
  "lv_isClient (ISocket_host u host port isClient type) = lv_isClient u"
  "lv_isReconnect (ISocket_host u host port isClient type) = lv_isReconnect u"
  by (simp_all add: ISocket_host_def)

text \<open>So whether such a socket binds or connects is decided by the memory it was made in.\<close>
lemma ISocket_host_side:
  "(\<not> lv_isClient u \<longrightarrow> socket_connect p env (live_socket.truncate (ISocket_host u host port isClient SOCKET_TCP)) =
      connect_server p env (live_socket.truncate (ISocket_host u host port isClient SOCKET_TCP))) \<and>
   (lv_isClient u \<longrightarrow> socket_connect p env (live_socket.truncate (ISocket_host u host port isClient SOCKET_TCP)) =
      connect_client env (live_socket.truncate (ISocket_host u host port isClient SOCKET_TCP)))"
  by (simp add: socket_connect_def live_socket.defs ISocket_host_def)

section \<open>Handlers and threads\<close>

text \<open>The receive and the send handler of the base class: the sleep, in milliseconds, and the answer.\<close>
definition socketRecvHandler :: "timed_socket \<Rightarrow> int list \<times> bool" where
  "socketRecvHandler s = (if 0 < ts_interval s then ([ts_interval s], True) else ([], True))"

definition socketSendHandler :: "timed_socket \<Rightarrow> int list \<times> bool" where
  "socketSendHandler s = (if 0 < ts_interval s then ([ts_interval s], True) else ([], True))"

text \<open>The thread that simulates data calls its handler for ever.\<close>
partial_function (option) dataProcessProc :: "('s \<Rightarrow> 's) \<Rightarrow> 's \<Rightarrow> unit option" where
  "dataProcessProc handler s = dataProcessProc handler (handler s)"

lemma dataProcessProc_None: "dataProcessProc handler s = None"
proof -
  have "False" if "dataProcessProc handler s = Some r" for s r
    by (rule dataProcessProc.raw_induct [where P = "\<lambda>_ _ _. False", OF _ that])
  then show ?thesis by (cases "dataProcessProc handler s") blast+
qed

text \<open>The loop of socketSendProc, which calls the handler for receiving.\<close>
partial_function (option) send_loop :: "('s \<Rightarrow> bool \<times> 's) \<Rightarrow> 's \<Rightarrow> 's option" where
  "send_loop handler s = (case handler s of (ok, s') \<Rightarrow> if ok then send_loop handler s' else Some s')"

definition socketSendProc :: "(timed_socket \<Rightarrow> bool \<times> timed_socket) \<Rightarrow> timed_socket \<Rightarrow> timed_socket option" where
  "socketSendProc handler s =
     map_option (\<lambda>s'. s'\<lparr>ts_isSendThreadAlive := False\<rparr>) (send_loop handler (s\<lparr>ts_isSendThreadAlive := True\<rparr>))"

text \<open>The loop ends with the first answer that is false, and not before.\<close>
lemma send_loop_ends:
  assumes "\<forall>i < n. fst (handler (((\<lambda>s. snd (handler s)) ^^ i) s))" "\<not> fst (handler (((\<lambda>s. snd (handler s)) ^^ n) s))"
  shows "send_loop handler s = Some (((\<lambda>s. snd (handler s)) ^^ Suc n) s)"
  using assms
proof (induction n arbitrary: s)
  case 0
  then show ?case by (cases "handler s") (simp add: send_loop.simps [of handler s])
next
  case (Suc n)
  let ?f = "\<lambda>s. snd (handler s)"
  have p: "(?f ^^ i) (?f s) = (?f ^^ Suc i) s" for i by (simp only: funpow_Suc_right comp_apply)
  have "\<forall>i < n. fst (handler ((?f ^^ i) (?f s)))"
    unfolding p by (intro allI impI) (rule Suc.prems(1) [rule_format], rule Suc_mono)
  moreover have "\<not> fst (handler ((?f ^^ n) (?f s)))" using Suc.prems(2) unfolding p .
  ultimately have "send_loop handler (?f s) = Some ((?f ^^ Suc n) (?f s))" by (rule Suc.IH)
  moreover have "fst (handler s)" using Suc.prems(1) by force
  then have "send_loop handler s = send_loop handler (?f s)" by (cases "handler s") (simp add: send_loop.simps [of handler s])
  ultimately show ?case unfolding p by simp
qed

text \<open>With a handler that always answers true, as the base class's does, the thread never ends.\<close>
lemma send_loop_None: "\<forall>s. fst (handler s) \<Longrightarrow> send_loop handler s = None"
proof -
  assume h: "\<forall>s. fst (handler s)"
  have "False" if "send_loop handler s = Some r" for s r
  proof (rule send_loop.raw_induct [where P = "\<lambda>k _ _. \<not> (\<forall>s. fst (k s))", OF _ that, THEN notE, OF _ h])
    fix f k s y
    assume ih: "\<And>k s y. f k s = Some y \<Longrightarrow> \<not> (\<forall>s. fst (k s))"
      and e: "(case k s of (ok, s') \<Rightarrow> if ok then f k s' else Some s') = Some y"
    show "\<not> (\<forall>s. fst (k s))"
    proof (cases "fst (k s)")
      case True
      then show ?thesis using e ih [of k "snd (k s)" y] by (simp split: prod.splits)
    qed blast
  qed
  then show ?thesis by (cases "send_loop handler s") blast+
qed

lemma socketSendProc_base: "socketSendProc (\<lambda>s. (snd (socketRecvHandler s), s)) s = None"
  by (simp add: socketSendProc_def send_loop_None socketRecvHandler_def)

text \<open>After the thread its flag is cleared, which is what socketClosedHandler waits for.\<close>
lemma socketSendProc_flag:
  "socketSendProc handler s = Some s' \<Longrightarrow> \<not> ts_isSendThreadAlive s'"
  by (auto simp: socketSendProc_def)

text \<open>sleep finds itself on Linux, as the one of the control objects does.\<close>
partial_function (option) socket_sleep_Linux :: "int \<Rightarrow> unit option" where
  "socket_sleep_Linux second = socket_sleep_Linux second"

definition socket_sleep :: "platform \<Rightarrow> int \<Rightarrow> unit option" where
  "socket_sleep p second = (case p of Windows \<Rightarrow> Some () | Linux \<Rightarrow> socket_sleep_Linux second)"

lemma socket_sleep_returns: "socket_sleep p second = Some () \<longleftrightarrow> p = Windows"
proof -
  have "False" if "socket_sleep_Linux s = Some r" for s r
    by (rule socket_sleep_Linux.raw_induct [where P = "\<lambda>_ _. False", OF _ that])
  then have "socket_sleep_Linux second = None" by (cases "socket_sleep_Linux second") blast+
  then show ?thesis by (cases p) (simp_all add: socket_sleep_def)
qed

end
