(* ===== verification/Forwarder_Settings.thy ===== *)
theory Forwarder_Settings
  imports Forwarders Socket_Life Cmd_Target
begin

text \<open>
  How a forwarder is configured (the end of src/ick_storm_data_forwarder.cc and of
  src/ick_storm_service_forwarder.cc): the XML description sends it messages, which the message tables of the
  class and its bases turn into calls of the setters; startup of the service forwarder then connects with them.
\<close>

text \<open>The settings of the service forwarder; those of the data forwarder are in its own record.\<close>
record forwarder_settings =
  fs_isClient :: bool
  fs_host :: string
  fs_port :: int
  fs_interval :: int

definition sf_setHost :: "string \<Rightarrow> forwarder_settings \<Rightarrow> forwarder_settings" where
  "sf_setHost host fs = fs\<lparr>fs_host := host\<rparr>"

definition sf_setPort :: "int \<Rightarrow> forwarder_settings \<Rightarrow> forwarder_settings" where
  "sf_setPort port fs = fs\<lparr>fs_port := port\<rparr>"

definition sf_setServer :: "bool \<Rightarrow> forwarder_settings \<Rightarrow> forwarder_settings" where
  "sf_setServer isServer fs = fs\<lparr>fs_isClient := \<not> isServer\<rparr>"

definition sf_setInterval :: "int \<Rightarrow> forwarder_settings \<Rightarrow> forwarder_settings" where
  "sf_setInterval interval fs = fs\<lparr>fs_interval := interval\<rparr>"

section \<open>Messages\<close>

datatype forwarder_method = F_setHost | F_setPort | F_setServer | F_setInterval | F_setNotSimulated | F_setSimulated

text \<open>The table of either class, and those of ControlObject and CmdTarget.\<close>
definition forwarder_messages :: "forwarder_method msg_entity list list" where
  "forwarder_messages =
     [[\<lparr> m_msg = ''setHost'', m_msgType = METHOD_S, methodMap = F_setHost \<rparr>,
       \<lparr> m_msg = ''setPort'', m_msgType = METHOD_I, methodMap = F_setPort \<rparr>,
       \<lparr> m_msg = ''setServer'', m_msgType = METHOD_B, methodMap = F_setServer \<rparr>,
       \<lparr> m_msg = ''setInterval'', m_msgType = METHOD_I, methodMap = F_setInterval \<rparr>,
       \<lparr> m_msg = [], m_msgType = METHOD_END, methodMap = F_setHost \<rparr>],
      [\<lparr> m_msg = ''setNotSimulated'', m_msgType = METHOD_B, methodMap = F_setNotSimulated \<rparr>,
       \<lparr> m_msg = [], m_msgType = METHOD_END, methodMap = F_setNotSimulated \<rparr>],
      [\<lparr> m_msg = ''setSimulated'', m_msgType = METHOD_B, methodMap = F_setSimulated \<rparr>,
       \<lparr> m_msg = [], m_msgType = METHOD_END, methodMap = F_setSimulated \<rparr>]]"

text \<open>The mark of simulation is no part of the forwarders' records.\<close>
definition df_method :: "forwarder_method \<Rightarrow> 'e arg list \<Rightarrow> 'd data_forwarder \<Rightarrow> 'd data_forwarder" where
  "df_method f args df =
     (case (f, args) of
        (F_setHost, [ArgS s]) \<Rightarrow> df_setHost s df
      | (F_setPort, [ArgI n]) \<Rightarrow> df_setPort n df
      | (F_setServer, [ArgB b]) \<Rightarrow> df_setServer b df
      | (F_setInterval, [ArgI n]) \<Rightarrow> df_setInterval n df
      | _ \<Rightarrow> df)"

definition sf_method :: "forwarder_method \<Rightarrow> 'e arg list \<Rightarrow> forwarder_settings \<Rightarrow> forwarder_settings" where
  "sf_method f args fs =
     (case (f, args) of
        (F_setHost, [ArgS s]) \<Rightarrow> sf_setHost s fs
      | (F_setPort, [ArgI n]) \<Rightarrow> sf_setPort n fs
      | (F_setServer, [ArgB b]) \<Rightarrow> sf_setServer b fs
      | (F_setInterval, [ArgI n]) \<Rightarrow> sf_setInterval n fs
      | _ \<Rightarrow> fs)"

definition df_dispatch ::
  "(string \<Rightarrow> 'e) \<Rightarrow> string \<Rightarrow> string \<Rightarrow> string \<Rightarrow> 'd data_forwarder \<Rightarrow> 'd data_forwarder res" where
  "df_dispatch atof fullName msgName params df =
     mapR (\<lambda>r. case r of None \<Rightarrow> df | Some (f, args) \<Rightarrow> df_method f args df)
       (dispatchMsg atof forwarder_messages fullName msgName params)"

definition sf_dispatch ::
  "(string \<Rightarrow> 'e) \<Rightarrow> string \<Rightarrow> string \<Rightarrow> string \<Rightarrow> forwarder_settings \<Rightarrow> forwarder_settings res" where
  "sf_dispatch atof fullName msgName params fs =
     mapR (\<lambda>r. case r of None \<Rightarrow> fs | Some (f, args) \<Rightarrow> sf_method f args fs)
       (dispatchMsg atof forwarder_messages fullName msgName params)"

text \<open>startup of the service forwarder, on the socket it is.\<close>
definition sf_startup ::
  "platform \<Rightarrow> net_env \<Rightarrow> forwarder_settings \<Rightarrow> live_socket \<Rightarrow> (bool \<times> live_socket) res" where
  "sf_startup p env fs s =
     socket_connect p env (s\<lparr>lv_isClient := fs_isClient fs, lv_host := fs_host fs, lv_port := fs_port fs\<rparr>)"

section \<open>Facts\<close>

lemma df_messages_set:
  assumes "plain_value h" "int32 v"
  shows "df_dispatch atof n ''setHost'' h df = Inr (df_setHost h df)"
    and "df_dispatch atof n ''setPort'' (show_int v) df = Inr (df_setPort v df)"
    and "df_dispatch atof n ''setInterval'' (show_int v) df = Inr (df_setInterval v df)"
    and "df_dispatch atof n ''setServer'' h df = Inr (df_setServer (h = ''true'' \<or> h = ''1'') df)"
  using plain_split [OF assms(1)] plain_split [OF plain_number [of v]] atoi_show_int [OF assms(2)]
  by (simp_all add: df_dispatch_def forwarder_messages_def dispatch_entity_def paramNum_def call_args_def df_method_def)

lemma sf_messages_set:
  assumes "plain_value h" "int32 v"
  shows "sf_dispatch atof n ''setHost'' h fs = Inr (sf_setHost h fs)"
    and "sf_dispatch atof n ''setPort'' (show_int v) fs = Inr (sf_setPort v fs)"
    and "sf_dispatch atof n ''setInterval'' (show_int v) fs = Inr (sf_setInterval v fs)"
    and "sf_dispatch atof n ''setServer'' h fs = Inr (sf_setServer (h = ''true'' \<or> h = ''1'') fs)"
  using plain_split [OF assms(1)] plain_split [OF plain_number [of v]] atoi_show_int [OF assms(2)]
  by (simp_all add: sf_dispatch_def forwarder_messages_def dispatch_entity_def paramNum_def call_args_def sf_method_def)

text \<open>A service forwarder told its host, its port and that it is a server listens on them when it starts.\<close>
lemma sf_configured_listens:
  assumes "plain_value h" "int32 v" "lv_type s = SOCKET_TCP" "ne_bind env" "ne_listen env"
  shows "bindR (sf_dispatch atof n ''setHost'' h fs) (\<lambda>f1. bindR (sf_dispatch atof n ''setPort'' (show_int v) f1)
     (\<lambda>f2. bindR (sf_dispatch atof n ''setServer'' ''true'' f2) (\<lambda>f3. sf_startup p env f3 s))) =
     Inr (True, lv_start (s\<lparr>lv_isClient := False, lv_host := h, lv_port := v\<rparr>))"
proof -
  have v: "plain_value ''true''" by (simp add: plain_value_def untrimmed_def)
  show ?thesis
    using assms(3-5) by (simp add: sf_messages_set(1-3) [OF assms(1,2)] sf_messages_set(4) [OF v assms(2)] sf_startup_def
        socket_connect_def connect_server_def sf_setHost_def sf_setPort_def sf_setServer_def)
qed

end
