(* ===== verification/Lame_Threads.thy ===== *)
theory Lame_Threads
  imports Lame_File
begin

text \<open>
  The asynchronous calls of src/common/audio/lamehelper.cc: the five slots with the parameters handed to their
  threads, the functions the threads run, the overloads with default arguments, and the destructor.  A call takes the
  first slot whose thread does not run and puts new parameters there; those of the thread before are
  overwritten without being deleted, which \<open>lh_lost\<close> records.
\<close>

record static_param =
  pa_mp3 :: string
  pa_pcm :: string
  pa_settings :: settings
  pa_callback :: bool

record lame_helper =
  lh_slots :: "slot list"
  lh_params :: "static_param option list"
  lh_lost :: "static_param list"

definition new_lameHelper :: lame_helper where
  "new_lameHelper = \<lparr> lh_slots = new_slots, lh_params = replicate MAX_THREAD_COUNT None, lh_lost = [] \<rparr>"

text \<open>The slot the loop stops at.\<close>
definition free_slot :: "slot list \<Rightarrow> nat" where
  "free_slot slots = length (takeWhile (\<lambda>s. s = Running) slots)"

definition call_async :: "bool \<Rightarrow> static_param \<Rightarrow> lame_helper \<Rightarrow> async_result \<times> lame_helper" where
  "call_async created param h =
     (case start_async created 0 (lh_slots h) of
        (No_Thread_Left, ss) \<Rightarrow> (No_Thread_Left, h)
      | (r, ss) \<Rightarrow>
          (let k = free_slot (lh_slots h)
           in (r, h\<lparr>lh_slots := ss, lh_params := (lh_params h)[k := Some param],
                    lh_lost := lh_lost h @ (case lh_params h ! k of None \<Rightarrow> [] | Some q \<Rightarrow> [q])\<rparr>)))"

text \<open>What a call finds: LAME, the files it opens, memory.  Encoding and decoding are those of Lame_File.\<close>
record 'h lame_env =
  le_files :: "string \<Rightarrow> 8 word list option"
  le_creates :: "string \<Rightarrow> bool"
  le_seek_ok :: bool
  le_memory :: bool
  le_read_ok :: bool
  le_init_ok :: "lame_call list \<Rightarrow> bool"
  le_no_picture :: "8 word list \<Rightarrow> bool"
  le_lame :: "settings \<Rightarrow> lame_input list \<Rightarrow> int \<times> 8 word list"
  le_tags :: "settings \<Rightarrow> 8 word list \<times> 8 word list \<times> 8 word list"
  le_hip_ok :: bool
  le_hip :: "'h \<Rightarrow> 8 word list \<Rightarrow> hip_out \<times> 'h"
  le_hip0 :: 'h
  le_fuel :: nat

type_synonym encode_result = "(int \<times> lh_message list \<times> string list \<times> lame_input list \<times> 8 word list option) res"
type_synonym decode_result = "(int \<times> lh_message list \<times> string list \<times> 8 word list option) res option"

definition encode_in :: "'h lame_env \<Rightarrow> string \<Rightarrow> string \<Rightarrow> settings \<Rightarrow> bool \<Rightarrow> encode_result" where
  "encode_in e pcm_in mp3_out s callback =
     (case le_tags e s of (v2, v1, frame) \<Rightarrow>
        encode_x (le_init_ok e) s
          (snd (set_id3_albumart (le_no_picture e) (le_memory e) (le_read_ok e) (se_albumart s)
             (Option.bind (se_albumart s) (le_files e))))
          (le_lame e s) v2 v1 frame (le_creates e mp3_out) (le_seek_ok e) callback pcm_in mp3_out (le_files e pcm_in))"

definition decode_in :: "'h lame_env \<Rightarrow> string \<Rightarrow> string \<Rightarrow> bool \<Rightarrow> decode_result" where
  "decode_in e mp3_in pcm_out callback =
     decode (le_fuel e) (le_hip e) (le_hip0 e) (le_creates e pcm_out) (le_hip_ok e) (le_seek_ok e) callback mp3_in pcm_out
       (le_files e mp3_in)"

text \<open>The overloads with fewer arguments.\<close>
definition encode_default :: "'h lame_env \<Rightarrow> string \<Rightarrow> string \<Rightarrow> encode_result" where
  "encode_default e pcm_in mp3_out = encode_in e pcm_in mp3_out new_settings False"

definition encode_settings :: "'h lame_env \<Rightarrow> string \<Rightarrow> string \<Rightarrow> settings \<Rightarrow> encode_result" where
  "encode_settings e pcm_in mp3_out s = encode_in e pcm_in mp3_out s False"

definition encode_callback :: "'h lame_env \<Rightarrow> string \<Rightarrow> string \<Rightarrow> settings \<Rightarrow> bool \<Rightarrow> encode_result" where
  "encode_callback e pcm_in mp3_out s callback = encode_in e pcm_in mp3_out s callback"

definition decode_default :: "'h lame_env \<Rightarrow> string \<Rightarrow> string \<Rightarrow> decode_result" where
  "decode_default e mp3_in pcm_out = decode_in e mp3_in pcm_out False"

text \<open>The overloads with a flag: the status of the call itself, or the thread's handle.\<close>
datatype 'r lame_answer = Answer 'r | Async async_result

definition encode_async ::
  "'h lame_env \<Rightarrow> bool \<Rightarrow> string \<Rightarrow> string \<Rightarrow> settings \<Rightarrow> bool \<Rightarrow> bool \<Rightarrow>
     lame_helper \<Rightarrow> encode_result lame_answer \<times> lame_helper" where
  "encode_async e created pcm_in mp3_out s callback async h =
     (if async then
        (case call_async created \<lparr> pa_mp3 = mp3_out, pa_pcm = pcm_in, pa_settings = s, pa_callback = callback \<rparr> h of
           (r, h') \<Rightarrow> (Async r, h'))
      else (Answer (encode_in e pcm_in mp3_out s callback), h))"

text \<open>The parameters of a decoding thread have the settings of their constructor.\<close>
definition decode_async ::
  "'h lame_env \<Rightarrow> bool \<Rightarrow> string \<Rightarrow> string \<Rightarrow> bool \<Rightarrow> bool \<Rightarrow> lame_helper \<Rightarrow>
     decode_result lame_answer \<times> lame_helper" where
  "decode_async e created mp3_in pcm_out callback async h =
     (if async then
        (case call_async created \<lparr> pa_mp3 = mp3_in, pa_pcm = pcm_out, pa_settings = new_settings, pa_callback = callback \<rparr> h of
           (r, h') \<Rightarrow> (Async r, h'))
      else (Answer (decode_in e mp3_in pcm_out callback), h))"

text \<open>What the threads run.\<close>
definition encode_s :: "'h lame_env \<Rightarrow> static_param \<Rightarrow> encode_result" where
  "encode_s e sp = encode_in e (pa_pcm sp) (pa_mp3 sp) (pa_settings sp) (pa_callback sp)"

definition decode_s :: "'h lame_env \<Rightarrow> static_param \<Rightarrow> decode_result" where
  "decode_s e sp = decode_in e (pa_mp3 sp) (pa_pcm sp) (pa_callback sp)"

text \<open>The parameters in a table.\<close>
fun kept :: "static_param option list \<Rightarrow> static_param list" where
  "kept [] = []"
| "kept (None # xs) = kept xs"
| "kept (Some p # xs) = p # kept xs"

text \<open>The destructor closes the handles and deletes the parameters of the slots, whether their threads run or
  not: the parameters deleted, and the slots whose threads go on without theirs.\<close>
definition lameHelper_destroy :: "lame_helper \<Rightarrow> static_param list \<times> nat list" where
  "lameHelper_destroy h =
     (kept (lh_params h),
      filter (\<lambda>k. lh_slots h ! k = Running) [0 ..< length (lh_slots h)])"

section \<open>Runs\<close>

text \<open>The calls made so far go with the state.  A thread that runs may finish at any time.\<close>
inductive lame_reach :: "static_param list \<Rightarrow> lame_helper \<Rightarrow> bool" where
  new: "lame_reach [] new_lameHelper"
| call: "lame_reach ps h \<Longrightarrow> call_async created p h = (r, h') \<Longrightarrow>
    lame_reach (if r = No_Thread_Left then ps else ps @ [p]) h'"
| finish: "lame_reach ps h \<Longrightarrow> k < length (lh_slots h) \<Longrightarrow> lh_slots h ! k = Running \<Longrightarrow>
    lame_reach ps (h\<lparr>lh_slots := (lh_slots h)[k := Finished]\<rparr>)"

lemma free_slot_result:
  assumes "start_async created 0 ss = (r, ss')" "r \<noteq> No_Thread_Left"
  shows "free_slot ss < length ss \<and> ss ! free_slot ss \<noteq> Running \<and>
     ss' = ss[free_slot ss := if created then Running else Unused]"
proof -
  have "\<not> (\<forall>s \<in> set ss. s = Running)" using start_async_result [OF assms(1)] assms(2) by (auto split: if_splits)
  then obtain k where k: "k < length ss" "ss ! k \<noteq> Running" "\<forall>j < k. ss ! j = Running"
    "ss' = ss[k := if created then Running else Unused]"
    using start_async_result [OF assms(1)] by (auto split: if_splits)
  have "free_slot ss = k" unfolding free_slot_def
    using k(1-3) by (subst takeWhile_eq_take_P_nth [of k]) auto
  then show ?thesis using k by simp
qed

lemma call_async_started:
  assumes "call_async created p h = (r, h')" "r \<noteq> No_Thread_Left"
  shows "\<exists>k < length (lh_slots h). lh_slots h ! k \<noteq> Running \<and> lh_params h' = (lh_params h)[k := Some p] \<and>
     lh_slots h' = (lh_slots h)[k := if created then Running else Unused] \<and>
     lh_lost h' = lh_lost h @ (case lh_params h ! k of None \<Rightarrow> [] | Some q \<Rightarrow> [q])"
proof -
  obtain x ss where s: "start_async created 0 (lh_slots h) = (x, ss)" by force
  have x: "x = r" "r \<noteq> No_Thread_Left \<Longrightarrow> h' = h\<lparr>lh_slots := ss, lh_params := (lh_params h)[free_slot (lh_slots h) := Some p],
      lh_lost := lh_lost h @ (case lh_params h ! free_slot (lh_slots h) of None \<Rightarrow> [] | Some q \<Rightarrow> [q])\<rparr>"
    using assms(1) s by (auto simp: call_async_def Let_def split: async_result.splits)
  then show ?thesis using free_slot_result [OF s] assms(2) by (intro exI [of _ "free_slot (lh_slots h)"]) simp
qed

lemma call_async_full:
  "call_async created p h = (No_Thread_Left, h') \<Longrightarrow> h' = h"
  by (auto simp: call_async_def Let_def split: async_result.splits prod.splits)

text \<open>The parameters in the table and those lost are those of the calls, each as often as it was handed over; a
  running thread has its own.\<close>
lemma kept_append: "kept (xs @ ys) = kept xs @ kept ys"
  by (induction xs rule: kept.induct) simp_all

lemma kept_put:
  assumes k: "k < length xs"
  shows "count_list (kept (xs[k := Some p])) q + count_list (case xs ! k of None \<Rightarrow> [] | Some x \<Rightarrow> [x]) q =
       count_list (kept xs) q + (if p = q then 1 else 0)"
    "length (kept (xs[k := Some p])) + length (case xs ! k of None \<Rightarrow> [] | Some x \<Rightarrow> [x]) = Suc (length (kept xs))"
proof -
  have "kept xs = kept (take k xs) @ (case xs ! k of None \<Rightarrow> [] | Some x \<Rightarrow> [x]) @ kept (drop (Suc k) xs)"
    by (subst id_take_nth_drop [OF k]) (simp add: kept_append split: option.split)
  moreover have "kept (xs[k := Some p]) = kept (take k xs) @ p # kept (drop (Suc k) xs)"
    by (simp add: upd_conv_take_nth_drop [OF k] kept_append)
  ultimately show
    "count_list (kept (xs[k := Some p])) q + count_list (case xs ! k of None \<Rightarrow> [] | Some x \<Rightarrow> [x]) q =
       count_list (kept xs) q + (if p = q then 1 else 0)"
    "length (kept (xs[k := Some p])) + length (case xs ! k of None \<Rightarrow> [] | Some x \<Rightarrow> [x]) = Suc (length (kept xs))"
    by simp_all
qed

lemma kept_length: "length (kept xs) \<le> length xs"
  by (induction xs rule: kept.induct) simp_all

definition params_ok :: "static_param list \<Rightarrow> lame_helper \<Rightarrow> bool" where
  "params_ok ps h \<longleftrightarrow> length (lh_slots h) = MAX_THREAD_COUNT \<and> length (lh_params h) = MAX_THREAD_COUNT \<and>
     (\<forall>q. count_list (lh_lost h) q + count_list (kept (lh_params h)) q = count_list ps q) \<and>
     length (lh_lost h) + length (kept (lh_params h)) = length ps \<and>
     (\<forall>k < MAX_THREAD_COUNT. lh_slots h ! k = Running \<longrightarrow> lh_params h ! k \<noteq> None)"

lemma call_keeps_params:
  assumes "params_ok ps h" "call_async created p h = (r, h')" "r \<noteq> No_Thread_Left"
  shows "params_ok (ps @ [p]) h'"
proof -
  obtain k where k: "k < length (lh_slots h)" "lh_params h' = (lh_params h)[k := Some p]"
    "lh_slots h' = (lh_slots h)[k := if created then Running else Unused]"
    "lh_lost h' = lh_lost h @ (case lh_params h ! k of None \<Rightarrow> [] | Some q \<Rightarrow> [q])"
    using call_async_started [OF assms(2,3)] by blast
  note i = assms(1) [unfolded params_ok_def]
  have l: "k < length (lh_params h)" using i k(1) by simp
  note put = kept_put [OF l, of p]
  have "count_list (lh_lost h') q + count_list (kept (lh_params h')) q = count_list (ps @ [p]) q" for q
    using put(1) [of q] i by (simp add: k(2,4) ac_simps)
  moreover have "length (lh_lost h') + length (kept (lh_params h')) = length (ps @ [p])"
    using put(2) i by (simp add: k(2,4))
  moreover have "\<forall>i < MAX_THREAD_COUNT. lh_slots h' ! i = Running \<longrightarrow> lh_params h' ! i \<noteq> None"
    unfolding k(2,3) using i k(1) l by (auto simp: nth_list_update)
  moreover have "length (lh_slots h') = MAX_THREAD_COUNT" "length (lh_params h') = MAX_THREAD_COUNT"
    using i by (simp_all add: k(2,3))
  ultimately show ?thesis unfolding params_ok_def by blast
qed

lemma lame_reach_params: "lame_reach ps h \<Longrightarrow> params_ok ps h"
proof (induction rule: lame_reach.induct)
  case new
  show ?case
    by (simp add: params_ok_def new_lameHelper_def new_slots_def nth_replicate) (simp add: numeral_eq_Suc)
next
  case (call ps h created p r h')
  then show ?case using call_keeps_params [of ps h created p r h'] call_async_full [of created p h h'] by auto
next
  case (finish ps h k)
  then show ?case by (auto simp: params_ok_def nth_list_update)
qed

text \<open>So all but five of the parameters of a helper's calls are lost for good.\<close>
lemma lost_parameters: "lame_reach ps h \<Longrightarrow> length ps \<le> length (lh_lost h) + 5"
proof -
  assume "lame_reach ps h"
  note i = lame_reach_params [OF this, unfolded params_ok_def]
  show ?thesis using i kept_length [of "lh_params h"] by simp
qed

end
