(* ===== verification/Spec2Isabelle.thy ===== *)
theory Spec2Isabelle
  imports Cmd_Target Services Object_Manager Storm_Manager Service_Socket Forwarders Socket_Life
    Configure Application Connection_Pool Data_Base Logger File_Io Time_Converter Timer Xml_Parser
    Protocol Http Frame_Data Remote_Logger Http_Server My_Sql Pool_Settings Publication Lame_File
    Client_Interface Storm_System Class_Lists Service_Threads Time_Text Code_Pages Http_Request Server_Start
    Socket_Threads Forwarder_Settings Lame_Threads
begin

text \<open>
  A model of the ICK core library (the C++ sources under src/src, and the audio helpers of
  src/common/audio): a namespace of control objects
  and data points, the sockets that publish the points and call services across the network, and
  the configuration, logging, database, timer and text helpers around them.  Each theory models
  the files named below; the names of the operations are those of the C++ functions.

  \<^bold>\<open>How the parts work together.\<close>  The namespace (Object_Manager, for object_manager.cc and
  driver.cc) maps paths to control objects and to data points.  Its thread scans the points in
  rounds: a point whose driver reports a change is marked, and its subscribers are called.  One
  such subscriber is the subscription socket (Subscriber_Socket): on the server it sends an Update
  message to every client entered for the point; on the client it takes such a message apart,
  creates or sets the client's copy of the point and calls the listeners of the subscription
  manager (Storm_Lists, Storm_Manager).  Service calls travel the other way: the client queues them
  in the service socket (Service_Socket), the server finds the control object and calls its service
  with the parameters decoded (Services).  Both protocols share the stream framing and the
  bookkeeping of clients (Wire_Net) and the escapes of separators (Escape); the life of a connection
  is in Socket_Life.  At the start, Application reads the configuration file (Configure), opens
  the sockets, loads the XML description of the points (Xml_Parser) and starts the namespace.

  \<^bold>\<open>Theories and sources.\<close>
  Ick_Prelude: std::string's find and substr, atoi, sprintf \<open>%d\<close>, the outcome type.
  Std_Map: std::map as an association list sorted by key, with its laws as a locale.
  Mutex (mutex.cc): the kernel mutex of Windows, the empty one of Linux, and a step relation of
  threads in a critical section.
  Converter (converter.cc), Escape (encodeData, decodeData and decodeParam), File_Io (file.cc),
  Time_Converter (time_converter.cc): the text helpers.
  Cmd_Target (cmd_target.cc), Services (control_object.cc, service.cc, service_info.cc,
  service_param.cc): calls by name with arguments given as text.
  Data_Point (untyped_data.cc and the six classes of typed data), Object_Manager: the namespace.
  Wire_Net, Socket_Life (socket.cc), Subscriber_Socket (ick_storm_subscriber_socket.cc),
  Service_Socket (ick_storm_service_socket.cc), Storm_Lists, Storm_Manager (ick_storm_manager.cc,
  ick_storm_subscriber_manager.cc, ick_storm_publisher.cc), Forwarders (ick_storm_data_forwarder.cc,
  ick_storm_service_forwarder.cc, ick_storm_debugger_socket.cc, ick_storm_subscriber.cc,
  value_info.cc): the network.
  Configure (configure.cc), Application (application.cc), Xml_Parser (xml_parser.cc): the start.
  Connection_Pool (connection_pool.cc, connection_pool_manager.cc), Data_Base (data_base.cc),
  Logger (logger.cc), Timer (timer.cc, thread.cc), Protocol (protocol.cc), Frame_Data
  (frame_data.cc), Http (http_client.cc, http_request.cc): the services around it.
  Remote_Logger (grpc_remote_service.cc, grpc_remote_client.cc) streams the log to a client,
  Http_Server (http_server.cc, http_server_thread.cc, http_callback.cc) dispatches requests, My_Sql
  (mysql_connection.cc, and the older MySqlConnection.cpp) is the connection a pool hands out, and Pool_Settings (connection_pool.cc) are
  the setters of a pool and the messages that call them.
  Client_Interface (dot_net_interface.cc) is the C interface over the application and the managers.
  Publication puts the scan, the socket's update and the client together, for one value; Storm_System is a server
  and its client as one step relation, in which scans, writes, requests and messages come in any order.
  Service_Threads (service.cc, ick_service_impl.cc, the threads of control_object.cc) has the owners of services and
  the interleavings of several callers of one service.  Class_Lists (managed_object.cc, the macro SET, the rest
  of driver.cc) is the linked list of classes in memory and the base class of drivers; Driver_Binding says
  which driver a point ends up with.  Server_Start performs the actions of the application on the components'
  states.  Forwarder_Settings has the messages that configure a forwarder.  Socket_Threads, Time_Text, Code_Pages and Http_Request hold the rest of socket.cc, time_converter.cc,
  converter.cc and http_request.cc.
  Lame_Encoder (common/audio/lame_helper.cc) and Lame_File (common/audio/lamehelper.cc): encoding samples to
  MP3, decoding MP3 to WAVE files.  Lame_Threads has the helper's asynchronous calls, over both.

  \<^bold>\<open>How the code is modelled.\<close>  A class is a record of its members; an operation takes and returns
  the record.  Pointers are addresses (numbers) into a store where objects are shared, and options
  where only null matters.  An exception, a read outside an object, the use of a null pointer and
  behaviour the language leaves undefined are values of the type \<open>err\<close>; a call that waits for
  a mutex or a connection and does not return has the value None.  Platform differences are an
  argument of type \<open>platform\<close>.  What the library gets from elsewhere is an argument: the
  results of system calls, the clock, the driver of a point, the query of a database connection,
  the tree of a parsed XML document, the printing, reading and comparison of doubles, the methods of
  user classes.  Calls of user code are entries of an event list.

  \<^bold>\<open>Interfaces.\<close>  \<open>std_map\<close> (Std_Map) is what a map promises; \<open>listener_registry\<close>
  (Storm_Lists) what a table of listeners does, interpreted for subscribers and for callbacks;
  \<open>observer_list\<close> (Data_Point) what a subject promises its observers; \<open>wire_codec\<close> (Escape)
  what an escape of separators promises, interpreted for the two escapes of the library;
  \<open>resource_pool\<close> (Connection_Pool) what a pool keeps invariant.  The properties use the
  interpretations' facts on the model's own definitions.

  \<^bold>\<open>Loops.\<close>  Loops over data are structural recursions, or recursions with a measure (trim, split,
  the lines of a file, the UTF-8 scanner, the reconnection).  A loop that waits for what others do
  consumes a list of what it reads at each look (the flags of a timer, the received chunks), and one
  that uses up the list is still running.  A loop that may never end over a state of its own (the class list,
  the send thread, the destructor of a pool, the sleeps that call themselves) is a partial function, whose
  value is None then.  Four loops have fuel: replace, for which one more than
  the length of the text is enough when the text sought is not empty, and which never ends otherwise;
  and the configuration reader, for which two more than the number of characters is enough when every
  line fits its buffer, and which never ends when the first does not; the encoder of a text of samples,
  for which two more than the number of whole blocks is enough when the samples are whole, and
  which never ends or reads outside otherwise; and the decoder, for which the number of answers is enough.

  \<^bold>\<open>What the properties show.\<close>  Requests and values sent through the model of one end arrive at the
  model of the other as what they were (service requests, published values, typed parameters,
  escaped and framed text).  The namespace stays well formed under every registration, start, stop
  and XML load, and the scan calls each subscriber of each changed point once.  Pools, databases,
  logs, timers and sockets keep their invariants, and the loops that end do so within their bounds.
  Where the code departs from what it means to do, the property says what it does: locks left held,
  answers never sent, loops that never end, names and fragments that are lost.
  Three properties are about whole programs: a server started from its configuration files has its points bound to
  their drivers and its sockets listening (Server_Start), a server and its client in every reachable state agree
  on the values handled (Storm_System), and the callers of a service exclude each other where it runs
  and not where its parameters are written (Service_Threads).

  \<^bold>\<open>Not modelled.\<close>  The serial port is calls of the system, and so is what the HTTP server, the remote log and the MySQL connection
  ask of libevent, gRPC and the connector, and the encoders of LAME: its outcomes are arguments.  The exception classes,
  topics and several managers hold no logic.  Of the modelled files, getters and setters without effect on the properties, the
  window of the Windows console, and what is printed are left out.  sscanf is modelled
  for the one format the code uses, and the conversions of the system between code pages are arguments.  The threads of a
  socket are modelled as rounds, one at a time; interleavings are modelled for the critical section of a
  mutex, for the callers of a service, and for a server and its client.
\<close>

section \<open>The service path: from a client's queue to the server's calls\<close>








section \<open>The namespace of objects\<close>

text \<open>C3.  One round of the scan thread never fails on a well-formed manager.  When no two names share a
  data object, the calls it makes are exactly these: for every object that is changed after it is
  read, each of its subscribers, with the object as it was read.  Afterwards every object is what was
  read with its change flag cleared, so that a change is reported by one round only.\<close>
theorem scan_round_notifies:
  assumes ok: "manager_ok m" and one: "distinct (map snd (om_datas m))"
  shows "\<exists>ev m'. scan_round dif ri rd rs m = Inr (ev, m') \<and>
     (\<forall>s d. (s, d) \<in> set ev \<longleftrightarrow>
        (\<exists>e a. e \<in> set (om_datas m) \<and> om_find (om_data_store m) (snd e) = Some a \<and>
           d = scan_read dif ri rd rs a \<and> ud_isChanged (the_ud d) \<and> s \<in> set (ud_subscribers (the_ud d)))) \<and>
     (\<forall>e \<in> set (om_datas m). \<exists>a d'. om_find (om_data_store m) (snd e) = Some a \<and>
        om_find (om_data_store m') (snd e) = Some d' \<and> \<not> ud_isChanged (the_ud d') \<and>
        d' = snd (scan_one dif ri rd rs a))"
proof -
  have store: "om_ok (om_data_store m)" "\<forall>e \<in> set (om_datas m). om_has (om_data_store m) (snd e)"
    using ok by (simp_all add: manager_ok_def)
  from scan_loop_distinct [OF store(1) one store(2), of dif ri rd rs] obtain m' where
    r: "scan_round dif ri rd rs m = Inr (concat (map (\<lambda>e. fst (scan_one dif ri rd rs
          (the (om_find (om_data_store m) (snd e))))) (om_datas m)), m')"
    and st: "\<forall>e \<in> set (om_datas m). om_find (om_data_store m') (snd e) =
        Some (snd (scan_one dif ri rd rs (the (om_find (om_data_store m) (snd e)))))"
    by (auto simp: scan_round_def)
  have live: "\<exists>a. om_find (om_data_store m) (snd e) = Some a" if "e \<in> set (om_datas m)" for e
    using store(2) that by (auto simp: om_has_def)
  let ?ev = "concat (map (\<lambda>e. fst (scan_one dif ri rd rs (the (om_find (om_data_store m) (snd e))))) (om_datas m))"
  have calls: "(s, d) \<in> set ?ev \<longleftrightarrow>
        (\<exists>e a. e \<in> set (om_datas m) \<and> om_find (om_data_store m) (snd e) = Some a \<and>
           d = scan_read dif ri rd rs a \<and> ud_isChanged (the_ud d) \<and> s \<in> set (ud_subscribers (the_ud d)))" for s d
  proof -
    have "(s, d) \<in> set ?ev \<longleftrightarrow> (\<exists>e \<in> set (om_datas m). d = scan_read dif ri rd rs (the (om_find (om_data_store m) (snd e))) \<and>
           ud_isChanged (the_ud d) \<and> s \<in> set (ud_subscribers (the_ud d)))"
      by (simp add: scan_one_events)
    then show ?thesis using live by fastforce
  qed
  have after: "\<exists>a d'. om_find (om_data_store m) (snd e) = Some a \<and>
        om_find (om_data_store m') (snd e) = Some d' \<and> \<not> ud_isChanged (the_ud d') \<and>
        d' = snd (scan_one dif ri rd rs a)" if "e \<in> set (om_datas m)" for e
    using st live [OF that] that scan_one_clears by fastforce
  show ?thesis by (intro exI [of _ ?ev] exI [of _ m'] conjI allI ballI r calls after)
qed

text \<open>A manager with one integer that two objects observe.\<close>
definition ex_level :: "int any_data" where
  "ex_level = ROI (ud_subscribe (Some 8) (ud_subscribe (Some 7) (setFullName ''/tank/level'' (ReadOnlyInt 3))))"

definition ex_data_manager :: "int manager" where
  "ex_data_manager = new_manager\<lparr>om_datas := [(''/tank/level'', 1)], om_data_store := [(1, ex_level)]\<rparr>"

lemma ex_data_manager_ok: "manager_ok ex_data_manager" "distinct (map snd (om_datas ex_data_manager))"
  by (simp_all add: manager_ok_def ex_data_manager_def new_manager_def om_ok_def tree_ok_def om_has_def om_find_def)

lemma scan_round_notifies_witness:
  "\<exists>ev m'. scan_round (\<noteq>) (\<lambda>_ _ _. Some 5) (\<lambda>_ _ _. Some 0) (\<lambda>_ _ _. None) ex_data_manager = Inr (ev, m') \<and>
     (8, scan_read (\<noteq>) (\<lambda>_ _ _. Some 5) (\<lambda>_ _ _. Some 0) (\<lambda>_ _ _. None) ex_level) \<in> set ev"
proof -
  obtain ev m' where
    r: "scan_round (\<noteq>) (\<lambda>_ _ _. Some 5) (\<lambda>_ _ _. Some 0) (\<lambda>_ _ _. None) ex_data_manager = Inr (ev, m')"
    and ev: "\<forall>s d. (s, d) \<in> set ev \<longleftrightarrow>
        (\<exists>e a. e \<in> set (om_datas ex_data_manager) \<and> om_find (om_data_store ex_data_manager) (snd e) = Some a \<and>
           d = scan_read (\<noteq>) (\<lambda>_ _ _. Some 5) (\<lambda>_ _ _. Some 0) (\<lambda>_ _ _. None) a \<and>
           ud_isChanged (the_ud d) \<and> s \<in> set (ud_subscribers (the_ud d)))"
    using scan_round_notifies [OF ex_data_manager_ok, of "(\<noteq>)" "\<lambda>_ _ _. Some 5" "\<lambda>_ _ _. Some 0" "\<lambda>_ _ _. None"]
    by blast
  have "om_find (om_data_store ex_data_manager) 1 = Some ex_level" "(''/tank/level'', 1) \<in> set (om_datas ex_data_manager)"
    by (simp_all add: ex_data_manager_def new_manager_def om_find_def)
  moreover have "ud_isChanged (the_ud (scan_read (\<noteq>) (\<lambda>_ _ _. Some 5) (\<lambda>_ _ _. Some 0) (\<lambda>_ _ _. None) ex_level))"
    "8 \<in> set (ud_subscribers (the_ud (scan_read (\<noteq>) (\<lambda>_ _ _. Some 5) (\<lambda>_ _ _. Some 0) (\<lambda>_ _ _. None) ex_level)))"
    by code_simp+
  ultimately show ?thesis using r ev by force
qed

text \<open>C4.  Registering a data object under a path that begins with a slash and is not taken succeeds, the
  object is then found under that name with its full and self name set and every other name is found
  as before, and the node tree gains exactly the parent and child pairs along the path: the children
  listed under a node are those before and the path's own segment below it.\<close>
theorem register_data_path:
  assumes ok: "manager_ok m" and live: "om_find (om_data_store m) oid = Some a"
    and path: "fullName \<noteq> []" "hd fullName = CHR ''/''" "fullName \<noteq> ''/''"
    and free: "om_find (om_datas m) fullName = None" "om_find (om_entites m) fullName = None"
    and segs: "split fullName ''/'' = Inr segs"
  shows "\<exists>m'. registerData (Some oid) fullName m = Inr m' \<and>
     getObject fullName m' = Some (DataRef oid) \<and>
     (\<forall>n. n \<noteq> fullName \<longrightarrow> getObject n m' = getObject n m) \<and>
     (\<exists>a'. om_find (om_data_store m') oid = Some a' \<and> ud_fullName (the_ud a') = fullName \<and>
        ud_selfName (the_ud a') = self_name fullName) \<and>
     (\<forall>p n. n \<in> set (getChannelNodeList p m') \<longleftrightarrow>
        n \<in> set (getChannelNodeList p m) \<or> (p, n) \<in> set (path_edges ''/'' segs))"
proof -
  let ?m' = "m\<lparr>om_data_store := om_put oid (on_ud (setFullName fullName) a) (om_data_store m),
        om_datas := om_insert fullName oid (om_datas m),
        om_dataNodeNames := add_path ''/'' segs (om_dataNodeNames m)\<rparr>"
  have r: "registerData (Some oid) fullName m = Inr ?m'"
    using registerData_cases [OF live path(1,2,3) free(1)] segs by auto
  have oks: "om_ok (om_datas m)" "om_ok (om_data_store m)" "tree_ok (om_dataNodeNames m)"
    using ok by (simp_all add: manager_ok_def)
  have get: "getObject n ?m' = (if n = fullName then Some (DataRef oid) else getObject n m)" for n
    using path(1) free by (simp add: getObject_def om_find_insert [OF oks(1)] split: option.split)
  have tree: "n \<in> set (getChannelNodeList p ?m') \<longleftrightarrow>
        n \<in> set (getChannelNodeList p m) \<or> (p, n) \<in> set (path_edges ''/'' segs)" for p n
    by (simp add: getChannelNodeList_edge tree_edge_add_path [OF oks(3)])
  have obj: "om_find (om_data_store ?m') oid = Some (on_ud (setFullName fullName) a)"
    by (simp add: om_find_put [OF oks(2)])
  show ?thesis
    by (intro exI [of _ ?m'] conjI r allI tree exI [of _ "on_ud (setFullName fullName) a"] obj)
      (simp_all add: get setFullName_def)
qed

lemma register_data_path_witness:
  "\<exists>m'. registerData (Some 1) ''/tank/flow'' ex_data_manager = Inr m' \<and>
     (\<forall>p n. n \<in> set (getChannelNodeList p m') \<longleftrightarrow>
        n \<in> set (getChannelNodeList p ex_data_manager) \<or>
        (p, n) \<in> {(''/'', ''tank''), (''/tank/'', ''flow'')})"
proof -
  have "split ''/tank/flow'' ''/'' = Inr [[], ''tank'', ''flow'']" by code_simp
  from register_data_path [OF ex_data_manager_ok(1) _ _ _ _ _ _ this, of 1 ex_level]
  show ?thesis by (auto simp: ex_data_manager_def new_manager_def om_find_def)
qed



text \<open>C6.  Starting the namespace runs the four phases strictly one after the other: every registered
  control object is made before any is verified, verified before any is initialised, and initialised
  before any is started, in the order of their names within a phase; an object with two names is
  run twice in each phase.  Stopping it succeeds exactly when no object has two names: with an alias
  the second delete of the same object is undefined behaviour.\<close>
theorem start_and_shutdown:
  "concat (map run_of (fst (startNamespace cbs m))) =
     map (\<lambda>e. (Make, snd e)) (om_entites m) @ map (\<lambda>e. (Verify, snd e)) (om_entites m) @
     map (\<lambda>e. (Init, snd e)) (om_entites m) @ map (\<lambda>e. (Startup, snd e)) (om_entites m) \<and>
   (is_ok (shutdownNamespace m) \<longleftrightarrow>
      distinct (map snd (om_entites m)) \<and> distinct (map snd (om_datas m)))"
  by (simp add: start_runs shutdown_ok_iff)

section \<open>Services and messages by name\<close>







text \<open>C8.  When dispatchMsg calls a method, some table of the class chain has an entry of that name, the
  text has exactly as many fields as the method type has parameters, and the arguments have the types
  the method type names; an unknown name is an exception and no call.\<close>
theorem dispatch_well_typed:
  "(dispatchMsg atof tables fullName msg ps = Inr (Some (f, args)) \<longrightarrow>
     (\<exists>table \<in> set tables. \<exists>e \<in> set table. m_msg e = msg \<and> methodMap e = f \<and>
        map arg_kind args = method_sig (m_msgType e) \<and>
        (\<exists>fields. cmd_split ps '','' = Inr fields \<and> length fields = length args))) \<and>
   ((\<forall>table \<in> set tables. find_entity table msg = Inr None) \<longrightarrow>
      (\<exists>t. dispatchMsg atof tables fullName msg ps = Inl (Throw t)))"
proof (intro conjI impI)
  assume "dispatchMsg atof tables fullName msg ps = Inr (Some (f, args))"
  from dispatchMsg_cases [OF this] obtain table e where
    e: "table \<in> set tables" "e \<in> set table" "m_msg e = msg"
    and d: "dispatch_entity atof e msg ps = Inr (Some (f, args))" by blast
  from d obtain n fields where n: "paramNum (m_msgType e) = Some n" "cmd_split ps '','' = Inr fields"
      "length fields = n" "methodMap e = f" "call_args atof (m_msgType e) fields = Some args"
    by (auto simp: dispatch_entity_def res_simps split: option.splits if_splits)
  have k: "map arg_kind args = method_sig (m_msgType e)" by (rule call_args_kinds [OF n(5)])
  then have "length args = n" using paramNum_sig [OF n(1)] by (metis length_map)
  with e n k show "\<exists>table \<in> set tables. \<exists>e \<in> set table. m_msg e = msg \<and> methodMap e = f \<and>
        map arg_kind args = method_sig (m_msgType e) \<and>
        (\<exists>fields. cmd_split ps '','' = Inr fields \<and> length fields = length args)" by metis
next
  assume "\<forall>table \<in> set tables. find_entity table msg = Inr None"
  then show "\<exists>t. dispatchMsg atof tables fullName msg ps = Inl (Throw t)"
    by (induction tables) auto
qed

definition ex_table :: "nat msg_entity list" where
  "ex_table = [\<lparr> m_msg = ''move'', m_msgType = METHOD_SI, methodMap = 5 \<rparr>,
     \<lparr> m_msg = [], m_msgType = METHOD_END, methodMap = 0 \<rparr>]"

lemma dispatch_well_typed_witness:
  "dispatchMsg (\<lambda>_. 0 :: int) [ex_table] ''/arm'' ''move'' ''left,12'' = Inr (Some (5, [ArgS ''left'', ArgI 12])) \<and>
   map arg_kind [ArgS ''left'', ArgI 12 :: int arg] = method_sig METHOD_SI \<and>
   (\<exists>t. dispatchMsg (\<lambda>_. 0 :: int) [ex_table] ''/arm'' ''stop'' [] = Inl (Throw t))"
proof -
  have r: "dispatchMsg (\<lambda>_. 0 :: int) [ex_table] ''/arm'' ''move'' ''left,12'' = Inr (Some (5, [ArgS ''left'', ArgI 12]))"
    by code_simp
  have "\<forall>table \<in> set [ex_table]. find_entity table ''stop'' = Inr None"
    by (simp add: ex_table_def)
  then show ?thesis
    using dispatch_well_typed [of "\<lambda>_. 0 :: int" "[ex_table]" "''/arm''" "''move''" "''left,12''" 5 "[ArgS ''left'', ArgI 12]"]
      dispatch_well_typed [of "\<lambda>_. 0 :: int" "[ex_table]" "''/arm''" "''stop''" "[]"] r
    by (auto simp: ex_table_def)
qed

section \<open>Publication of a value\<close>

definition ex_socket :: "int sub_socket" where
  "ex_socket = \<lparr> sk_mgr = ex_data_manager,
     sk_lists = addSubscriberEntry ''/tank/flow'' 30 (addCallbackEntry ''/tank/flow'' 20 new_sub_lists),
     sk_channels = [], sk_sendList = [], sk_clients = [], sk_alive = [], sk_net = new_net,
     sk_events = [], sk_lastHeartBeat = 0 \<rparr>"




text \<open>C10.  Subscriptions made by one thread on a manager whose socket is set and whose mutex is free all
  succeed and leave the mutex free; afterwards the listeners of a channel are those it had, then those
  subscribed to a channel of the same path in the order of the subscriptions, and every channel was
  requested from the socket in that order.  This holds with the mutex of Windows and with that of Linux.\<close>
theorem subscriptions_in_order:
  assumes "sm_socket m" "storm_ok m" "mx_owner (sm_mutex m) = None"
  shows "\<exists>m'. subscribe_all p t xs m = Some m' \<and> sm_mutex m' = sm_mutex m \<and>
     sm_requests m' = sm_requests m @ map fst xs \<and>
     (\<forall>ch. fst (manager_getSubscriberList ch m') = fst (manager_getSubscriberList ch m) @
        map snd (filter (\<lambda>(c, s). channelPath ch = channelPath c) xs))"
  using subscribe_all_ok [OF assms, of p t xs] assms(2)
    subscriber_reg.get_add_all [of "sm_lists m" _ xs]
  by (simp add: storm_ok_def manager_getSubscriberList_def same_channel_def)

lemma subscriptions_in_order_witness:
  "\<exists>m'. subscribe_all Windows 3 [(''/a'', 1), (''/b'', 2), (''-a'', 4)] (new_storm_manager\<lparr>sm_socket := True\<rparr>) = Some m' \<and>
     fst (manager_getSubscriberList ''/a'' m') = [1, 4]"
proof -
  let ?m = "new_storm_manager\<lparr>sm_socket := True\<rparr>" and ?xs = "[(''/a'', 1), (''/b'', 2), (''-a'', 4)]"
  have "sm_socket ?m" "storm_ok ?m" "mx_owner (sm_mutex ?m) = None"
    using storm_ok_new by (simp_all add: storm_ok_def new_storm_manager_def new_mutex_def)
  from subscriptions_in_order [OF this, of Windows 3 ?xs] obtain m' where
    "subscribe_all Windows 3 ?xs ?m = Some m'"
    "fst (manager_getSubscriberList ''/a'' m') = fst (manager_getSubscriberList ''/a'' ?m) @
        map snd (filter (\<lambda>(c, s). channelPath ''/a'' = channelPath c) ?xs)" by blast
  moreover have "fst (manager_getSubscriberList ''/a'' ?m) = []" by code_simp
  moreover have "map snd (filter (\<lambda>(c, s). channelPath ''/a'' = channelPath c) ?xs) = [1, 4]"
    by (simp add: channelPath_def c_string_def dash_def)
  ultimately show ?thesis by (intro exI [of _ m']) simp
qed


section \<open>The server and its client together\<close>















section \<open>Subscription and publication\<close>

text \<open>C13.  When the server has entered a client for a channel and then publishes the data object, sends
  working, the object's message goes to that client if it is alive; it goes once to each living client
  entered for the object, in the order of the clients, and nothing else is sent.\<close>
theorem publication_reaches_subscribers:
  assumes reg: "data_ref (getObject name (sk_mgr st)) = Some d" "om_find (om_data_store (sk_mgr st)) d = Some a"
    and name: "name \<noteq> []" "last name \<noteq> CHR ''/''" "ud_fullName (the_ud a) = name" "length name < CHANNEL_MAX_LENGTH"
    and st: "manager_ok (sk_mgr st)" "clients_ok (sk_clients st)" "net_raw (sk_net st) = []" "s \<in> set (sk_alive st)"
  shows "\<exists>st1 st2. sk_addSubscribe self now (Some s) name st = Inr st1 \<and> sk_update print zero now d st1 = Inr st2 \<and>
     net_sent (sk_net st2) = net_sent (sk_net st) @ map (\<lambda>c. (fst c, update_text print now name (value_of zero a)))
       (filter (\<lambda>c. fst c \<in> set (sk_alive st) \<and> om_has (snd c) d) (sk_clients st1)) \<and>
     (s, update_text print now name (value_of zero a)) \<in> set (net_sent (sk_net st2)) \<and>
     (\<forall>x e. subscribed (sk_clients st1) x e \<longleftrightarrow> subscribed (sk_clients st) x e \<or> (x = s \<and> e = d))"
proof -
  let ?c = "insertSubscribeChannel now (Some s) (Some (d, name)) (sk_clients st)"
  let ?st1 = "st\<lparr>sk_clients := ?c, sk_mgr := on_store d (ud_subscribe (Some self)) (sk_mgr st)\<rparr>"
  let ?a = "on_ud (ud_subscribe (Some self)) a"
  have one: "sk_addSubscribe self now (Some s) name st = Inr ?st1"
    using reg name by (simp add: sk_addSubscribe_def subscribe_one_def)
  have found: "\<exists>a'. om_find (om_data_store (sk_mgr ?st1)) d = Some a' \<and> ud_fullName (the_ud a') = name \<and>
      value_of zero a' = value_of zero a"
    using reg(2) name(3) st(1) by (auto simp: on_store_def om_find_put manager_ok_def ud_subscribe_def Let_def)
  then obtain a' where a': "om_find (om_data_store (sk_mgr ?st1)) d = Some a'" "ud_fullName (the_ud a') = name"
    "value_of zero a' = value_of zero a" by blast
  have upd: "sk_update print zero now d ?st1 = Inr (?st1\<lparr>sk_net := (sk_net st)\<lparr>net_sent := net_sent (sk_net st) @
      map (\<lambda>c. (fst c, update_text print now name (value_of zero a)))
        (filter (\<lambda>c. fst c \<in> set (sk_alive st) \<and> om_has (snd c) d) ?c)\<rparr>\<rparr>)"
    using a' update_clients_sent [of ?st1 name print now d "value_of zero a" ?c] st(3) name(4)
    by (simp add: sk_update_def)
  have sub: "subscribed ?c x e \<longleftrightarrow> subscribed (sk_clients st) x e \<or> (x = s \<and> e = d)" for x e
    by (rule subscribed_insert [OF st(2)])
  then have "subscribed ?c s d" by simp
  moreover have "clients_ok ?c" by (rule clients_ok_insertSubscribeChannel [OF st(2)])
  ultimately obtain chans where "(s, chans) \<in> set ?c" "om_has chans d"
    by (auto simp: subscribed_def clients_ok_def om_find_in_set split: option.splits)
  then show ?thesis using one upd sub st(4) by (intro exI) (auto simp: image_iff)
qed

lemma publication_reaches_subscribers_witness:
  "\<exists>st1 st2. sk_addSubscribe 40 9 (Some 4) ''/tank/level'' (ex_socket\<lparr>sk_alive := [4, 5]\<rparr>) = Inr st1 \<and>
     sk_update (\<lambda>_. ''0'') 0 9 1 st1 = Inr st2 \<and>
     net_sent (sk_net st2) = [(4, ''Update:/tank/level:R:I:3:9;'')]"
proof -
  let ?st = "ex_socket\<lparr>sk_alive := [4, 5]\<rparr>"
  have a: "data_ref (getObject ''/tank/level'' (sk_mgr ?st)) = Some 1"
    "om_find (om_data_store (sk_mgr ?st)) 1 = Some ex_level"
    by (simp_all add: ex_socket_def getObject_def ex_data_manager_def new_manager_def data_ref_def om_find_def)
  have n: "''/tank/level'' \<noteq> []" "last ''/tank/level'' \<noteq> CHR ''/''"
    "ud_fullName (the_ud ex_level) = ''/tank/level''" "length ''/tank/level'' < CHANNEL_MAX_LENGTH"
    by code_simp+
  have s: "manager_ok (sk_mgr ?st)" "clients_ok (sk_clients ?st)" "net_raw (sk_net ?st) = []" "4 \<in> set (sk_alive ?st)"
    using ex_data_manager_ok(1) by (simp_all add: ex_socket_def clients_ok_def new_net_def)
  have t: "update_text (\<lambda>_. ''0'') 9 ''/tank/level'' (value_of 0 ex_level) = ''Update:/tank/level:R:I:3:9;''"
    by code_simp
  obtain st1 st2 where r: "sk_addSubscribe 40 9 (Some 4) ''/tank/level'' ?st = Inr st1"
    "sk_update (\<lambda>_. ''0'') 0 9 1 st1 = Inr st2"
    "net_sent (sk_net st2) = net_sent (sk_net ?st) @ map (\<lambda>c. (fst c, ''Update:/tank/level:R:I:3:9;''))
       (filter (\<lambda>c. fst c \<in> set (sk_alive ?st) \<and> om_has (snd c) 1) (sk_clients st1))"
    using publication_reaches_subscribers [OF a n s, of 40 9 "\<lambda>_. ''0''" 0] unfolding t by blast
  have "sk_clients st1 = [(4, [(1, \<lparr> ci_channelName = ''/tank/level'', ci_registTime = 9, ci_isRegistSuccess = True \<rparr>)])]"
    using r(1) a n(2,3) by (auto simp: sk_addSubscribe_def subscribe_one_def insertSubscribeChannel_def ex_socket_def
        om_insert_def om_has_def om_find_def)
  then show ?thesis using r by (simp add: ex_socket_def om_has_def om_find_def new_net_def)
qed

text \<open>C14.  A round of the client's subscription thread whose sends work returns true, asks for each channel
  that is not confirmed and was last asked for more than five seconds ago, in the order of the map, then
  sends every queued text in the order queued, whatever the packets of ten; it empties the queue, and
  records the time of exactly the channels asked for.\<close>
theorem channel_handler_sends:
  assumes "net_raw (sk_net st) = []" "om_ok (sk_channels st)" "\<forall>d \<in> set (sk_sendList st). d \<noteq> []"
  shows "\<exists>st'. subscribeChannelHandler t sock st = (True, st') \<and> sk_sendList st' = [] \<and>
     concat (map snd (net_sent (sk_net st'))) = concat (map snd (net_sent (sk_net st))) @
       concat (map channel_request (filter (due t) (sk_channels st))) @ concat (sk_sendList st) \<and>
     (\<forall>n. om_find (sk_channels st') n = (case map_of (filter (due t) (sk_channels st)) n of
        None \<Rightarrow> om_find (sk_channels st) n | Some info \<Rightarrow> Some (info\<lparr>ci_registTime := t\<rparr>)))"
proof -
  let ?cs = "sk_channels st"
  obtain str st1 where b: "subscribe_batch t sock ?cs 0 [] st = (str, st1)" "batch_result t ?cs [] st str st1"
    using subscribe_batch_sent [OF assms(1,2) om_ok_distinct [OF assms(2)]] by blast
  define st2 where "st2 = (if str \<noteq> [] then raw_send str sock st1 else st1)"
  have r1: "net_raw (sk_net st1) = []" using b(2) by (simp add: batch_result_def)
  have s2: "net_raw (sk_net st2) = []" "sk_sendList st2 = sk_sendList st" "sk_channels st2 = sk_channels st1"
    "concat (map snd (net_sent (sk_net st2))) =
       concat (map snd (net_sent (sk_net st))) @ concat (map channel_request (filter (due t) ?cs))"
    using b(2) r1 by (auto simp: st2_def raw_send_sent batch_result_def)
  have ch: "om_find (sk_channels st1) n = (case map_of (filter (due t) ?cs) n of
        None \<Rightarrow> om_find (sk_channels st) n | Some info \<Rightarrow> Some (info\<lparr>ci_registTime := t\<rparr>))" for n
    using b(2) by (simp add: batch_result_def)
  have q2: "\<forall>d \<in> set (sk_sendList st2). d \<noteq> []" using s2(2) assms(3) by simp
  obtain rest st3 where q: "queue_batch sock (sk_sendList st2) 0 [] st2 = (False, rest, st3)"
    "net_raw (sk_net st3) = []" "sk_channels st3 = sk_channels st2"
    "concat (map snd (net_sent (sk_net st3))) @ rest =
       concat (map snd (net_sent (sk_net st2))) @ concat (sk_sendList st)"
    using queue_batch_sent [OF s2(1) q2, of sock 0 "[]"] queue_batch_channels [of sock "sk_sendList st2" 0 "[]" st2]
      s2(2) by fastforce
  have h: "subscribeChannelHandler t sock st =
      (if rest \<noteq> [] then (case sk_send rest (Some sock) st3 of
          (r, st4) \<Rightarrow> if r < 0 then (False, st4) else (True, st4\<lparr>sk_sendList := []\<rparr>))
       else (True, st3\<lparr>sk_sendList := []\<rparr>))"
    using b(1) q(1) by (simp add: subscribeChannelHandler_def st2_def)
  show ?thesis
  proof (cases "rest = []")
    case True
    then show ?thesis using h q s2 ch by (intro exI [of _ "st3\<lparr>sk_sendList := []\<rparr>"]) simp
  next
    case False
    have "sk_send rest (Some sock) st3 = (int (length rest),
        st3\<lparr>sk_net := (sk_net st3)\<lparr>net_sent := net_sent (sk_net st3) @ [(sock, rest)]\<rparr>\<rparr>)"
      using q(2) False by (simp add: sk_send_def isocket_send_def send_result_def)
    then show ?thesis using h q s2 ch False
      by (intro exI [of _ "st3\<lparr>sk_net := (sk_net st3)\<lparr>net_sent := net_sent (sk_net st3) @ [(sock, rest)]\<rparr>,
        sk_sendList := []\<rparr>"]) simp
  qed
qed

lemma channel_handler_sends_witness:
  "\<exists>st'. subscribeChannelHandler 10 4 (sk_addSendData ''HeartBeat;'' (sk_subscribe ''/tank/flow'' ex_socket)) = (True, st') \<and>
     sk_sendList st' = [] \<and>
     concat (map snd (net_sent (sk_net st'))) = ''Subscribe:/tank/flow;HeartBeat;''"
proof -
  let ?st = "sk_addSendData ''HeartBeat;'' (sk_subscribe ''/tank/flow'' ex_socket)"
  let ?i = "\<lparr> ci_channelName = ''/tank/flow'', ci_registTime = 0, ci_isRegistSuccess = False \<rparr>"
  have c: "sk_channels ?st = [(''/tank/flow'', ?i)]" "sk_sendList ?st = [''HeartBeat;'']"
    "net_sent (sk_net ?st) = []" "net_raw (sk_net ?st) = []"
    by (simp_all add: sk_addSendData_def sk_subscribe_def ex_socket_def om_insert_def om_has_def new_net_def)
  have "om_ok (sk_channels ?st)" "\<forall>d \<in> set (sk_sendList ?st). d \<noteq> []"
    by (simp_all add: c om_ok_def)
  from channel_handler_sends [OF c(4) this, of 10 4] show ?thesis
    by (auto simp: c due_def channel_request_def)
qed

text \<open>C15.  Chunks that hold whole messages and do not fill the receive buffer are handled message by message,
  in order and across chunks, by any handler that goes on.  Of a chunk that fills the buffer the text cut
  off at its end is carried over only when the number of messages before it is odd: the reset inside the
  loop over the messages sets and clears it in turn.\<close>
theorem received_messages_handled:
  assumes "\<And>d s. h d s = Inr (Continue, g d s)"
  shows "((\<forall>ms \<in> set mss. ms \<noteq> [] \<and> (\<forall>m \<in> set ms. message_ok m) \<and> length (stream ms) < BUFF - 1) \<longrightarrow>
      server_receive h (map stream mss) final (rx_clear []) [] s = Inr (0 \<le> final, fold g (concat mss) s)) \<and>
   (rx_full len [] \<and> last datas \<noteq> [] \<longrightarrow>
      (\<exists>b. server_frames h len datas (butlast datas) buf [] s =
         Inr (Continue, b, if odd (length (butlast datas)) then last datas else [], fold g (butlast datas) s)))"
  using server_chunks [of h g mss final s, OF assms]
    server_frames_parity [of h g "last datas" datas len "[]" "butlast datas" buf s, OF assms refl] by auto

lemma received_messages_handled_witness:
  "server_receive (\<lambda>d s. Inr (Continue, s @ [d])) [''a:1;b;'', ''c;''] 0 (rx_clear []) [] [] =
     Inr (True, [''a:1'', ''b'', ''c''])"
proof -
  have "\<forall>ms \<in> set [[''a:1'', ''b''], [''c'']]. ms \<noteq> [] \<and> (\<forall>m \<in> set ms. message_ok m) \<and> length (stream ms) < BUFF - 1"
    by (simp add: message_ok_def BUFF_def)
  from mp [OF conjunct1 [OF received_messages_handled [of _ "\<lambda>d s. s @ [d]", OF refl]] this, of 0 "[]"]
  show ?thesis by simp
qed

section \<open>The mutex\<close>

text \<open>C16.  With the mutex of Windows two threads are never inside a critical section together, in every state
  reachable by threads that lock on entry and unlock on exit, and a thread inside keeps every other one
  out.  With the mutex of Linux, whose lock and unlock do nothing, two threads can be inside together.\<close>
theorem mutex_excludes_only_on_windows:
  "(\<forall>pc m t u. cs_reach Windows (pc, m) \<and> pc t = Inside \<and> pc u = Inside \<longrightarrow> t = u) \<and>
   (\<forall>pc m t u. cs_reach Windows (pc, m) \<and> pc t = Inside \<and> u \<noteq> t \<longrightarrow> mutex_lock Windows u m = None) \<and>
   (\<exists>pc m. cs_reach Linux (pc, m) \<and> pc 1 = Inside \<and> pc 2 = Inside)"
proof (intro conjI allI impI)
  fix pc :: "nat \<Rightarrow> loc" and m t u
  assume a: "cs_reach Windows (pc, m) \<and> pc t = Inside \<and> pc u = Inside"
  then have "mx_owner m = Some t" "mx_owner m = Some u" using cs_inside_owner [of pc m] by blast+
  then show "t = u" by simp
next
  fix pc :: "nat \<Rightarrow> loc" and m t u
  assume a: "cs_reach Windows (pc, m) \<and> pc t = Inside \<and> u \<noteq> t"
  then have "mx_owner m = Some t" using cs_inside_owner [of pc m t] by blast
  then show "mutex_lock Windows u m = None" using a by (intro locked_blocks [of m t]) auto
next
  let ?p1 = "(\<lambda>_. Outside)(1 := Inside)" and ?p2 = "(\<lambda>_. Outside)(1 := Inside, 2 := Inside)"
  have "cs_step Linux (\<lambda>_. Outside, new_mutex) (?p1, new_mutex)" by (rule cs_enter) simp_all
  then have 1: "cs_reach Linux (?p1, new_mutex)" by (rule cs_next [OF cs_init])
  have "cs_step Linux (?p1, new_mutex) (?p2, new_mutex)" by (rule cs_enter) simp_all
  then have "cs_reach Linux (?p2, new_mutex)" by (rule cs_next [OF 1])
  then show "\<exists>pc m. cs_reach Linux (pc, m) \<and> pc 1 = Inside \<and> pc 2 = Inside" by fastforce
qed

lemma mutex_excludes_only_on_windows_witness:
  "mutex_lock Windows 2 \<lparr> mx_owner = Some 1, mx_count = 1 \<rparr> = None"
proof -
  let ?p1 = "(\<lambda>_. Outside)(1 := Inside)"
  have "cs_step Windows (\<lambda>_. Outside, new_mutex) (?p1, \<lparr> mx_owner = Some 1, mx_count = 1 \<rparr>)"
    by (rule cs_enter) (simp_all add: mutex_lock_def new_mutex_def)
  then have "cs_reach Windows (?p1, \<lparr> mx_owner = Some 1, mx_count = 1 \<rparr>)" by (rule cs_next [OF cs_init])
  moreover have "?p1 1 = Inside" "(2::nat) \<noteq> 1" by simp_all
  ultimately show ?thesis using mutex_excludes_only_on_windows by blast
qed

section \<open>Texts\<close>



text \<open>C18.  Converter::replace ends for every non-empty pattern and computes the replacement of all
  non-overlapping occurrences from the left, never looking again at the text it has inserted; a fuel of
  one more than the length of the text is enough.  For an empty pattern the loop never ends.\<close>
theorem replace_is_replace_all:
  "(src \<noteq> [] \<and> length str < fuel \<longrightarrow> replace fuel str src dst = Some (replace_all src dst str)) \<and>
   replace fuel str [] dst = None"
proof
  show "src \<noteq> [] \<and> length str < fuel \<longrightarrow> replace fuel str src dst = Some (replace_all src dst str)"
    using replace_loop_eq [of src str fuel dst "[]"] by (simp add: replace_def)
  have "str_find_from str [] 0 = Some 0" by (simp add: str_find_from_def)
  then show "replace fuel str [] dst = None" by (simp add: replace_def replace_loop_empty_src)
qed

lemma replace_is_replace_all_witness:
  "replace 12 ''/a//b/'' ''//'' ''/'' = Some (replace_all ''//'' ''/'' ''/a//b/'')"
  using replace_is_replace_all [of "''//''" "''/a//b/''" 12 "''/''"] by simp

text \<open>C19.  Text of non-zero 16-bit units converted to UTF-8 and back is unchanged, whatever lies in memory
  behind it, and SplitUtf8 cuts its UTF-8 form into the forms of the single units; on any bytes at all
  the conversion from UTF-8 depends on the string only, although it looks up to five bytes ahead.\<close>
theorem utf_conversions_round_trip:
  "((\<forall>u \<in> set us. u \<noteq> 0) \<longrightarrow>
     (\<exists>bs. convertUtf16ToUtf8 (Some (us @ [0])) = Inr bs \<and> convertUtf8ToUtf16 mem bs (Some []) = Some us \<and>
        SplitUtf8 mem bs (Some []) = Some (map utf8_of_unit us))) \<and>
   convertUtf8ToUtf16 mem s r = convertUtf8ToUtf16 mem' s r"
proof
  show "(\<forall>u \<in> set us. u \<noteq> 0) \<longrightarrow>
     (\<exists>bs. convertUtf16ToUtf8 (Some (us @ [0])) = Inr bs \<and> convertUtf8ToUtf16 mem bs (Some []) = Some us \<and>
        SplitUtf8 mem bs (Some []) = Some (map utf8_of_unit us))"
  proof
    assume nz: "\<forall>u \<in> set us. u \<noteq> 0"
    have "utf8_loop (concat (map utf8_of_unit us)) mem 0 = (us, True)"
      using utf8_loop_units [OF nz, of "[]" mem] by simp
    then have c: "convertUtf8ToUtf16 mem (concat (map utf8_of_unit us)) (Some []) = Some us"
      by (cases "concat (map utf8_of_unit us) = []")
        (simp_all add: convertUtf8ToUtf16_def utf8_loop.simps del: concat_eq_Nil_conv)
    have "map (\<lambda>u. case convertUtf16ToUtf8 (Some [u, 0]) of Inl _ \<Rightarrow> [] | Inr b \<Rightarrow> b) us = map utf8_of_unit us"
      using nz by (simp add: convertUtf16ToUtf8_def)
    then show "\<exists>bs. convertUtf16ToUtf8 (Some (us @ [0])) = Inr bs \<and> convertUtf8ToUtf16 mem bs (Some []) = Some us \<and>
        SplitUtf8 mem bs (Some []) = Some (map utf8_of_unit us)"
      using utf16_loop_ok [OF nz] c by (simp add: convertUtf16ToUtf8_def SplitUtf8_def)
  qed
  show "convertUtf8ToUtf16 mem s r = convertUtf8ToUtf16 mem' s r"
    using utf8_loop_mem [of s mem 0 mem'] by (simp add: convertUtf8ToUtf16_def)
qed

lemma utf_conversions_round_trip_witness:
  "\<exists>bs. convertUtf16ToUtf8 (Some ([0x41, 0xE9, 0x4E2D] @ [0])) = Inr bs \<and>
     convertUtf8ToUtf16 (\<lambda>_. 0xFF) bs (Some []) = Some [0x41, 0xE9, 0x4E2D]"
  using conjunct1 [OF utf_conversions_round_trip [of "[0x41, 0xE9, 0x4E2D]" "\<lambda>_. 0xFF" "[]" None "\<lambda>_. 0"]] by auto

section \<open>The configuration\<close>

text \<open>C20.  A file written as blocks of a section header and settings is read in full: getValueByKey gives,
  for every section and key, the value set last for that key in a block of that section (dots in the
  key of the file do not count), and the empty text when there is none.\<close>
theorem configuration_read_back:
  assumes "\<forall>b \<in> set bs. block_ok b" "fileName \<noteq> []" "length (concat (map block_lines bs)) + 1 < fuel"
  shows "\<exists>conf. loadConfigFile fuel fileName (Some (file_text (concat (map block_lines bs)))) [] = Some (True, conf) \<and>
     (\<forall>s k. getValueByKey s k conf = (case block_value bs s k of None \<Rightarrow> [] | Some v \<Rightarrow> v))"
  by (rule load_blocks [OF assms])

definition ex_blocks :: "conf_block list" where
  "ex_blocks = [(''ICK_SERVER'', [(''IckNetworkType'', ''LAN''), (''Ick.NetworkType'', ''WAN'')]), (''ICK_CLIENT'', [])]"

lemma configuration_read_back_witness:
  "\<exists>conf. loadConfigFile 9 ''iklib.conf'' (Some (file_text (concat (map block_lines ex_blocks)))) [] = Some (True, conf) \<and>
     getValueByKey ''ICK_SERVER'' ''IckNetworkType'' conf = ''WAN'' \<and> getValueByKey ''ICK_CLIENT'' ''x'' conf = []"
proof -
  have ok: "\<forall>b \<in> set ex_blocks. block_ok b"
    by (simp add: ex_blocks_def block_ok_def line_ok_def setting_ok_def setting_line_def LINE_BUFF_def)
  have v: "block_value ex_blocks ''ICK_SERVER'' ''IckNetworkType'' = Some ''WAN''"
    "block_value ex_blocks ''ICK_CLIENT'' ''x'' = None"
    by (simp_all add: block_value_def ex_blocks_def remove_dots_eq)
  have "length (concat (map block_lines ex_blocks)) + 1 < 9" by (simp add: ex_blocks_def block_lines_def)
  from configuration_read_back [OF ok _ this, of "''iklib.conf''"] show ?thesis using v by auto
qed

text \<open>C21.  Reading a file ends, within two rounds more than it has characters, when no line is as long as the
  buffer of 512; a file whose first line is that long makes the loop run forever, because the stream
  fails without reaching its end.\<close>
theorem configuration_loop_ends:
  "(lines_fit text \<and> length text + 1 < fuel \<and> fileName \<noteq> [] \<longrightarrow>
     (\<exists>c. loadConfigFile fuel fileName (Some text) conf = Some (True, c))) \<and>
   (LINE_BUFF \<le> length (takeWhile (\<lambda>c. c \<noteq> CHR 0x0A) text) \<and> fileName \<noteq> [] \<longrightarrow>
     loadConfigFile fuel2 fileName (Some text) conf = None)"
proof (intro conjI impI)
  assume a: "lines_fit text \<and> length text + 1 < fuel \<and> fileName \<noteq> []"
  then show "\<exists>c. loadConfigFile fuel fileName (Some text) conf = Some (True, c)"
    using config_loop_ends [of "open_file text" fuel "([], conf)"]
    by (auto simp: loadConfigFile_def open_file_def)
next
  assume a: "LINE_BUFF \<le> length (takeWhile (\<lambda>c. c \<noteq> CHR 0x0A) text) \<and> fileName \<noteq> []"
  obtain l st where g: "getline (open_file text) = (l, st)" by force
  then have st: "is_fail st" "\<not> is_eof st" using a by (auto simp: getline_def open_file_def Let_def)
  have "config_loop fuel2 (open_file text) ([], conf) = None"
    using config_loop_stuck [OF st] g by (cases fuel2) (auto simp: Let_def open_file_def)
  then show "loadConfigFile fuel2 fileName (Some text) conf = None"
    using a by (simp add: loadConfigFile_def)
qed

lemma configuration_loop_ends_witness:
  "(\<exists>c. loadConfigFile 9 ''f'' (Some ''a=1'') [] = Some (True, c)) \<and>
   loadConfigFile 99 ''f'' (Some (replicate 600 (CHR ''x''))) [] = None"
proof -
  have "lines_fit ''a=1''" by (auto simp: lines_fit_def LINE_BUFF_def dest!: arg_cong [of _ _ length])
  moreover have "LINE_BUFF \<le> length (takeWhile (\<lambda>c. c \<noteq> CHR 0x0A) (replicate 600 (CHR ''x'')))"
    by (simp add: takeWhile_replicate LINE_BUFF_def)
  ultimately show ?thesis
    using configuration_loop_ends [of "''a=1''" 9 "''f''" "[]" 1]
      configuration_loop_ends [of "replicate 600 (CHR ''x'')" 1 "''f''" "[]" 99] by simp
qed

section \<open>The connection pool\<close>




section \<open>The log\<close>

text \<open>C23.  A round of the writer thread that can write puts every queued message, one line each and in
  order, behind the lines written before, empties the queue, hands the messages to each log subscriber
  and keeps the record of files and line counts exact, when it opens a new file as well; and asking
  for the whole history afterwards delivers all those lines.\<close>
theorem writer_then_history:
  assumes ok: "history_ok lg" and ms: "lg_messages lg \<noteq> []" "\<forall>m \<in> set (lg_messages lg). one_line m"
    and w: "writable (round_name fmt lg)"
    and fresh: "lg_file_name lg = [] \<Longrightarrow> fresh_file lg (round_name fmt lg)"
  shows "\<exists>lg'. writer_round fmt writable lg = Inr lg' \<and> history_ok lg' \<and> lg_messages lg' = [] \<and>
     lg_updates lg' = lg_updates lg @ map (\<lambda>s. (s, lg_messages lg)) (lg_subscribers lg) \<and>
     fst (getHistoryLog now (Some []) 0 None lg') =
       Some (all_lines lg @ map (lm_toString False) (lg_messages lg))"
proof -
  from writer_round_ok [of lg writable fmt, OF ok ms w fresh] obtain lg' where
    l: "writer_round fmt writable lg = Inr lg'" "history_ok lg'" "lg_messages lg' = []"
      "all_lines lg' = all_lines lg @ map (lm_toString False) (lg_messages lg)" by blast
  have "round_history fmt lg \<noteq> []" using ok by (auto simp: round_history_def history_ok_def)
  from writer_round_eq [of lg writable fmt, OF ms(1) w this] l(1) have
    u: "lg_updates lg' = lg_updates lg @ map (\<lambda>s. (s, lg_messages lg)) (lg_subscribers lg)" by auto
  have en: "\<forall>h \<in> set (lg_history lg'). entry_ok (lg_files lg') h" using l(2) by (simp add: history_ok_def)
  have "total_lines (lg_history lg') = int (length (all_lines lg'))"
    using total_lines_all [OF en] by (simp add: all_lines_def)
  then have "0 < total_lines (lg_history lg')" using l(4) ms(1) by (cases "lg_messages lg") simp_all
  then have "fst (getHistoryLog now (Some []) 0 None lg') = Some (all_lines lg')"
    using history_read_all [OF en, of 0 now "[]"] by (simp add: getHistoryLog_def all_lines_def)
  with l u show ?thesis by auto
qed

definition ex_logger :: logger where
  "ex_logger = new_logger\<lparr>lg_messages := [new_logger_message ''t'' ''started'' [] LV_INFO RecordAndPrint]\<rparr>"

lemma writer_then_history_witness:
  "\<exists>lg'. writer_round (\<lambda>p. p) (\<lambda>_. True) ex_logger = Inr lg' \<and> history_ok lg' \<and> lg_messages lg' = [] \<and>
     lg_updates lg' = lg_updates ex_logger @ map (\<lambda>s. (s, lg_messages ex_logger)) (lg_subscribers ex_logger) \<and>
     fst (getHistoryLog ''t'' (Some []) 0 None lg') =
       Some (all_lines ex_logger @ map (lm_toString False) (lg_messages ex_logger))"
  by (rule writer_then_history)
    (simp_all add: ex_logger_def history_ok_def new_logger_def one_line_def lm_toString_def
      new_logger_message_def fresh_file_def round_name_def file_pattern_def serious_def)

section \<open>The XML configuration\<close>





section \<open>The start of a server, classes and the callers of a service\<close>








text \<open>C26.  Several callers of one service: on Windows no two are between the lock and the unlock of its
  owner's mutex, in whatever order their steps are taken.  But the parameters are written before the lock, so that
  for any two callers whose texts fit the declared parameters there is an order, on either system, in which the
  first one's execute runs with all parameters of the second, and the second's has not yet run.\<close>
theorem service_calls_race:
  fixes infos :: "(string, 'd service_param) omap"
  shows "(call_reach Windows atof zero infos texts ps0 w \<and> cw_loc w t \<in> {Locked, Ran} \<and> cw_loc w u \<in> {Locked, Ran}
       \<longrightarrow> t = u) \<and>
     (indexed infos names \<and> om_ok ps0 \<and> t \<noteq> u \<and>
      (\<forall>v \<in> {t, u}. length (texts v) = length names \<and> (\<forall>x \<in> set (texts v). is_ok (decodeParam x))) \<longrightarrow>
      (\<exists>w ps. call_reach p atof zero infos texts ps0 w \<and> cw_runs w = [(t, ps)] \<and>
        (\<forall>k < length names. \<exists>q r d. om_find infos (names ! k) = Some q \<and> om_find ps (names ! k) = Some r \<and>
           decodeParam (texts u ! k) = Inr d \<and> param_holds atof (sp_type q) d r)))"
proof (intro conjI impI)
  assume "call_reach Windows atof zero infos texts ps0 w \<and> cw_loc w t \<in> {Locked, Ran} \<and> cw_loc w u \<in> {Locked, Ran}"
  then show "t = u" using call_exclusive [of atof zero infos texts ps0 w t u] by blast
next
  assume "indexed infos names \<and> om_ok ps0 \<and> t \<noteq> u \<and>
      (\<forall>v \<in> {t, u}. length (texts v) = length names \<and> (\<forall>x \<in> set (texts v). is_ok (decodeParam x)))"
  then show "\<exists>w ps. call_reach p atof zero infos texts ps0 w \<and> cw_runs w = [(t, ps)] \<and>
        (\<forall>k < length names. \<exists>q r d. om_find infos (names ! k) = Some q \<and> om_find ps (names ! k) = Some r \<and>
           decodeParam (texts u ! k) = Inr d \<and> param_holds atof (sp_type q) d r)"
    by (intro call_overtaken) auto
qed

definition ex_speed_infos :: "(string, int service_param) omap" where
  "ex_speed_infos = [(''speed'', (new_service_param 0)\<lparr>sp_paramName := ''speed'', sp_type := Some PARAM_TYPE_INT\<rparr>)]"

definition ex_call_texts :: "nat \<Rightarrow> string list" where
  "ex_call_texts t = (if t = 1 then [''5''] else [''9''])"

lemma service_calls_race_witness:
  "\<exists>w ps r. call_reach Windows (\<lambda>_. 0) 0 ex_speed_infos ex_call_texts [] w \<and> cw_runs w = [(1, ps)] \<and>
     om_find ps ''speed'' = Some r \<and> sp_intValue r = 9"
proof -
  have i: "indexed ex_speed_infos [''speed'']"
    by (simp add: indexed_def ex_speed_infos_def om_ok_def om_find_def new_service_param_def)
  have d: "decodeParam ''5'' = Inr ''5''" "decodeParam ''9'' = Inr ''9''" "atoi ''9'' = 9" by code_simp+
  have "\<forall>v \<in> {1, 2}. length (ex_call_texts v) = length [''speed''] \<and> (\<forall>x \<in> set (ex_call_texts v). is_ok (decodeParam x))"
    by (simp add: ex_call_texts_def d is_ok_iff)
  then have h: "indexed ex_speed_infos [''speed''] \<and> om_ok ([] :: (string, int service_param) omap) \<and> (1::nat) \<noteq> 2 \<and>
      (\<forall>v \<in> {1, 2}. length (ex_call_texts v) = length [''speed''] \<and> (\<forall>x \<in> set (ex_call_texts v). is_ok (decodeParam x)))"
    using i by (simp add: om_ok_def)
  obtain w ps where w: "call_reach Windows (\<lambda>_. 0) 0 ex_speed_infos ex_call_texts [] w" "cw_runs w = [(1, ps)]"
    "\<forall>k < length [''speed'']. \<exists>q r d. om_find ex_speed_infos ([''speed''] ! k) = Some q \<and>
       om_find ps ([''speed''] ! k) = Some r \<and> decodeParam (ex_call_texts 2 ! k) = Inr d \<and> param_holds (\<lambda>_. 0) (sp_type q) d r"
    using mp [OF conjunct2 [OF service_calls_race] h, of Windows "\<lambda>_. 0" 0] by blast
  have "om_find ex_speed_infos ''speed'' = Some q \<Longrightarrow> sp_type q = Some PARAM_TYPE_INT" for q
    by (auto simp: ex_speed_infos_def om_find_def)
  then show ?thesis using w d by (auto simp: ex_call_texts_def)
qed

text \<open>C27.  The static objects of the classes, each joined once and in whatever order the program initialises
  them, make a list on which registration by class name ends and does what the namespace's registration
  does on the list of the classes, the class joined last coming first; a made object then knows its class
  name.  A class joined twice in a row makes a list that points to itself: the search for any other class
  never ends.\<close>
theorem classes_registered:
  fixes m :: "'d manager"
  assumes "cl_header w = None"
  shows "(distinct ps \<longrightarrow> (\<exists>r. registerClassObject fresh className fullName (fold ClassJoint ps w) m = Some r \<and>
       mapR fst r = registerByClass (class_entries (cl_nodes w) (rev ps)) fresh className fullName m \<and>
       (\<forall>m' w'. r = Inr (m', w') \<longrightarrow> getClassName className w' = className))) \<and>
     (cn_className (cl_nodes w a) \<noteq> className \<longrightarrow>
       registerClassObject fresh className fullName (ClassJoint a (ClassJoint a w)) m = None)"
proof (intro conjI impI)
  assume "distinct ps"
  then have c: "class_chain (cl_nodes (fold ClassJoint ps w)) (cl_header (fold ClassJoint ps w)) (rev ps)"
    "class_entries (cl_nodes (fold ClassJoint ps w)) (rev ps) = class_entries (cl_nodes w) (rev ps)"
    using ClassJoints [of ps "[]" w "rev ps"] assms by simp_all
  show "\<exists>r. registerClassObject fresh className fullName (fold ClassJoint ps w) m = Some r \<and>
       mapR fst r = registerByClass (class_entries (cl_nodes w) (rev ps)) fresh className fullName m \<and>
       (\<forall>m' w'. r = Inr (m', w') \<longrightarrow> getClassName className w' = className)"
    using registerClassObject_refines [OF c(1), of fresh className fullName m] unfolding c(2) by blast
next
  assume "cn_className (cl_nodes w a) \<noteq> className"
  from ClassJoint_twice [OF this] show "registerClassObject fresh className fullName (ClassJoint a (ClassJoint a w)) m = None"
    by (simp add: registerClassObject_def)
qed

definition ex_class_lists :: class_lists where
  "ex_class_lists = \<lparr> cl_nodes = \<lambda>i. \<lparr> cn_className = ''Pump'', cn_baseList = None, cn_nextList = None,
      cn_object = Some \<lparr> ct_fullName = [], ct_selfName = [], ct_driverNode = (if i = 2 then Some 5 else None) \<rparr> \<rparr>,
     cl_header = None, cl_map = [], cl_names = \<lambda>_. [] \<rparr>"

lemma classes_registered_witness:
  "\<exists>m' w'. registerClassObject 9 ''Pump'' ''/p'' (fold ClassJoint [1, 2] ex_class_lists) (new_manager :: int manager) =
       Some (Inr (m', w')) \<and>
     map_option ct_driverNode (om_find (om_ctrl_store m') 9) = Some (Some 5) \<and> getClassName ''Pump'' w' = ''Pump'' \<and>
     registerClassObject 9 ''Tank'' ''/p'' (ClassJoint 1 (ClassJoint 1 ex_class_lists)) (new_manager :: int manager) = None"
proof -
  have h: "cl_header ex_class_lists = None" "distinct [1, 2 :: nat]" by (simp_all add: ex_class_lists_def)
  obtain r where r: "registerClassObject 9 ''Pump'' ''/p'' (fold ClassJoint [1, 2] ex_class_lists) (new_manager :: int manager) =
      Some r" "mapR fst r = registerByClass (class_entries (cl_nodes ex_class_lists) (rev [1, 2])) 9 ''Pump'' ''/p'' new_manager"
    "\<forall>m' w'. r = Inr (m', w') \<longrightarrow> getClassName ''Pump'' w' = ''Pump''"
    using mp [OF conjunct1 [OF classes_registered [OF h(1)]] h(2)] by blast
  obtain m' where m': "registerByClass (class_entries (cl_nodes ex_class_lists) (rev [1, 2])) 9 ''Pump'' ''/p''
      (new_manager :: int manager) = Inr m'" "map_option ct_driverNode (om_find (om_ctrl_store m') 9) = Some (Some 5)"
    by (simp add: class_entries_def ex_class_lists_def registerByClass_def new_manager_def om_find_def)
  obtain w' where "r = Inr (m', w')" using r(2) m'(1) by (cases r) (auto simp: res_simps)
  moreover have "cn_className (cl_nodes ex_class_lists 1) \<noteq> ''Tank''" by (simp add: ex_class_lists_def)
  then have "registerClassObject 9 ''Tank'' ''/p'' (ClassJoint 1 (ClassJoint 1 ex_class_lists)) (new_manager :: int manager) = None"
    using classes_registered [OF h(1)] by blast
  ultimately show ?thesis using r m'(2) by blast
qed

section \<open>Timer, thread and socket life\<close>

text \<open>C28.  Whatever the exit flag reads at each look, the timer thread ends exactly when one of the looks
  reads true, and at every moment the time slept agrees with the calls of the handler: after n calls it
  lies between n - 1 and n intervals, however the interval is cut into steps of ten milliseconds.\<close>
theorem timer_thread_keeps_time:
  assumes "timer_execute i True flags = (es, q)" "0 \<le> i"
  shows "(q = Ended \<longleftrightarrow> True \<in> set flags) \<and>
     (int (count_list es OnTimer) - 1) * i \<le> slept es \<and> slept es \<le> int (count_list es OnTimer) * i"
  by (rule timer_execute_run [OF assms])

lemma timer_thread_keeps_time_witness:
  "timer_execute 25 True [False, False, False, False, False, True] =
     ([OnTimer, Sleep_ms 10, Sleep_ms 10, Sleep_ms 5, OnTimer, Sleep_ms 10], Ended) \<and>
   slept [OnTimer, Sleep_ms 10, Sleep_ms 10, Sleep_ms 5, OnTimer, Sleep_ms 10] \<le> 2 * 25"
proof
  let ?es = "[OnTimer, Sleep_ms 10, Sleep_ms 10, Sleep_ms 5, OnTimer, Sleep_ms 10]"
  show r: "timer_execute 25 True [False, False, False, False, False, True] = (?es, Ended)" by code_simp
  show "slept ?es \<le> 2 * 25" using timer_thread_keeps_time [OF r] by simp
qed


text \<open>C30.  A reconnecting client whose handler fails at some call sleeps for exactly its interval, in steps of
  at most a second, and then calls connect once, with the failed socket out of its map of clients.  The
  pair of threads for sending and receiving never comes to that: the receiving thread waits for its own
  flag, which it clears only afterwards, whatever the other thread does.\<close>
theorem reconnection:
  assumes "lv_isClient s" "lv_isReconnect s" "0 < lv_reconnectTimeInterval s" "False \<in> set results"
  shows "(\<exists>ss. sum_list ss = lv_reconnectTimeInterval s \<and> (\<forall>x \<in> set ss. 0 < x \<and> x \<le> 1000) \<and>
       socketConnectProc p env results c s = Some (mapR (\<lambda>(r, s'). (ss, s'))
         (socket_connect p env (s\<lparr>lv_clients := removeClientSocket (Some c) (lv_clients s)\<rparr>)))) \<and>
     socketRecvProc p env results sends c s = None"
proof
  have h: "handler_rounds rs \<noteq> None" if "False \<in> set rs" for rs
    using that by (induction rs) auto
  obtain n where n: "handler_rounds results = Some n" using h [OF assms(4)] by blast
  obtain ss b where r: "reconnect_loop (lv_reconnectTimeInterval s) = (ss, b)" by fastforce
  note q = reconnect_loop_result [OF r]
  then have "b" using assms(3) by simp
  then show "\<exists>ss. sum_list ss = lv_reconnectTimeInterval s \<and> (\<forall>x \<in> set ss. 0 < x \<and> x \<le> 1000) \<and>
       socketConnectProc p env results c s = Some (mapR (\<lambda>(r, s'). (ss, s'))
         (socket_connect p env (s\<lparr>lv_clients := removeClientSocket (Some c) (lv_clients s)\<rparr>)))"
    using q assms(1-3) r n by (intro exI [of _ ss]) (simp add: socketConnectProc_def)
  show "socketRecvProc p env results sends c s = None"
    using n by (simp add: socketRecvProc_def socketClosedHandler_def closed_wait_own)
qed

lemma reconnection_witness:
  "socketRecvProc Windows \<lparr> ne_bind = True, ne_listen = True, ne_connect = True, ne_gethostname = True,
     ne_gethostbyname = None, ne_error = 0 \<rparr> [True, False] [True, False, False] 1
     (new_live_socket True SOCKET_TCP ''127.0.0.1'' 5000) = None"
proof -
  let ?s = "new_live_socket True SOCKET_TCP ''127.0.0.1'' 5000"
  have "lv_isClient ?s" "lv_isReconnect ?s" "0 < lv_reconnectTimeInterval ?s" "False \<in> set [True, False]"
    by (simp_all add: new_live_socket_def)
  from conjunct2 [OF reconnection [OF this]] show ?thesis by blast
qed

section \<open>Texts of times, frames and formats\<close>

text \<open>C31.  The text of a time with a four-digit year and fields of at most two digits fits the buffer and is
  read back field by field as getTimeFromStringAsSeconds reads it, while getTimeFromString, which wants
  dashes, takes the year alone from it; the text of the clock on Linux it reads in full.  A year has 365 or 366
  days, 366 exactly in the Gregorian leap years.\<close>
theorem time_text_round_trip:
  assumes "four_digit_time t"
  shows "(\<exists>s. getTimeFromTimeItem t = Inr s \<and>
       read_time s = Inr (new_time_item\<lparr>ti_year := ti_year t, ti_month := ti_month t, ti_day := ti_day t,
         ti_hour := ti_hour t, ti_minute := ti_minute t, ti_sec := ti_sec t\<rparr>) \<and>
       getTimeFromString s ''yyyy-MM-dd HH:mm:ss'' = new_time_item\<lparr>ti_year := ti_year t\<rparr>) \<and>
     (\<forall>s. getCurrentTimeAsStr Linux t = Inr s \<longrightarrow> getTimeFromString s ''yyyy-MM-dd HH:mm:ss'' =
       new_time_item\<lparr>ti_year := ti_year t, ti_month := ti_month t, ti_day := ti_day t,
         ti_hour := ti_hour t, ti_minute := ti_minute t, ti_sec := ti_sec t\<rparr>) \<and>
     sum_list (map (getDaysOfMonth (ti_year t)) [1, 2, 3, 4, 5, 6, 7, 8, 9, 10, 11, 12]) =
       (if (4 dvd ti_year t \<and> \<not> 100 dvd ti_year t) \<or> 400 dvd ti_year t then 366 else 365)"
proof -
  have p: "plain_time t" using assms by (auto simp: four_digit_time_def plain_time_def int32_def)
  show ?thesis
    using read_time_text [OF assms] slash_time_year_only [OF p] Linux_time_read_back [OF p] year_days_sum [of "ti_year t"]
    by (auto simp: getDaysOfMonth_def dvd_eq_mod_eq_0)
qed

lemma time_text_round_trip_witness:
  "\<exists>s. getTimeFromTimeItem (new_time_item\<lparr>ti_year := 2016, ti_month := 2, ti_day := 29, ti_hour := 9\<rparr>) = Inr s \<and>
     read_time s = Inr (new_time_item\<lparr>ti_year := 2016, ti_month := 2, ti_day := 29, ti_hour := 9\<rparr>) \<and>
     getTimeFromString s ''yyyy-MM-dd HH:mm:ss'' = new_time_item\<lparr>ti_year := 2016\<rparr>"
proof -
  have "four_digit_time (new_time_item\<lparr>ti_year := 2016, ti_month := 2, ti_day := 29, ti_hour := 9\<rparr>)"
    by (simp add: four_digit_time_def new_time_item_def)
  from conjunct1 [OF time_text_round_trip [OF this]] show ?thesis by (auto simp: new_time_item_def)
qed

section \<open>The application and its clients\<close>


section \<open>Forwarding\<close>

text \<open>C32.  A data forwarder whose mutex is free and whose sends work reads each object it is told of and puts its
  text behind the messages queued, and its next round sends the whole queue in order, whatever the packets of
  eleven, empties it and leaves the mutex as it was.  On Linux no heartbeat is ever due.\<close>
theorem forwarder_sends_updates:
  assumes "mutex_ok (df_mutex df)" "mx_owner (df_mutex df) = None" "net_raw (df_net df) = []"
    and "\<forall>m \<in> set (df_messages df). m \<noteq> []" "p = Linux \<Longrightarrow> -60 \<le> df_lastHeartBeatTime df"
    and "p = Windows \<Longrightarrow> time - df_lastHeartBeatTime df \<le> 60"
    and "om_find (om_data_store (df_mgr df)) i = Some a"
  shows "\<exists>df1 df2. df_update p t print zero differs ri rd rs now (Some i) df = Inr (Some df1) \<and>
     df_handler p u fatal time s df1 = Some (True, df2) \<and> df_messages df2 = [] \<and> df_mutex df2 = df_mutex df \<and>
     om_data_store (df_mgr df2) = om_put i (df_read differs ri rd rs a) (om_data_store (df_mgr df)) \<and>
     concat (map snd (net_sent (df_net df2))) = concat (map snd (net_sent (df_net df))) @
       concat (df_messages df) @ df_text print now (ud_fullName (the_ud a)) (value_of zero (df_read differs ri rd rs a))"
proof -
  let ?a = "df_read differs ri rd rs a"
  let ?m = "df_text print now (ud_fullName (the_ud a)) (value_of zero ?a)"
  let ?df0 = "df\<lparr>df_mgr := (df_mgr df)\<lparr>om_data_store := om_put i ?a (om_data_store (df_mgr df))\<rparr>\<rparr>"
  let ?df1 = "?df0\<lparr>df_messages := df_messages df @ [?m]\<rparr>"
  have lock: "\<exists>mx. mutex_lock p v (df_mutex df) = Some mx" for v
    using assms(2) by (cases p) (simp_all add: mutex_lock_def)
  obtain mx where "mutex_lock p t (df_mutex df) = Some mx" using lock by blast
  moreover from lock_unlock [OF assms(1) this] have "mutex_unlock p t mx = df_mutex df" .
  ultimately have up: "df_update p t print zero differs ri rd rs now (Some i) df = Inr (Some ?df1)"
    using assms(7) by (simp add: df_update_def Let_def)
  obtain my where my: "mutex_lock p u (df_mutex df) = Some my" using lock by blast
  note un = lock_unlock [OF assms(1) my]
  have "\<forall>m \<in> set (df_messages ?df1). m \<noteq> []" using assms(4) by (auto simp: df_text_nonempty)
  from df_batch_sent [OF assms(3) this, of fatal s 0 "[]"] obtain rest n where
    b: "df_batch fatal s (df_messages ?df1) 0 [] (df_net df) = (False, rest, n)" "net_raw n = []"
      "concat (map snd (net_sent n)) @ rest =
         concat (map snd (net_sent (df_net df))) @ concat (df_messages df) @ ?m" by auto
  have hb: "\<not> 60 < seconds_now p time - df_lastHeartBeatTime df"
    using assms(5,6) by (cases p) (simp_all add: seconds_now_def)
  show ?thesis
  proof (cases "rest = []")
    case True
    have "df_handler p u fatal time s ?df1 = Some (True, ?df0\<lparr>df_messages := [], df_net := n\<rparr>)"
      using b(1) hb my un True by (simp add: df_handler_def)
    then show ?thesis using up b(3) True
      by (intro exI [of _ ?df1] exI [of _ "?df0\<lparr>df_messages := [], df_net := n\<rparr>"]) simp
  next
    case False
    then have "\<not> send_fails fatal (int (length rest))" by (simp add: send_fails_def)
    then have "df_handler p u fatal time s ?df1 = Some (True, ?df0\<lparr>df_messages := [], df_net := n\<lparr>net_sent := net_sent n @ [(s, rest)]\<rparr>\<rparr>)"
      using b(1) hb my un False raw_net_send_ok [OF b(2), of rest s] by (simp add: df_handler_def)
    then show ?thesis using up b(3)
      by (intro exI [of _ ?df1] exI [of _ "?df0\<lparr>df_messages := [], df_net := n\<lparr>net_sent := net_sent n @ [(s, rest)]\<rparr>\<rparr>"]) simp
  qed
qed

definition ex_forwarder :: "int data_forwarder" where
  "ex_forwarder = \<lparr> df_messages = [''HeartBeat;''], df_mutex = new_mutex, df_net = new_net, df_lastHeartBeatTime = 0,
     df_isClient = True, df_host = [], df_port = 0, df_interval = 0,
     df_mgr = ex_data_manager \<rparr>"

lemma forwarder_sends_updates_witness:
  "\<exists>df1 df2. df_update Linux 1 (\<lambda>_. ''0'') 0 (\<noteq>) (\<lambda>_ _ _. None) (\<lambda>_ _ _. None) (\<lambda>_ _ _. None) 9 (Some 1) ex_forwarder =
       Inr (Some df1) \<and>
     df_handler Linux 2 True 100 4 df1 = Some (True, df2) \<and>
     concat (map snd (net_sent (df_net df2))) = ''HeartBeat;Update:/tank/level:R:I:3:9;''"
proof -
  have a: "mutex_ok (df_mutex ex_forwarder)" "mx_owner (df_mutex ex_forwarder) = None" "net_raw (df_net ex_forwarder) = []"
    "\<forall>m \<in> set (df_messages ex_forwarder). m \<noteq> []" "-60 \<le> df_lastHeartBeatTime ex_forwarder"
    by (simp_all add: ex_forwarder_def new_net_def) (simp add: new_mutex_def)
  have f: "om_find (om_data_store (df_mgr ex_forwarder)) 1 = Some ex_level" by (simp add: ex_forwarder_def ex_data_manager_def om_find_def)
  have t: "df_text (\<lambda>_. ''0'') 9 (ud_fullName (the_ud ex_level))
      (value_of 0 (df_read (\<noteq>) (\<lambda>_ _ _. None) (\<lambda>_ _ _. None) (\<lambda>_ _ _. None) ex_level)) = ''Update:/tank/level:R:I:3:9;''"
    by code_simp
  show ?thesis
    using forwarder_sends_updates [OF a(1-5) _ f, of Linux 100 1 "\<lambda>_. ''0''" 0 "(\<noteq>)" "\<lambda>_ _ _. None" "\<lambda>_ _ _. None" "\<lambda>_ _ _. None" 9 2 True 4]
    by (auto simp: t ex_forwarder_def new_net_def)
qed

section \<open>The C interface\<close>




section \<open>Remote log, HTTP server and database connections\<close>

text \<open>C34.  A client that asks for the whole log, when some of it has been written, and is served until it
  cancels is sent every line of the log files in order, those written before the call and those the
  writer writes until the last look, whatever is logged meanwhile and however the rounds of the writer
  fall between the looks.  A client that asks before anything has been written is never registered
  and gets nothing, however long it waits.\<close>
theorem remote_log_streams_everything:
  "(history_ok lg \<and> all_lines lg \<noteq> [] \<and> self \<notin> set (lg_subscribers lg) \<and>
    (\<forall>m \<in> set (lg_messages lg). one_line m) \<and> CHR 0x0A \<notin> set now \<and>
    looks_ok writable ass (setLoggerSubscriber (Some self)
      (Info now (''receive logger request: count: '' @ show_int 0) RecordAndPrint lg)) \<longrightarrow>
      (\<exists>lg1 lg2. RequestLogger writable now self 0 (map (Pair False) ass @ [(False, []), (True, [])]) lg =
           (True, all_lines lg1, lg2) \<and>
         lg1 = fold (do_act writable) (concat ass) (setLoggerSubscriber (Some self)
           (Info now (''receive logger request: count: '' @ show_int 0) RecordAndPrint lg)))) \<and>
   (total_lines (lg_history lg) \<le> 0 \<and> self \<notin> set (lg_subscribers lg) \<longrightarrow>
      fst (snd (RequestLogger writable now self count looks lg)) = [])"
proof (intro conjI impI)
  let ?lg = "Info now (''receive logger request: count: '' @ show_int 0) RecordAndPrint lg"
  let ?s = "setLoggerSubscriber (Some self) ?lg"
  assume a: "history_ok lg \<and> all_lines lg \<noteq> [] \<and> self \<notin> set (lg_subscribers lg) \<and>
    (\<forall>m \<in> set (lg_messages lg). one_line m) \<and> CHR 0x0A \<notin> set now \<and> looks_ok writable ass ?s"
  have k: "lg_history ?lg = lg_history lg" "lg_files ?lg = lg_files lg" "all_lines ?lg = all_lines lg"
    "history_ok ?lg" "lg_subscribers ?lg = lg_subscribers lg"
    using a by (simp_all add: Info_def log_at_keeps)
  have en: "\<forall>h \<in> set (lg_history ?lg). entry_ok (lg_files ?lg) h" using k(4) by (simp add: history_ok_def)
  have "0 < length (all_lines lg)" using a by simp
  then have "0 < total_lines (lg_history ?lg)"
    using total_lines_all [OF en] k(3) by (simp add: all_lines_def)
  then have h: "getHistoryLog now (Some []) 0 (Some self) ?lg = (Some (all_lines lg), ?s)"
    using history_read_all [OF en, of 0 now "[]"] k(3) by (simp add: getHistoryLog_def all_lines_def)
  have n: "CHR 0x0A \<notin> set now" using a by blast
  have z: "CHR 0x0A \<notin> set (show_int 0)" using show_int_chars [of "CHR 0x0A" 0] by (auto simp: is_digit_def)
  have line: "one_line (new_logger_message now (''receive logger request: count: '' @ show_int 0) [] LV_INFO RecordAndPrint)"
    using n z by (simp add: one_line_def lm_toString_def new_logger_message_def serious_def)
  have "\<forall>m \<in> set (lg_messages ?lg). one_line m"
    using a line by (auto simp: Info_def log_at_queue)
  moreover have "filter (\<lambda>s. s = self) (lg_subscribers lg @ [self]) = [self]"
    using a by (auto simp: filter_empty_conv)
  moreover have "history_ok ?s" using k(4) by (simp add: history_ok_def setLoggerSubscriber_def)
  ultimately have st: "streaming self ?s" using k(5) by (simp add: streaming_def setLoggerSubscriber_def)
  have al: "all_lines ?s = all_lines lg" using k(3) by (simp add: all_lines_def setLoggerSubscriber_def)
  obtain lg1 where "request_loop writable now self (map (Pair False) ass @ [(False, []), (True, [])]) ?s [] (all_lines lg) =
       (True, all_lines lg1, Info now ''client is cancelled'' RecordAndPrint lg1)"
    "lg1 = fold (do_act writable) (concat ass) ?s"
    using request_loop_streams [OF st, of writable ass "all_lines lg" "[]" now] a al by auto
  then show "\<exists>lg1 lg2. RequestLogger writable now self 0 (map (Pair False) ass @ [(False, []), (True, [])]) lg =
           (True, all_lines lg1, lg2) \<and> lg1 = fold (do_act writable) (concat ass) ?s"
    using h by (simp add: RequestLogger_def)
next
  let ?lg = "Info now (''receive logger request: count: '' @ show_int count) RecordAndPrint lg"
  assume a: "total_lines (lg_history lg) \<le> 0 \<and> self \<notin> set (lg_subscribers lg)"
  have k: "lg_history ?lg = lg_history lg" "lg_subscribers ?lg = lg_subscribers lg"
    by (simp_all add: Info_def log_at_keeps)
  obtain lg2 where h: "getHistoryLog now (Some []) count (Some self) ?lg = (Some [], lg2)"
    "lg_subscribers lg2 = lg_subscribers lg"
    using a k by (simp add: getHistoryLog_def Error_def log_at_keeps)
  then have s: "self \<notin> set (lg_subscribers lg2)" using a by simp
  show "fst (snd (RequestLogger writable now self count looks lg)) = []"
    using request_loop_silent [OF s, of writable now looks "[]"]
    unfolding RequestLogger_def Let_def h(1) by (auto split: prod.split)
qed

definition ex_log_looks :: "logger_act list list" where
  "ex_log_looks = [[Log_Call ''t2'' ''pump on'' LV_INFO RecordAndPrint, Writer_Round (\<lambda>p. p)],
     [Log_Call ''t3'' ''pump off'' LV_WARN Record]]"

definition ex_written_log :: logger where
  "ex_written_log = new_logger\<lparr>lg_file_name := ''a'', lg_files := [(''a'', join_lines [''t1    INFO    start''])],
     lg_history := [\<lparr> hi_file_name = ''a'', hi_line_count = 1, hi_file_size = 19 \<rparr>]\<rparr>"

lemma ex_looks_ok:
  "looks_ok (\<lambda>_. True) ex_log_looks (setLoggerSubscriber (Some 7)
      (Info ''t2'' (''receive logger request: count: '' @ show_int 0) RecordAndPrint ex_written_log))"
proof -
  have "one_line (new_logger_message ''t2'' ''pump on'' [] LV_INFO RecordAndPrint)"
    "one_line (new_logger_message ''t3'' ''pump off'' [] LV_WARN Record)" by code_simp+
  then show ?thesis
    by (simp add: ex_log_looks_def act_ok_def do_act_def [of _ "Log_Call a b c d" for a b c d] log_at_keeps
      setLoggerSubscriber_def Info_def ex_written_log_def new_logger_def del: append_Cons)
qed

lemma remote_log_streams_everything_witness:
  "\<exists>lg1 lg2. RequestLogger (\<lambda>_. True) ''t2'' 7 0 (map (Pair False) ex_log_looks @ [(False, []), (True, [])]) ex_written_log =
     (True, all_lines lg1, lg2)"
proof -
  have "entry_ok [(''a'', join_lines [''t1    INFO    start''])] \<lparr> hi_file_name = ''a'', hi_line_count = 1, hi_file_size = 19 \<rparr>"
    unfolding entry_ok_def by (intro conjI exI [of _ "[''t1    INFO    start'']"]) (simp_all add: om_find_def)
  then have "history_ok ex_written_log"
    by (simp add: history_ok_def ex_written_log_def new_logger_def om_ok_def)
  moreover have "all_lines ex_written_log \<noteq> []" by code_simp
  moreover have "7 \<notin> set (lg_subscribers ex_written_log)" "\<forall>m \<in> set (lg_messages ex_written_log). one_line m"
    "CHR 0x0A \<notin> set ''t2''" by (simp_all add: ex_written_log_def new_logger_def)
  moreover have "looks_ok (\<lambda>_. True) ex_log_looks (setLoggerSubscriber (Some 7)
      (Info ''t2'' (''receive logger request: count: '' @ show_int 0) RecordAndPrint ex_written_log))"
    by (rule ex_looks_ok)
  ultimately have "history_ok ex_written_log \<and> all_lines ex_written_log \<noteq> [] \<and> 7 \<notin> set (lg_subscribers ex_written_log) \<and>
    (\<forall>m \<in> set (lg_messages ex_written_log). one_line m) \<and> CHR 0x0A \<notin> set ''t2'' \<and>
    looks_ok (\<lambda>_. True) ex_log_looks (setLoggerSubscriber (Some 7)
      (Info ''t2'' (''receive logger request: count: '' @ show_int 0) RecordAndPrint ex_written_log))"
    by (intro conjI)
  from mp [OF conjunct1 [OF remote_log_streams_everything] this]
  show ?thesis by (elim exE conjE) (intro exI)
qed



text \<open>C36.  A pool configured by messages, as the XML description does it, holds the values it was sent:
  name, host, user, port and limits; make then opens exactly the initial connections, new ones and all
  free, enters the pool under its name, and leaves a well-formed pool.  A message whose name is in no table of
  the class or its bases throws and ends the configuration.\<close>
theorem pool_configured_by_messages:
  assumes "plain_value name" "plain_value host" "plain_value user" "int32 port" "int32 limit" "int32 init"
    and "om_find ps name = None" "om_ok ps"
  shows "(\<exists>o1 o2 ps'.
      pool_messages atof full
        [(''setPoolName'', name), (''setDataBaseType'', ''MySql''), (''setHost'', host), (''setUserName'', user),
         (''setPort'', show_int port), (''setMaxActiveConnections'', show_int limit),
         (''setInitConnections'', show_int init)] (new_ConnectionPool g) = Inr o1 \<and>
      pj_host o1 = host \<and> pj_userName o1 = user \<and> pj_port o1 = port \<and> po_maxActive (pj_pool o1) = limit \<and>
      make_pool_object (\<lambda>_. False) addr o1 ps = Inr (o2, ps') \<and> pool_ok (pj_pool o2) \<and>
      po_free (pj_pool o2) = [po_next (pj_pool g)..<po_next (pj_pool g) + nat init] \<and>
      po_active (pj_pool o2) = [] \<and> om_find ps' name = Some addr) \<and>
   (\<forall>unknown v rest. unknown \<notin> m_msg ` set connection_pool_messages \<and>
      unknown \<notin> m_msg ` set control_object_messages \<and> unknown \<notin> m_msg ` set cmd_target_messages \<longrightarrow>
      (\<exists>what. pool_messages atof full ((unknown, v) # rest) o3 = Inl (Throw what)))"
proof (intro conjI allI impI)
  have my: "plain_value ''MySql''" by (simp add: plain_value_def untrimmed_def)
  define o1 where "o1 = setInitConnections init (setMaxActiveConnections limit (pool_setPort port (pool_setUserName user
    (pool_setHost host (pool_setDataBaseType ''MySql'' (setPoolName name (new_ConnectionPool g)))))))"
  note defs = setInitConnections_def setMaxActiveConnections_def pool_setPort_def pool_setUserName_def
    pool_setHost_def pool_setDataBaseType_def setPoolName_def setDataBaseType_def new_ConnectionPool_def
  have sent: "pool_messages atof full
        [(''setPoolName'', name), (''setDataBaseType'', ''MySql''), (''setHost'', host), (''setUserName'', user),
         (''setPort'', show_int port), (''setMaxActiveConnections'', show_int limit),
         (''setInitConnections'', show_int init)] (new_ConnectionPool g) = Inr o1"
    by (simp add: text_messages assms my number_messages o1_def)
  have n: "po_next (pj_pool o1) = po_next (pj_pool g)" "po_dbType (pj_pool o1) = MySql"
    "po_initConnections (pj_pool o1) = init" "po_free (pj_pool o1) = []" "po_active (pj_pool o1) = []"
    "po_countActive (pj_pool o1) = 0" "po_poolName (pj_pool o1) = name"
    and v: "pj_host o1 = host" "pj_userName o1 = user" "pj_port o1 = port" "po_maxActive (pj_pool o1) = limit"
    by (simp_all add: o1_def defs)
  obtain p where p: "make_loop (\<lambda>_. False) (nat init) (pj_pool o1) = Inr p"
      "po_free p = [po_next (pj_pool g)..<po_next (pj_pool g) + nat init]" "po_active p = []"
      "po_countActive p = 0" "po_poolName p = name" "po_next p = po_next (pj_pool g) + nat init"
    using make_loop_opens [OF n(2), of "\<lambda>_. False" "nat init"] by (auto simp: n)
  define o2 where "o2 = o1\<lparr>pj_pool := p\<rparr>"
  have made: "make_pool_object (\<lambda>_. False) addr o1 ps = Inr (o2, om_put name addr ps)"
    using p(1,5) assms(7) by (simp add: make_pool_object_def make_pool_def n(3) addPool_def o2_def)
  have o2: "pool_ok (pj_pool o2)" "po_active (pj_pool o2) = []"
    "po_free (pj_pool o2) = [po_next (pj_pool g)..<po_next (pj_pool g) + nat init]"
    using p by (simp_all add: pool_ok_def o2_def)
  have "om_find (om_put name addr ps) name = Some addr" using assms(8) by (simp add: om_find_put)
  with sent v made o2 show "\<exists>o1 o2 ps'.
      pool_messages atof full
        [(''setPoolName'', name), (''setDataBaseType'', ''MySql''), (''setHost'', host), (''setUserName'', user),
         (''setPort'', show_int port), (''setMaxActiveConnections'', show_int limit),
         (''setInitConnections'', show_int init)] (new_ConnectionPool g) = Inr o1 \<and>
      pj_host o1 = host \<and> pj_userName o1 = user \<and> pj_port o1 = port \<and> po_maxActive (pj_pool o1) = limit \<and>
      make_pool_object (\<lambda>_. False) addr o1 ps = Inr (o2, ps') \<and> pool_ok (pj_pool o2) \<and>
      po_free (pj_pool o2) = [po_next (pj_pool g)..<po_next (pj_pool g) + nat init] \<and>
      po_active (pj_pool o2) = [] \<and> om_find ps' name = Some addr"
    by (intro exI conjI)
next
  fix unknown v rest
  assume "unknown \<notin> m_msg ` set connection_pool_messages \<and>
      unknown \<notin> m_msg ` set control_object_messages \<and> unknown \<notin> m_msg ` set cmd_target_messages"
  then obtain what where "pool_message atof full unknown v o3 = Inl (Throw what)"
    using unknown_message by metis
  then show "\<exists>what. pool_messages atof full ((unknown, v) # rest) o3 = Inl (Throw what)" by simp
qed

lemma pool_configured_by_messages_witness:
  "\<forall>g. (\<exists>o1 o2 ps'.
      pool_messages (\<lambda>_. 0::nat) ''pool''
        [(''setPoolName'', ''main''), (''setDataBaseType'', ''MySql''), (''setHost'', ''localhost''),
         (''setUserName'', ''root''), (''setPort'', show_int 3306), (''setMaxActiveConnections'', show_int 8),
         (''setInitConnections'', show_int 2)] (new_ConnectionPool g) = Inr o1 \<and>
      pj_host o1 = ''localhost'' \<and> pj_userName o1 = ''root'' \<and> pj_port o1 = 3306 \<and> po_maxActive (pj_pool o1) = 8 \<and>
      make_pool_object (\<lambda>_. False) 5 o1 [] = Inr (o2, ps') \<and> pool_ok (pj_pool o2) \<and>
      po_free (pj_pool o2) = [po_next (pj_pool g)..<po_next (pj_pool g) + nat 2] \<and>
      po_active (pj_pool o2) = [] \<and> om_find ps' ''main'' = Some 5)"
proof -
  have v: "plain_value ''main''" "plain_value ''localhost''" "plain_value ''root''"
    by (simp_all add: plain_value_def untrimmed_def)
  have i: "int32 3306" "int32 8" "int32 2" by (simp_all add: int32_def)
  have m: "om_find [] ''main'' = (None :: nat option)" "om_ok ([] :: pools)" by (simp_all add: om_find_def om_ok_def)
  show ?thesis by (rule allI, rule conjunct1 [OF pool_configured_by_messages [OF v i m]])
qed




section \<open>Audio\<close>

text \<open>C38.  The encoder of a text of samples, given a LAME that reports no error, returns only when the length is
  a multiple of four: it then hands LAME the whole blocks that are followed by more samples, in order, and
  flushes, and a last block that is not full is never encoded but turns into a call with a negative
  count.  With any other length it reads before the text or, from one block on, encodes its last whole
  block for ever.  In no case is the result delivered.\<close>
theorem encoder_loses_last_block:
  assumes "\<forall>cs. 0 \<le> fst (lame cs)" "int (length pcm) < 2 ^ 62" "init_ok (configure_lame s)"
  shows "(4 dvd length pcm \<longrightarrow>
      Encode (whole_blocks pcm + 2) init_ok s lame tag pcm mp3_data = Some (Inr (0, mp3_data,
        map (pcm_block pcm) [0..<whole_blocks pcm] @
        (if length pcm = 16384 * whole_blocks pcm + 16384 then []
         else [Bad_Count (- ((int (16384 * whole_blocks pcm) + 16384 - int (length pcm)) div 4))]) @ [Flush]))) \<and>
     (\<not> 4 dvd length pcm \<and> 16384 < length pcm \<longrightarrow>
      Encode (whole_blocks pcm + Suc fuel) init_ok s lame tag pcm mp3_data = None) \<and>
     (\<not> 4 dvd length pcm \<and> length pcm < 16384 \<longrightarrow>
      Encode (Suc (Suc fuel)) init_ok s lame tag pcm mp3_data = Some (Inl Undefined))"
proof (intro conjI impI)
  assume "4 dvd length pcm"
  from encode_returns [OF assms(1,2) this, of tag] obtain out where
    e: "encode_loop (whole_blocks pcm + 2) lame pcm 0 [] tag = Some (Inr (map (pcm_block pcm) [0..<whole_blocks pcm] @
       (if length pcm = 16384 * whole_blocks pcm + 16384 then []
        else [Bad_Count (- ((int (16384 * whole_blocks pcm) + 16384 - int (length pcm)) div 4))]) @ [Flush], out))" by blast
  show "Encode (whole_blocks pcm + 2) init_ok s lame tag pcm mp3_data = Some (Inr (0, mp3_data,
        map (pcm_block pcm) [0..<whole_blocks pcm] @
        (if length pcm = 16384 * whole_blocks pcm + 16384 then []
         else [Bad_Count (- ((int (16384 * whole_blocks pcm) + 16384 - int (length pcm)) div 4))]) @ [Flush]))"
    unfolding Encode_def e using assms(3) by simp
next
  assume "\<not> 4 dvd length pcm \<and> 16384 < length pcm"
  then show "Encode (whole_blocks pcm + Suc fuel) init_ok s lame tag pcm mp3_data = None"
    using encode_partial(1) [OF assms(1,2), of fuel tag] assms(3) by (simp add: Encode_def)
next
  assume "\<not> 4 dvd length pcm \<and> length pcm < 16384"
  then show "Encode (Suc (Suc fuel)) init_ok s lame tag pcm mp3_data = Some (Inl Undefined)"
    using encode_partial(2) [OF assms(1,2), of fuel tag] assms(3) by (simp add: Encode_def)
qed

lemma encoder_loses_last_block_witness:
  "Encode 2 (\<lambda>_. True) new_settings (\<lambda>_. (0, [])) [] [1, 0, 2, 0] [] = Some (Inr (0, [], [Bad_Count (-4095), Flush]))"
proof -
  have "\<forall>cs :: lame_input list. 0 \<le> fst (0 :: int, [] :: 8 word list)" "int (length [1, 0, 2, 0 :: 8 word]) < 2 ^ 62"
    "(\<lambda>_. True) (configure_lame new_settings)" by simp_all
  note r = conjunct1 [OF encoder_loses_last_block [where tag = "[]" and mp3_data = "[]", OF this]]
  have n: "length [1, 0, 2, 0 :: 8 word] = 4" "whole_blocks [1, 0, 2, 0 :: 8 word] = 0" by (simp_all add: whole_blocks_def)
  show ?thesis using mp [OF r [unfolded n]] by (simp add: numeral_2_eq_2)
qed

text \<open>C39.  The encoder of a file of samples, given a LAME whose answers fit its buffer, hands LAME every whole
  sample of the file once and in order, and ends with one flush; the MP3 file is the tag, the answers
  in order and the old tag, with the frame that holds the length of the stream written over the start
  of the answers.\<close>
theorem file_encoded:
  assumes "lame_ok lame" "init_ok (configure_lame_file s)"
  shows "\<exists>calls ms. encode_x init_ok s art lame tag id3v1 frame True True cb pcm_in mp3_out (Some samples) =
       Inr (0, ms, art, calls, Some (tag @ frame @ drop (length frame) (all_answers lame calls @ id3v1))) \<and>
     given calls = take (4 * (length samples div 4)) samples \<and> last calls = Flush \<and>
     set calls \<subseteq> insert Flush (range Block)"
proof -
  let ?f = "write_bytes tag new_file"
  have f: "at_end ?f" "wf_content ?f = tag @ all_answers lame []" "wf_pos ?f = length tag"
    using write_at_end [of new_file tag] by (simp_all add: new_file_def at_end_def all_answers_def write_bytes_def)
  from encode_samples_ok [OF assms(1) f(1,2), of cb samples "notify cb LH_STARTED"] obtain calls ms f1 where
    r: "encode_samples lame cb samples [] (notify cb LH_STARTED) ?f = Inr (calls, ms, f1)" "at_end f1"
      "wf_content f1 = tag @ all_answers lame calls" "given calls = take (4 * (length samples div 4)) samples"
      "last calls = Flush" "set calls \<subseteq> {Flush} \<union> range Block" by auto
  have "wf_content (write_bytes id3v1 f1) = tag @ all_answers lame calls @ id3v1"
    using write_at_end [of f1 id3v1] r(2,3) by (simp add: at_end_def)
  then have "wf_content (write_bytes frame (seek_to (wf_pos ?f) (write_bytes id3v1 f1))) =
      tag @ frame @ drop (length frame) (all_answers lame calls @ id3v1)"
    using f(3) by (simp add: write_bytes_def seek_to_def)
  then have "encode_x init_ok s art lame tag id3v1 frame True True cb pcm_in mp3_out (Some samples) =
       Inr (0, ms @ notify cb LH_DONE, art, calls, Some (tag @ frame @ drop (length frame) (all_answers lame calls @ id3v1)))"
    using assms(2) by (simp add: encode_x_def r(1) Let_def)
  then show ?thesis using r(4-6) by auto
qed

lemma file_encoded_witness:
  "\<exists>calls ms. encode_x (\<lambda>_. True) new_settings [] (\<lambda>cs. (int (length cs), replicate (length cs) 7)) [1] [2] [9, 9]
       True True True ''a'' ''b'' (Some [1, 0, 2, 0, 5]) =
     Inr (0, ms, [], calls, Some ([1] @ [9, 9] @ drop (length [9, 9 :: 8 word])
       (all_answers (\<lambda>cs. (int (length cs), replicate (length cs) 7)) calls @ [2]))) \<and>
     given calls = take (4 * (length [1, 0, 2, 0, 5 :: 8 word] div 4)) [1, 0, 2, 0, 5] \<and> last calls = Flush \<and>
     set calls \<subseteq> insert Flush (range Block)"
  by (rule file_encoded) (simp_all add: lame_ok_def)

text \<open>C40.  An MP3 file of which the decoder first says nothing, and then a header of one or two channels and
  samples, is decoded to a WAVE file: a header of 44 bytes, in which the channels, the rate and the number of
  bytes of samples can be read back, and the samples in order, two bytes for each channel.  Each answer of
  the decoder that is an error takes one sample from the number in the header; without errors the
  header is exact.\<close>
theorem wave_file_decoded:
  assumes run: "drains_all hip h (chunks_of 4096 mp3) (us @ as) h'" "length (us @ as) \<le> fuel"
    and head: "\<forall>u \<in> set us. md_header_parsed (ho_data u) \<noteq> 1 \<and> \<not> ho_error u \<and> ho_frames u = []" "as \<noteq> []"
      "\<forall>a \<in> set as. ho_data a = m" "md_header_parsed m = 1" "md_stereo m = word_of_int c" "c = 1 \<or> c = 2"
    and size: "0 < sum_list (map samples_of as)" "sum_list (map samples_of as) < 2147483648"
      "sum_list (map samples_of as) * 2 * c \<le> 4294967248"
  shows "\<exists>ms file. decode fuel hip h True True True cb mp3_in pcm_out (Some mp3) = Some (Inr (0, ms, [], Some file)) \<and>
     length (take 44 file) = 44 \<and> drop 44 file = concat (map (out_bytes (md_stereo m)) as) \<and>
     le16 (take 2 (drop 22 file)) = md_stereo m \<and> le32 (take 4 (drop 24 file)) = md_samplerate m \<and>
     le32 (take 4 (drop 40 file)) = word_of_int (sum_list (map samples_of as) * 2 * c) \<and>
     int (length (drop 44 file)) = (sum_list (map samples_of as) + int (length (filter ho_error as))) * 2 * c"
proof -
  let ?n = "sum_list (map samples_of as)"
  define d where "d = fold (\<lambda>a d. snd (decode_step cb a d)) (us @ as) (new_decoding cb)"
  have "0 \<le> sint (md_stereo m)" using head(5,6) by auto
  from decode_state [OF head(1-4) this, of cb] obtain ms where
    d: "decoded cb m (concat (map (out_bytes (md_stereo m)) as)) ?n ms [] d" unfolding d_def by blast
  let ?file = "wave_header (word_of_int (?n * 2 * c)) (md_samplerate m) (md_stereo m) @
    concat (map (out_bytes (md_stereo m)) as)"
  have "wave_size (dc_wavsize d) (md_stereo (dc_data d)) = Inr (word_of_int (?n * 2 * c))"
    using wave_size_small [OF size(1,2) head(6) size(3)] d head(5) by (simp add: decoded_def)
  moreover have "wf_content (WriteWaveHeader (word_of_int (?n * 2 * c)) (md_samplerate (dc_data d))
      (md_stereo (dc_data d)) 16 (seek_to 0 (dc_pcm d))) = ?file"
    using d by (simp add: decoded_def WriteWaveHeader_bytes file_ok_def seek_to_def write_bytes_def length_wave_header)
  ultimately have r: "decode fuel hip h True True True cb mp3_in pcm_out (Some mp3) =
      Some (Inr (0, ms @ notify cb LH_DONE, [], Some ?file))"
    using d decode_chunks_drains [OF run, of cb "new_decoding cb", folded d_def]
    by (simp add: decode_def decoded_def)
  have "length (take 44 ?file) = 44" "drop 44 ?file = concat (map (out_bytes (md_stereo m)) as)"
    by (simp_all add: length_wave_header)
  moreover note wave_header_fields [OF head(6)] length_out_bytes [OF head(6), of "as"]
  ultimately show ?thesis unfolding head(5)
    using r [unfolded head(5)] by (intro exI conjI) (assumption | simp)+
qed

definition ex_frame :: hip_out where
  "ex_frame = \<lparr> ho_error = False, ho_frames = [(1, 2), (3, 4)],
     ho_data = \<lparr> md_header_parsed = 1, md_samplerate = 44100, md_stereo = 2 \<rparr> \<rparr>"

definition ex_hip :: "nat \<Rightarrow> 8 word list \<Rightarrow> hip_out \<times> nat" where
  "ex_hip k bs = (if k = 0 then (ex_frame, 1) else (ex_frame\<lparr>ho_frames := []\<rparr>, 2))"

lemma wave_file_decoded_witness:
  "\<exists>ms file. decode 2 ex_hip 0 True True True True ''a'' ''b'' (Some [1, 2, 3]) = Some (Inr (0, ms, [], Some file)) \<and>
     drop 44 file = [1, 0, 2, 0, 3, 0, 4, 0] \<and> le32 (take 4 (drop 40 file)) = 8"
proof -
  let ?as = "[ex_frame, ex_frame\<lparr>ho_frames := []\<rparr>]"
  have "drains ex_hip 0 [1, 2, 3] ?as 2"
  proof (rule drains.more [of ex_hip 0 _ ex_frame 1])
    show "drains ex_hip 1 [] [ex_frame\<lparr>ho_frames := []\<rparr>] 2" by (rule drains.last) (simp_all add: ex_hip_def)
  qed (simp_all add: ex_hip_def ex_frame_def)
  from drains_all.chunk [OF this drains_all.none]
  have run: "drains_all ex_hip 0 (chunks_of 4096 [1, 2, 3]) ([] @ ?as) 2" by (simp add: chunks_of.simps)
  have out: "concat (map (out_bytes 2) ?as) = [1, 0, 2, 0, 3, 0, 4, 0]" by code_simp
  have n: "sum_list (map samples_of ?as) = 2" by (simp add: samples_of_def ex_frame_def)
  have m: "\<forall>a \<in> set ?as. ho_data a = ho_data ex_frame" "md_header_parsed (ho_data ex_frame) = 1"
    "md_stereo (ho_data ex_frame) = word_of_int 2" by (simp_all add: ex_frame_def)
  obtain ms f where "decode 2 ex_hip 0 True True True True ''a'' ''b'' (Some [1, 2, 3]) = Some (Inr (0, ms, [], Some f))"
    "drop 44 f = concat (map (out_bytes (md_stereo (ho_data ex_frame))) ?as)"
    "le32 (take 4 (drop 40 f)) = word_of_int (sum_list (map samples_of ?as) * 2 * 2)"
    using wave_file_decoded [OF run _ _ _ m, of 2 True "''a''" "''b''"] unfolding n by auto
  then show ?thesis using out m(3) by (intro exI conjI) (simp_all add: samples_of_def ex_frame_def)
qed

end
